(* ===== verification/Work_Prelude.thy ===== *)
theory Work_Prelude
  imports Main "HOL-Library.Multiset" "HOL-Library.Char_ord" "HOL-Library.List_Lexorder"
    "HOL-Library.Product_Lexorder"
begin

text \<open>
  Shared vocabulary of the development. It holds the error-and-state actions in which the Go
  functions and the Lua scripts are written, the decimal representation of integers that Redis,
  Lua and Go exchange as text, \<open>strings.Join\<close> and \<open>strings.Split\<close>, and the list lemmas that
  several components need. The collections \<open>act_simps\<close>, \<open>obs_simps\<close>, \<open>key_simps\<close> and
  \<open>redis_laws\<close> gather the rewrite rules the component proofs are driven by.
\<close>

named_theorems act_simps \<open>evaluation of error-and-state actions\<close>
named_theorems obs_simps \<open>observing a keyspace after an update\<close>
named_theorems key_simps \<open>distinctness of Redis keys\<close>
named_theorems redis_laws \<open>documented effect of Redis commands\<close>

section \<open>Actions: state with an error result\<close>

text \<open>
  An action reads and changes a state and returns either an error (\<open>Inl\<close>) or a value
  (\<open>Inr\<close>). A failing action keeps the changes made so far: neither a Go function that returns
  early nor an aborted Lua script rolls anything back.
\<close>

type_synonym ('s, 'e, 'a) act = "'s \<Rightarrow> ('e + 'a) \<times> 's"

definition eret :: "'a \<Rightarrow> ('s, 'e, 'a) act" where
  "eret a = (\<lambda>s. (Inr a, s))"

definition efail :: "'e \<Rightarrow> ('s, 'e, 'a) act" where
  "efail e = (\<lambda>s. (Inl e, s))"

definition ebind :: "('s, 'e, 'a) act \<Rightarrow> ('a \<Rightarrow> ('s, 'e, 'b) act) \<Rightarrow> ('s, 'e, 'b) act" where
  "ebind m f = (\<lambda>s. case m s of (Inl e, s') \<Rightarrow> (Inl e, s') | (Inr a, s') \<Rightarrow> f a s')"

text \<open>\<open>etry\<close> hands the outcome of an action to the code that inspects the error itself.\<close>

definition etry :: "('s, 'e, 'a) act \<Rightarrow> ('s, 'f, 'e + 'a) act" where
  "etry m = (\<lambda>s. case m s of (r, s') \<Rightarrow> (Inr r, s'))"

text \<open>A \<open>for\<close> loop over a list whose body may return early with an error.\<close>

fun eiter :: "('a \<Rightarrow> ('s, 'e, unit) act) \<Rightarrow> 'a list \<Rightarrow> ('s, 'e, unit) act" where
  "eiter f [] = eret ()"
| "eiter f (x # xs) = ebind (f x) (\<lambda>_. eiter f xs)"

lemma eret_apply [act_simps]: "eret a s = (Inr a, s)"
  by (simp add: eret_def)

lemma efail_apply [act_simps]: "efail e s = (Inl e, s)"
  by (simp add: efail_def)

lemma ebind_Inr [act_simps]: "m s = (Inr a, s') \<Longrightarrow> ebind m f s = f a s'"
  by (simp add: ebind_def)

lemma ebind_Inl [act_simps]: "m s = (Inl e, s') \<Longrightarrow> ebind m f s = (Inl e, s')"
  by (simp add: ebind_def)

lemma etry_apply [act_simps]: "m s = (r, s') \<Longrightarrow> etry m s = (Inr r, s')"
  by (simp add: etry_def)

lemma ebind_etry: "m s = (r, s') \<Longrightarrow> ebind (etry m) f s = f r s'"
  by (simp add: ebind_def etry_def)

lemma ebind_InrD:
  assumes "ebind m f s = (Inr b, s'')"
  obtains a s' where "m s = (Inr a, s')" and "f a s' = (Inr b, s'')"
  using assms by (auto simp: ebind_def split: prod.splits sum.splits)

section \<open>Integers of 64 bits\<close>

definition in_i64 :: "int \<Rightarrow> bool" where
  "in_i64 n \<longleftrightarrow> - (2 ^ 63) \<le> n \<and> n < 2 ^ 63"

text \<open>Go's conversion of a mathematical integer to \<open>int64\<close>: two's complement wrap-around.\<close>

definition wrap_i64 :: "int \<Rightarrow> int" where
  "wrap_i64 n = (n + 2 ^ 63) mod 2 ^ 64 - 2 ^ 63"

lemma wrap_i64_id: "in_i64 n \<Longrightarrow> wrap_i64 n = n"
  by (simp add: in_i64_def wrap_i64_def)

lemma wrap_i64_range: "in_i64 (wrap_i64 n)"
  by (simp add: in_i64_def wrap_i64_def)

section \<open>Decimal integers as text\<close>

definition digit_char :: "nat \<Rightarrow> char" where
  "digit_char d = ''0123456789'' ! d"

definition is_digit :: "char \<Rightarrow> bool" where
  "is_digit c \<longleftrightarrow> 48 \<le> (of_char c :: nat) \<and> (of_char c :: nat) \<le> 57"

definition digit_val :: "char \<Rightarrow> nat" where
  "digit_val c = of_char c - 48"

fun string_of_nat :: "nat \<Rightarrow> string" where
  "string_of_nat n =
     (if n < 10 then [digit_char n] else string_of_nat (n div 10) @ [digit_char (n mod 10)])"

declare string_of_nat.simps [simp del]

definition nat_of_digits :: "string \<Rightarrow> nat" where
  "nat_of_digits s = foldl (\<lambda>a c. 10 * a + digit_val c) 0 s"

definition string_of_int :: "int \<Rightarrow> string" where
  "string_of_int n = (if n < 0 then CHR ''-'' # string_of_nat (nat (- n)) else string_of_nat (nat n))"

definition int_of_string :: "string \<Rightarrow> int option" where
  "int_of_string s =
     (case s of
        [] \<Rightarrow> None
      | c # cs \<Rightarrow>
          if c = CHR ''-''
          then (if cs \<noteq> [] \<and> list_all is_digit cs then Some (- int (nat_of_digits cs)) else None)
          else (if list_all is_digit s then Some (int (nat_of_digits s)) else None))"

lemma digit_cases: "(d :: nat) < 10 \<Longrightarrow> d \<in> {0, 1, 2, 3, 4, 5, 6, 7, 8, 9}"
  by auto

lemma is_digit_digit_char [simp]: "d < 10 \<Longrightarrow> is_digit (digit_char d)"
  by (drule digit_cases) (auto simp: is_digit_def digit_char_def)

lemma digit_val_digit_char [simp]: "d < 10 \<Longrightarrow> digit_val (digit_char d) = d"
  by (drule digit_cases) (auto simp: digit_val_def digit_char_def)

lemma string_of_nat_nonempty [simp]: "string_of_nat n \<noteq> []"
  by (subst string_of_nat.simps) simp

lemma string_of_nat_digits [simp]: "list_all is_digit (string_of_nat n)"
proof (induction n rule: string_of_nat.induct)
  case (1 n)
  then show ?case by (subst string_of_nat.simps) auto
qed

lemma nat_of_digits_snoc: "nat_of_digits (s @ [c]) = 10 * nat_of_digits s + digit_val c"
  by (simp add: nat_of_digits_def)

lemma nat_of_digits_string_of_nat [simp]: "nat_of_digits (string_of_nat n) = n"
proof (induction n rule: string_of_nat.induct)
  case (1 n)
  show ?case
  proof (cases "n < 10")
    case True
    then show ?thesis by (subst string_of_nat.simps) (simp add: nat_of_digits_def)
  next
    case False
    with 1 show ?thesis by (subst string_of_nat.simps) (simp add: nat_of_digits_snoc)
  qed
qed

lemma string_of_nat_no_minus: "string_of_nat n = c # cs \<Longrightarrow> c \<noteq> CHR ''-''"
  using string_of_nat_digits [of n] by (auto simp: is_digit_def)

lemma int_of_string_of_int [simp]: "int_of_string (string_of_int n) = Some n"
proof (cases "n < 0")
  case True
  then show ?thesis by (simp add: int_of_string_def string_of_int_def)
next
  case False
  obtain c cs where s: "string_of_nat (nat n) = c # cs"
    by (cases "string_of_nat (nat n)") auto
  then have "c \<noteq> CHR ''-''" by (rule string_of_nat_no_minus)
  moreover have "list_all is_digit (c # cs)"
    using string_of_nat_digits [of "nat n"] by (simp only: s)
  moreover have "nat_of_digits (c # cs) = nat n"
    using nat_of_digits_string_of_nat [of "nat n"] by (simp only: s)
  ultimately show ?thesis
    using False by (simp add: int_of_string_def string_of_int_def s)
qed

lemma string_of_int_inject [simp]: "string_of_int m = string_of_int n \<longleftrightarrow> m = n"
  by (metis int_of_string_of_int option.inject)

lemma string_of_int_nonempty [simp]: "string_of_int n \<noteq> []"
  by (simp add: string_of_int_def)

section \<open>Go's \<open>strings.Join\<close> and \<open>strings.Split\<close> with a one-byte separator\<close>

fun strings_Join :: "string list \<Rightarrow> char \<Rightarrow> string" where
  "strings_Join [] sep = []"
| "strings_Join [s] sep = s"
| "strings_Join (s # t # ts) sep = s @ sep # strings_Join (t # ts) sep"

text \<open>\<open>Split\<close> of the empty string is the list of one empty string.\<close>

fun strings_Split :: "string \<Rightarrow> char \<Rightarrow> string list" where
  "strings_Split [] sep = [[]]"
| "strings_Split (c # cs) sep =
     (if c = sep then [] # strings_Split cs sep
      else (case strings_Split cs sep of [] \<Rightarrow> [[c]] | t # ts \<Rightarrow> (c # t) # ts))"

lemma strings_Split_nonempty [simp]: "strings_Split s sep \<noteq> []"
  by (induction s) (auto split: list.splits)

lemma strings_Split_no_sep: "sep \<notin> set s \<Longrightarrow> strings_Split s sep = [s]"
  by (induction s) auto

lemma strings_Split_append:
  "sep \<notin> set s \<Longrightarrow> strings_Split (s @ sep # t) sep = s # strings_Split t sep"
  by (induction s) auto

lemma strings_Split_Join:
  assumes "xs \<noteq> []" and "\<forall>x\<in>set xs. sep \<notin> set x"
  shows "strings_Split (strings_Join xs sep) sep = xs"
  using assms
  by (induction xs sep rule: strings_Join.induct)
    (auto simp: strings_Split_no_sep strings_Split_append)

section \<open>Lists\<close>

lemma mset_butlast_last: "xs \<noteq> [] \<Longrightarrow> add_mset (last xs) (mset (butlast xs)) = mset xs"
  by (metis append_butlast_last_id mset.simps add_mset_add_single mset_append)

lemma mset_rotate_last [simp]: "xs \<noteq> [] \<Longrightarrow> mset (butlast xs) + add_mset (last xs) M = mset xs + M"
  by (metis mset_butlast_last union_mset_add_mset_right union_mset_add_mset_left)

lemma length_remove1_Suc: "x \<in> set xs \<Longrightarrow> Suc (length (remove1 x xs)) = length xs"
  by (metis One_nat_def Suc_pred length_pos_if_in_set length_remove1)

end
