(* ===== verification/Json_Text.thy ===== *)
theory Json_Text
  imports Work_Prelude
begin

text \<open>
  JSON documents and their text, as Go's \<open>encoding/json\<close> writes and reads them. Jobs, job
  arguments and unique keys travel through Redis as such text. The printer is the compact form
  of \<open>json.Marshal\<close> (HTML characters escaped); the parser accepts white space and every escape.
  The main result is that printing and parsing are inverse on well-formed documents.
  Strings are sequences of bytes holding valid UTF-8; bytes from 128 on are copied.
\<close>

section \<open>Documents\<close>

text \<open>A number is kept as its decimal literal, so that no digit is lost.\<close>

datatype json =
    JNull
  | JBool bool
  | JNum string
  | JStr string
  | JArr "json list"
  | JObj "(string \<times> json) list"

section \<open>Number literals\<close>

definition is_numchar :: "char \<Rightarrow> bool" where
  "is_numchar c \<longleftrightarrow> is_digit c \<or> c \<in> {CHR ''-'', CHR ''+'', CHR ''.'', CHR ''e'', CHR ''E''}"

definition lit_sign :: "string \<Rightarrow> bool \<times> string" where
  "lit_sign s = (case s of [] \<Rightarrow> (False, []) | c # cs \<Rightarrow> if c = CHR ''-'' then (True, cs) else (False, s))"

text \<open>The fraction: its digits and the rest, \<open>None\<close> for a point without digits.\<close>

definition lit_frac :: "string \<Rightarrow> (string \<times> string) option" where
  "lit_frac s =
     (case s of
        [] \<Rightarrow> Some ([], [])
      | c # cs \<Rightarrow>
          if c = CHR ''.'' then
            (if takeWhile is_digit cs = [] then None
             else Some (takeWhile is_digit cs, dropWhile is_digit cs))
          else Some ([], s))"

definition lit_exp_digits :: "string \<Rightarrow> int option" where
  "lit_exp_digits s = (if s \<noteq> [] \<and> list_all is_digit s then Some (int (nat_of_digits s)) else None)"

definition lit_exp :: "string \<Rightarrow> int option" where
  "lit_exp s =
     (case s of
        [] \<Rightarrow> Some 0
      | c # cs \<Rightarrow>
          if c = CHR ''e'' \<or> c = CHR ''E'' then
            (case cs of
               [] \<Rightarrow> None
             | d # ds \<Rightarrow>
                 if d = CHR ''-'' then map_option uminus (lit_exp_digits ds)
                 else if d = CHR ''+'' then lit_exp_digits ds
                 else lit_exp_digits cs)
          else None)"

text \<open>
  The value of a literal as mantissa and power of ten; \<open>None\<close> when the text is not a JSON number.
\<close>

definition lit_parse :: "string \<Rightarrow> (int \<times> int) option" where
  "lit_parse s =
     (case lit_sign s of (neg, s1) \<Rightarrow>
        let ip = takeWhile is_digit s1 in
        if ip = [] \<or> (length ip > 1 \<and> hd ip = CHR ''0'') then None
        else
          (case lit_frac (dropWhile is_digit s1) of
             None \<Rightarrow> None
           | Some (fp, s2) \<Rightarrow>
               (case lit_exp s2 of
                  None \<Rightarrow> None
                | Some e \<Rightarrow>
                    let m = int (nat_of_digits (ip @ fp)) in
                    Some (if neg then - m else m, e - int (length fp)))))"

section \<open>Printing\<close>

definition hex_digit :: "nat \<Rightarrow> char" where
  "hex_digit n = ''0123456789abcdef'' ! n"

definition json_esc :: "char \<Rightarrow> string" where
  "json_esc c =
     (if c = CHR 0x22 then [CHR 0x5C, CHR 0x22]
      else if c = CHR 0x5C then [CHR 0x5C, CHR 0x5C]
      else if c = CHR 0x08 then [CHR 0x5C, CHR ''b'']
      else if c = CHR 0x0C then [CHR 0x5C, CHR ''f'']
      else if c = CHR 0x0A then [CHR 0x5C, CHR ''n'']
      else if c = CHR 0x0D then [CHR 0x5C, CHR ''r'']
      else if c = CHR 0x09 then [CHR 0x5C, CHR ''t'']
      else if (of_char c :: nat) < 32 \<or> c = CHR ''<'' \<or> c = CHR ''>'' \<or> c = CHR ''&''
        then [CHR 0x5C, CHR ''u'', CHR ''0'', CHR ''0'',
              hex_digit (of_char c div 16), hex_digit (of_char c mod 16)]
      else [c])"

definition json_string :: "string \<Rightarrow> string" where
  "json_string s = CHR 0x22 # concat (map json_esc s) @ [CHR 0x22]"

fun json_print :: "json \<Rightarrow> string"
  and print_elems :: "json list \<Rightarrow> string"
  and print_members :: "(string \<times> json) list \<Rightarrow> string" where
  "json_print JNull = ''null''"
| "json_print (JBool b) = (if b then ''true'' else ''false'')"
| "json_print (JNum s) = s"
| "json_print (JStr s) = json_string s"
| "json_print (JArr xs) = CHR ''['' # print_elems xs"
| "json_print (JObj kvs) = CHR ''{'' # print_members kvs"
| "print_elems [] = '']''"
| "print_elems [x] = json_print x @ '']''"
| "print_elems (x # y # ys) = json_print x @ CHR '','' # print_elems (y # ys)"
| "print_members [] = ''}''"
| "print_members [(k, v)] = json_string k @ CHR '':'' # json_print v @ ''}''"
| "print_members ((k, v) # m # ms) =
     json_string k @ CHR '':'' # json_print v @ CHR '','' # print_members (m # ms)"

section \<open>Parsing\<close>

definition is_ws :: "char \<Rightarrow> bool" where
  "is_ws c \<longleftrightarrow> of_char c \<in> {32, 9, 10, 13 :: nat}"

definition skip_ws :: "string \<Rightarrow> string" where
  "skip_ws s = dropWhile is_ws s"

definition hex_val :: "char \<Rightarrow> nat option" where
  "hex_val c =
     (let n = (of_char c :: nat) in
      if 48 \<le> n \<and> n \<le> 57 then Some (n - 48)
      else if 97 \<le> n \<and> n \<le> 102 then Some (n - 87)
      else if 65 \<le> n \<and> n \<le> 70 then Some (n - 55)
      else None)"

definition hex4 :: "string \<Rightarrow> (nat \<times> string) option" where
  "hex4 s =
     (case s of
        a # b # c # d # r \<Rightarrow>
          (case (hex_val a, hex_val b, hex_val c, hex_val d) of
             (Some x, Some y, Some z, Some w) \<Rightarrow> Some (4096 * x + 256 * y + 16 * z + w, r)
           | _ \<Rightarrow> None)
      | _ \<Rightarrow> None)"

definition utf8 :: "nat \<Rightarrow> string" where
  "utf8 n =
     (if n < 128 then [char_of n]
      else if n < 2048 then [char_of (192 + n div 64), char_of (128 + n mod 64)]
      else if n < 65536
        then [char_of (224 + n div 4096), char_of (128 + n div 64 mod 64), char_of (128 + n mod 64)]
      else [char_of (240 + n div 262144), char_of (128 + n div 4096 mod 64),
            char_of (128 + n div 64 mod 64), char_of (128 + n mod 64)])"

text \<open>
  One escape sequence, given the text after the backslash. A surrogate pair is one code point;
  a lone surrogate becomes the replacement character.
\<close>

definition parse_u :: "string \<Rightarrow> (string \<times> string) option" where
  "parse_u s =
     (case hex4 s of
        None \<Rightarrow> None
      | Some (n, r) \<Rightarrow>
          if 55296 \<le> n \<and> n < 57344 then
            (case r of
               p # q # r' \<Rightarrow>
                 (if n < 56320 \<and> p = CHR 0x5C \<and> q = CHR ''u'' then
                    (case hex4 r' of
                       Some (m, r'') \<Rightarrow>
                         (if 56320 \<le> m \<and> m < 57344
                          then Some (utf8 (65536 + 1024 * (n - 55296) + (m - 56320)), r'')
                          else Some (utf8 65533, r))
                     | None \<Rightarrow> Some (utf8 65533, r))
                  else Some (utf8 65533, r))
             | _ \<Rightarrow> Some (utf8 65533, r))
          else Some (utf8 n, r))"

definition parse_esc :: "string \<Rightarrow> (string \<times> string) option" where
  "parse_esc s =
     (case s of
        [] \<Rightarrow> None
      | c # cs \<Rightarrow>
          if c = CHR ''u'' then parse_u cs
          else if c = CHR 0x22 \<or> c = CHR 0x5C \<or> c = CHR ''/'' then Some ([c], cs)
          else if c = CHR ''b'' then Some ([CHR 0x08], cs)
          else if c = CHR ''f'' then Some ([CHR 0x0C], cs)
          else if c = CHR ''n'' then Some ([CHR 0x0A], cs)
          else if c = CHR ''r'' then Some ([CHR 0x0D], cs)
          else if c = CHR ''t'' then Some ([CHR 0x09], cs)
          else None)"

lemma hex4_length: "hex4 s = Some (n, r) \<Longrightarrow> length r < length s"
  by (auto simp: hex4_def split: list.splits option.splits)

lemma parse_u_length: "parse_u s = Some (t, r) \<Longrightarrow> length r < length s"
  by (auto simp: parse_u_def split: option.splits list.splits if_splits dest!: hex4_length)

lemma parse_esc_length: "parse_esc s = Some (t, r) \<Longrightarrow> length r < length s"
  by (auto simp: parse_esc_def split: list.splits if_splits dest!: parse_u_length)

text \<open>The rest of a string after its opening quote.\<close>

function parse_str :: "string \<Rightarrow> (string \<times> string) option" where
  "parse_str [] = None"
| "parse_str (c # cs) =
     (if c = CHR 0x22 then Some ([], cs)
      else if c = CHR 0x5C then
        (case parse_esc cs of
           None \<Rightarrow> None
         | Some (t, r) \<Rightarrow> (case parse_str r of None \<Rightarrow> None | Some (u, r') \<Rightarrow> Some (t @ u, r')))
      else if (of_char c :: nat) < 32 then None
      else (case parse_str cs of None \<Rightarrow> None | Some (u, r') \<Rightarrow> Some (c # u, r')))"
  by pat_completeness auto
termination
  by (relation "measure length") (auto dest: parse_esc_length)

definition parse_lit :: "string \<Rightarrow> json \<Rightarrow> string \<Rightarrow> (json \<times> string) option" where
  "parse_lit w v s = (if take (length w) s = w then Some (v, drop (length w) s) else None)"

definition parse_num :: "string \<Rightarrow> (json \<times> string) option" where
  "parse_num s =
     (if lit_parse (takeWhile is_numchar s) = None then None
      else Some (JNum (takeWhile is_numchar s), dropWhile is_numchar s))"

text \<open>A value, the elements of an array up to its bracket, the members of an object up to its brace.\<close>

fun parse_val :: "nat \<Rightarrow> string \<Rightarrow> (json \<times> string) option"
  and parse_elems :: "nat \<Rightarrow> string \<Rightarrow> (json list \<times> string) option"
  and parse_members :: "nat \<Rightarrow> string \<Rightarrow> ((string \<times> json) list \<times> string) option" where
  "parse_val 0 s = None"
| "parse_val (Suc n) s =
     (case skip_ws s of
        [] \<Rightarrow> None
      | c # cs \<Rightarrow>
          if c = CHR ''n'' then parse_lit ''null'' JNull (c # cs)
          else if c = CHR ''t'' then parse_lit ''true'' (JBool True) (c # cs)
          else if c = CHR ''f'' then parse_lit ''false'' (JBool False) (c # cs)
          else if c = CHR 0x22 then
            (case parse_str cs of None \<Rightarrow> None | Some (t, r) \<Rightarrow> Some (JStr t, r))
          else if c = CHR ''['' then
            (case skip_ws cs of
               [] \<Rightarrow> None
             | d # ds \<Rightarrow>
                 if d = CHR '']'' then Some (JArr [], ds)
                 else (case parse_elems n cs of None \<Rightarrow> None | Some (vs, r) \<Rightarrow> Some (JArr vs, r)))
          else if c = CHR ''{'' then
            (case skip_ws cs of
               [] \<Rightarrow> None
             | d # ds \<Rightarrow>
                 if d = CHR ''}'' then Some (JObj [], ds)
                 else (case parse_members n cs of None \<Rightarrow> None | Some (ms, r) \<Rightarrow> Some (JObj ms, r)))
          else parse_num (c # cs))"
| "parse_elems 0 s = None"
| "parse_elems (Suc n) s =
     (case parse_val n s of
        None \<Rightarrow> None
      | Some (v, r) \<Rightarrow>
          (case skip_ws r of
             [] \<Rightarrow> None
           | c # cs \<Rightarrow>
               if c = CHR '']'' then Some ([v], cs)
               else if c = CHR '','' then
                 (case parse_elems n cs of None \<Rightarrow> None | Some (vs, r') \<Rightarrow> Some (v # vs, r'))
               else None))"
| "parse_members 0 s = None"
| "parse_members (Suc n) s =
     (case skip_ws s of
        [] \<Rightarrow> None
      | q # qs \<Rightarrow>
          if q \<noteq> CHR 0x22 then None
          else
            (case parse_str qs of
               None \<Rightarrow> None
             | Some (k, r) \<Rightarrow>
                 (case skip_ws r of
                    [] \<Rightarrow> None
                  | c # cs \<Rightarrow>
                      if c \<noteq> CHR '':'' then None
                      else
                        (case parse_val n cs of
                           None \<Rightarrow> None
                         | Some (v, r1) \<Rightarrow>
                             (case skip_ws r1 of
                                [] \<Rightarrow> None
                              | d # ds \<Rightarrow>
                                  if d = CHR ''}'' then Some ([(k, v)], ds)
                                  else if d = CHR '','' then
                                    (case parse_members n ds of
                                       None \<Rightarrow> None
                                     | Some (ms, r') \<Rightarrow> Some ((k, v) # ms, r'))
                                  else None)))))"

text \<open>
  A document: one value and nothing after it but white space. The length of the text is enough
  fuel, because every nested call of the parser has consumed a character.
\<close>

definition json_parse :: "string \<Rightarrow> json option" where
  "json_parse s =
     (case parse_val (Suc (length s)) s of
        None \<Rightarrow> None
      | Some (v, r) \<Rightarrow> if skip_ws r = [] then Some v else None)"

text \<open>A document is well formed when all its number literals are JSON numbers.\<close>

fun json_wf :: "json \<Rightarrow> bool" where
  "json_wf (JNum s) = (list_all is_numchar s \<and> lit_parse s \<noteq> None)"
| "json_wf (JArr xs) = list_all json_wf xs"
| "json_wf (JObj kvs) = list_all (\<lambda>(k, v). json_wf v) kvs"
| "json_wf _ = True"


section \<open>Printing and parsing are inverse\<close>

lemma hex_val_hex_digit [simp]:
  assumes "n < 16"
  shows "hex_val (hex_digit n) = Some n"
proof -
  have "n \<in> {0, 1, 2, 3, 4, 5, 6, 7, 8, 9, 10, 11, 12, 13, 14, 15}" using assms by simp presburger
  then show ?thesis by (auto simp: hex_val_def hex_digit_def)
qed

lemma hex_val_0 [simp]: "hex_val (CHR ''0'') = Some 0"
  by (simp add: hex_val_def)

lemma hex4_00:
  assumes "n < 256"
  shows "hex4 (CHR ''0'' # CHR ''0'' # hex_digit (n div 16) # hex_digit (n mod 16) # r) = Some (n, r)"
proof -
  have "n div 16 < 16" using assms by simp
  then have "hex_val (hex_digit (n div 16)) = Some (n div 16)"
    and "hex_val (hex_digit (n mod 16)) = Some (n mod 16)" by simp_all
  moreover have "16 * (n div 16) + n mod 16 = n" by simp
  ultimately show ?thesis by (simp add: hex4_def)
qed

lemma parse_u_00:
  assumes "(of_char c :: nat) < 128"
  shows "parse_u (CHR ''0'' # CHR ''0'' # hex_digit (of_char c div 16) # hex_digit (of_char c mod 16) # r)
    = Some ([c], r)"
  using assms hex4_00 [of "of_char c" r] by (simp add: parse_u_def utf8_def)

text \<open>Characters printed as a short escape, as a numeric escape, and as they are.\<close>

lemma json_esc_cases:
  obtains (short) e where "json_esc c = [CHR 0x5C, e]" and "\<And>r. parse_esc (e # r) = Some ([c], r)"
  | (numeric) "json_esc c = [CHR 0x5C, CHR ''u'', CHR ''0'', CHR ''0'',
      hex_digit (of_char c div 16), hex_digit (of_char c mod 16)]" and "(of_char c :: nat) < 128"
  | (plain) "json_esc c = [c]" and "c \<noteq> CHR 0x22" and "c \<noteq> CHR 0x5C"
      and "\<not> (of_char c :: nat) < 32"
proof (cases "c \<in> {CHR 0x22, CHR 0x5C, CHR 0x08, CHR 0x0C, CHR 0x0A, CHR 0x0D, CHR 0x09}")
  case True
  then show ?thesis by (auto simp: json_esc_def parse_esc_def intro: short)
next
  case False
  show ?thesis
  proof (cases "(of_char c :: nat) < 32 \<or> c \<in> {CHR ''<'', CHR ''>'', CHR ''&''}")
    case True
    then have "(of_char c :: nat) < 128" by auto
    with True False show ?thesis by (intro numeric) (auto simp: json_esc_def)
  next
    case no: False
    with False show ?thesis by (intro plain) (auto simp: json_esc_def)
  qed
qed

lemma parse_str_esc:
  "parse_str (json_esc c @ r) =
     (case parse_str r of None \<Rightarrow> None | Some (u, r') \<Rightarrow> Some (c # u, r'))"
proof (cases rule: json_esc_cases [of c])
  case (short e)
  then show ?thesis by (simp cong: option.case_cong prod.case_cong)
next
  case numeric
  have "parse_esc (CHR ''u'' # CHR ''0'' # CHR ''0'' # hex_digit (of_char c div 16)
      # hex_digit (of_char c mod 16) # r) = Some ([c], r)"
    using parse_u_00 [OF numeric(2)] by (simp add: parse_esc_def)
  with numeric(1) show ?thesis by (simp cong: option.case_cong prod.case_cong)
next
  case plain
  then show ?thesis by simp
qed

lemma parse_str_json_string: "parse_str (concat (map json_esc s) @ CHR 0x22 # r) = Some (s, r)"
  by (induction s) (simp_all add: parse_str_esc del: parse_str.simps(2), simp)

lemma skip_ws_nonws: "\<not> is_ws c \<Longrightarrow> skip_ws (c # cs) = c # cs"
  by (simp add: skip_ws_def)

lemma is_ws_num: "is_numchar c \<Longrightarrow> \<not> is_ws c"
  by (auto simp: is_numchar_def is_ws_def is_digit_def)

lemma is_ws_punct [simp]:
  "\<not> is_ws (CHR '']'')" "\<not> is_ws (CHR ''['')" "\<not> is_ws (CHR ''{'')" "\<not> is_ws (CHR ''}'')"
  "\<not> is_ws (CHR '','')" "\<not> is_ws (CHR '':'')" "\<not> is_ws (CHR 0x22)" "\<not> is_ws (CHR ''n'')"
  "\<not> is_ws (CHR ''t'')" "\<not> is_ws (CHR ''f'')"
  by (simp_all add: is_ws_def)

text \<open>What may follow a value without being taken for a part of it.\<close>

definition ends_value :: "string \<Rightarrow> bool" where
  "ends_value r \<longleftrightarrow> (case r of [] \<Rightarrow> True | c # cs \<Rightarrow> \<not> is_numchar c)"

lemma ends_value_simps [simp]:
  "ends_value []" "ends_value (c # r) \<longleftrightarrow> \<not> is_numchar c"
  by (simp_all add: ends_value_def)

lemma is_numchar_punct [simp]:
  "\<not> is_numchar (CHR '']'')" "\<not> is_numchar (CHR ''}'')" "\<not> is_numchar (CHR '','')"
  "\<not> is_numchar (CHR 0x0A)"
  by (simp_all add: is_numchar_def is_digit_def)

lemma takeWhile_num: "list_all is_numchar s \<Longrightarrow> ends_value r \<Longrightarrow> takeWhile is_numchar (s @ r) = s"
  by (induction s) (auto simp: ends_value_def split: list.splits)

lemma dropWhile_num: "list_all is_numchar s \<Longrightarrow> ends_value r \<Longrightarrow> dropWhile is_numchar (s @ r) = r"
  by (induction s) (auto simp: ends_value_def split: list.splits)

lemma lit_parse_Nil [simp]: "lit_parse [] = None"
  by (simp add: lit_parse_def lit_sign_def)

lemma parse_val_num:
  assumes "list_all is_numchar s" and "lit_parse s \<noteq> None" and "ends_value r" and "0 < n"
  shows "parse_val n (s @ r) = Some (JNum s, r)"
proof -
  obtain c cs where s: "s = c # cs" using assms(2) by (cases s) auto
  obtain m where n: "n = Suc m" using assms(4) by (cases n) auto
  have c: "is_numchar c" using assms(1) s by simp
  have "c \<notin> {CHR ''n'', CHR ''t'', CHR ''f'', CHR 0x22, CHR ''['', CHR ''{''}"
    using c by (auto simp: is_numchar_def is_digit_def)
  moreover have "skip_ws (s @ r) = s @ r" using c s by (simp add: skip_ws_nonws is_ws_num)
  moreover have "parse_num (s @ r) = Some (JNum s, r)"
    using assms by (simp add: parse_num_def takeWhile_num dropWhile_num)
  ultimately show ?thesis using s n by simp
qed

fun val_fuel :: "json \<Rightarrow> nat" and elems_fuel :: "json list \<Rightarrow> nat"
  and members_fuel :: "(string \<times> json) list \<Rightarrow> nat" where
  "val_fuel (JArr xs) = Suc (elems_fuel xs)"
| "val_fuel (JObj kvs) = Suc (members_fuel kvs)"
| "val_fuel _ = 1"
| "elems_fuel [] = 0"
| "elems_fuel (x # xs) = Suc (val_fuel x + elems_fuel xs)"
| "members_fuel [] = 0"
| "members_fuel ((k, v) # kvs) = Suc (val_fuel v + members_fuel kvs)"

lemma fuel_le_length:
  "json_wf j \<Longrightarrow> val_fuel j \<le> length (json_print j)"
  "list_all json_wf xs \<Longrightarrow> elems_fuel xs \<le> length (print_elems xs)"
  "list_all (\<lambda>(k, v). json_wf v) kvs \<Longrightarrow> members_fuel kvs \<le> length (print_members kvs)"
proof (induction j and xs and kvs rule: json_print_print_elems_print_members.induct)
  case (3 s)
  then show ?case by (cases s) auto
qed (simp_all add: json_string_def)

lemma print_nonws:
  "json_wf j \<Longrightarrow> \<exists>c cs. json_print j = c # cs \<and> \<not> is_ws c \<and> c \<noteq> CHR '']'' \<and> c \<noteq> CHR ''}''"
proof (cases j)
  case (JNum s)
  assume wf: "json_wf j"
  with JNum obtain c cs where s: "s = c # cs" by (cases s) auto
  with wf JNum have c: "is_numchar c" by simp
  then have "c \<noteq> CHR '']''" "c \<noteq> CHR ''}''" by (auto simp: is_numchar_def is_digit_def)
  with JNum s c show ?thesis by (simp add: is_ws_num)
qed (auto simp: json_string_def)

lemma print_elems_nonws:
  "xs \<noteq> [] \<Longrightarrow> list_all json_wf xs \<Longrightarrow>
   \<exists>c cs. print_elems xs = c # cs \<and> \<not> is_ws c \<and> c \<noteq> CHR '']''"
  by (cases xs rule: remdups_adj.cases) (auto dest!: print_nonws)

lemma print_members_nonws:
  "kvs \<noteq> [] \<Longrightarrow> \<exists>cs. print_members kvs = CHR 0x22 # cs"
  by (cases kvs rule: print_members.cases) (auto simp: json_string_def)

lemma parse_val_arr:
  assumes "xs \<noteq> []" and "list_all json_wf xs" and "parse_elems n (print_elems xs @ r) = Some (xs, r)"
  shows "parse_val (Suc n) (json_print (JArr xs) @ r) = Some (JArr xs, r)"
  using assms print_elems_nonws [OF assms(1,2)] by (auto simp: skip_ws_nonws)

lemma parse_val_obj:
  assumes "kvs \<noteq> []" and "parse_members n (print_members kvs @ r) = Some (kvs, r)"
  shows "parse_val (Suc n) (json_print (JObj kvs) @ r) = Some (JObj kvs, r)"
  using assms print_members_nonws [OF assms(1)] by (auto simp: skip_ws_nonws)

lemma parse_elems_last:
  "parse_val n s = Some (v, CHR '']'' # r) \<Longrightarrow> parse_elems (Suc n) s = Some ([v], r)"
  by (simp add: skip_ws_nonws del: parse_val.simps)

lemma parse_elems_more:
  "parse_val n s = Some (v, CHR '','' # t) \<Longrightarrow> parse_elems n t = Some (vs, r) \<Longrightarrow>
   parse_elems (Suc n) s = Some (v # vs, r)"
  by (simp add: skip_ws_nonws del: parse_val.simps)

lemma parse_members_last:
  "parse_val n s = Some (v, CHR ''}'' # r) \<Longrightarrow>
   parse_members (Suc n) (json_string k @ CHR '':'' # s) = Some ([(k, v)], r)"
  by (simp add: skip_ws_nonws json_string_def parse_str_json_string del: parse_val.simps)

lemma parse_members_more:
  "parse_val n s = Some (v, CHR '','' # t) \<Longrightarrow> parse_members n t = Some (ms, r) \<Longrightarrow>
   parse_members (Suc n) (json_string k @ CHR '':'' # s) = Some ((k, v) # ms, r)"
  by (simp add: skip_ws_nonws json_string_def parse_str_json_string del: parse_val.simps)

lemma parse_print:
  "json_wf j \<Longrightarrow> ends_value r \<Longrightarrow> val_fuel j \<le> n \<Longrightarrow> parse_val n (json_print j @ r) = Some (j, r)"
  "xs \<noteq> [] \<Longrightarrow> list_all json_wf xs \<Longrightarrow> elems_fuel xs \<le> n \<Longrightarrow>
     parse_elems n (print_elems xs @ r) = Some (xs, r)"
  "kvs \<noteq> [] \<Longrightarrow> list_all (\<lambda>(k, v). json_wf v) kvs \<Longrightarrow> members_fuel kvs \<le> n \<Longrightarrow>
     parse_members n (print_members kvs @ r) = Some (kvs, r)"
proof (induction j and xs and kvs arbitrary: n r and n r and n r
    rule: json_print_print_elems_print_members.induct)
  case 1
  then show ?case by (cases n) (auto simp: skip_ws_nonws parse_lit_def)
next
  case (2 b)
  then show ?case by (cases n) (auto simp: skip_ws_nonws parse_lit_def)
next
  case (3 s)
  then show ?case by (simp add: parse_val_num)
next
  case (4 s)
  then show ?case by (cases n) (auto simp: skip_ws_nonws json_string_def parse_str_json_string)
next
  case (5 xs)
  then obtain m where n: "n = Suc m" by (cases n) auto
  show ?case
  proof (cases "xs = []")
    case True
    with n show ?thesis by (simp add: skip_ws_nonws)
  next
    case False
    with 5 n have "parse_elems m (print_elems xs @ r) = Some (xs, r)" by simp
    with 5 n False show ?thesis by (simp only: json_wf.simps) (rule parse_val_arr)
  qed
next
  case (6 kvs)
  then obtain m where n: "n = Suc m" by (cases n) auto
  show ?case
  proof (cases "kvs = []")
    case True
    with n show ?thesis by (simp add: skip_ws_nonws)
  next
    case False
    with 6 n have "parse_members m (print_members kvs @ r) = Some (kvs, r)" by simp
    with n False show ?thesis by (simp only:) (rule parse_val_obj)
  qed
next
  case (8 x)
  then obtain m where n: "n = Suc m" by (cases n) auto
  with 8 have "parse_val m (json_print x @ CHR '']'' # r) = Some (x, CHR '']'' # r)" by simp
  with n show ?case by (simp add: parse_elems_last del: parse_elems.simps)
next
  case (9 x y ys)
  then obtain m where n: "n = Suc m" by (cases n) auto
  let ?t = "print_elems (y # ys) @ r"
  from 9 n have "parse_val m (json_print x @ CHR '','' # ?t) = Some (x, CHR '','' # ?t)" by simp
  moreover from 9 n have "parse_elems m ?t = Some (y # ys, r)" by simp
  ultimately have "parse_elems (Suc m) (json_print x @ CHR '','' # ?t) = Some (x # y # ys, r)"
    by (rule parse_elems_more)
  with n show ?case by (simp del: parse_elems.simps)
next
  case (11 k v)
  then obtain m where n: "n = Suc m" by (cases n) auto
  with 11 have "parse_val m (json_print v @ CHR ''}'' # r) = Some (v, CHR ''}'' # r)" by simp
  with n show ?case by (simp add: parse_members_last del: parse_members.simps)
next
  case (12 k v m ms)
  then obtain i where n: "n = Suc i" by (cases n) auto
  let ?t = "print_members (m # ms) @ r"
  from 12 n have "parse_val i (json_print v @ CHR '','' # ?t) = Some (v, CHR '','' # ?t)" by simp
  moreover from 12 n have "parse_members i ?t = Some (m # ms, r)" by simp
  ultimately have "parse_members (Suc i) (json_string k @ CHR '':'' # json_print v @ CHR '','' # ?t)
      = Some ((k, v) # m # ms, r)"
    by (rule parse_members_more)
  with n show ?case by (simp del: parse_members.simps)
qed simp_all

lemma json_parse_print_trailing:
  assumes "json_wf j" and "ends_value r" and "skip_ws r = []"
  shows "json_parse (json_print j @ r) = Some j"
proof -
  have "val_fuel j \<le> Suc (length (json_print j @ r))"
    using fuel_le_length(1) [OF assms(1)] by simp
  with assms(1,2) have "parse_val (Suc (length (json_print j @ r))) (json_print j @ r) = Some (j, r)"
    by (rule parse_print(1))
  then show ?thesis using assms(3) by (simp add: json_parse_def del: parse_val.simps)
qed

lemma json_parse_print: "json_wf j \<Longrightarrow> json_parse (json_print j) = Some j"
  using json_parse_print_trailing [of j "[]"] by (simp add: skip_ws_def)

lemma json_print_inject: "json_wf j \<Longrightarrow> json_wf k \<Longrightarrow> json_print j = json_print k \<longleftrightarrow> j = k"
  by (metis json_parse_print option.inject)

section \<open>Integer literals\<close>

lemma digit_char_nonzero: "0 < d \<Longrightarrow> d < 10 \<Longrightarrow> digit_char d \<noteq> CHR ''0''"
  using digit_val_digit_char [of d] by (auto simp: digit_val_def)

lemma string_of_nat_small: "n < 10 \<Longrightarrow> string_of_nat n = [digit_char n]"
  by (subst string_of_nat.simps) simp

lemma string_of_nat_large:
  "10 \<le> n \<Longrightarrow> string_of_nat n = string_of_nat (n div 10) @ [digit_char (n mod 10)]"
  by (subst string_of_nat.simps) simp

lemma string_of_nat_hd: "0 < n \<Longrightarrow> hd (string_of_nat n) \<noteq> CHR ''0''"
proof (induction n rule: less_induct)
  case (less n)
  show ?case
  proof (cases "n < 10")
    case True
    with less.prems show ?thesis by (simp add: string_of_nat_small digit_char_nonzero)
  next
    case False
    then have "0 < n div 10" "n div 10 < n" by simp_all
    then have "hd (string_of_nat (n div 10)) \<noteq> CHR ''0''" by (rule less.IH [rotated])
    with False show ?thesis by (simp add: string_of_nat_large [of n])
  qed
qed

lemma string_of_nat_no_leading_zero:
  "\<not> (1 < length (string_of_nat n) \<and> hd (string_of_nat n) = CHR ''0'')"
  using string_of_nat_hd [of n] by (cases "n = 0") (simp_all add: string_of_nat_small)

lemma takeWhile_digits: "list_all is_digit s \<Longrightarrow> takeWhile is_digit s = s \<and> dropWhile is_digit s = []"
  by (induction s) auto

lemma lit_parse_string_of_int [simp]: "lit_parse (string_of_int n) = Some (n, 0)"
proof -
  have sign: "lit_sign (string_of_int n) = (n < 0, string_of_nat (nat \<bar>n\<bar>))"
  proof (cases "n < 0")
    case True
    then show ?thesis by (simp add: lit_sign_def string_of_int_def)
  next
    case False
    obtain c cs where "string_of_nat (nat n) = c # cs" by (cases "string_of_nat (nat n)") auto
    then show ?thesis using False string_of_nat_no_minus [of "nat n" c cs]
      by (simp add: lit_sign_def string_of_int_def)
  qed
  have tw: "takeWhile is_digit (string_of_nat m) = string_of_nat m"
    "dropWhile is_digit (string_of_nat m) = []" for m
    using takeWhile_digits [OF string_of_nat_digits] by blast+
  show ?thesis
    using string_of_nat_no_leading_zero [of "nat \<bar>n\<bar>"]
    by (simp add: lit_parse_def sign tw Let_def lit_frac_def lit_exp_def)
qed

lemma is_numchar_string_of_int [simp]: "list_all is_numchar (string_of_int n)"
proof -
  have "list_all is_numchar (string_of_nat m)" for m
    using string_of_nat_digits [of m] by (auto simp: list_all_iff is_numchar_def)
  then show ?thesis by (simp add: string_of_int_def is_numchar_def)
qed

end
