(* ===== verification/Go_Float.thy ===== *)
theory Go_Float
  imports Json_Text Complex_Main
begin

text \<open>
  Go's \<open>float64\<close> and \<open>float32\<close>: how a decimal literal is rounded to one, how \<open>encoding/json\<close> prints
  one, and the conversions from and to integers. The main result is that what is printed is read back
  as the same number.
\<close>

section \<open>Binary floating point\<close>

text \<open>
  \<open>FFin neg m e\<close> is the number \<open>m * 2 ^ e\<close> with a sign; the zeros have the smallest exponent.
\<close>

datatype f64 = FFin bool nat int | FPosInf | FNegInf | FNaN

text \<open>A format: the bits of the mantissa, and the smallest and the largest exponent.\<close>

record ffmt =
  prec :: nat
  emin :: int
  emax :: int

definition fmt64 :: ffmt where
  "fmt64 = \<lparr>prec = 53, emin = -1074, emax = 971\<rparr>"

definition fmt32 :: ffmt where
  "fmt32 = \<lparr>prec = 24, emin = -149, emax = 104\<rparr>"

definition fin_ok :: "ffmt \<Rightarrow> nat \<Rightarrow> int \<Rightarrow> bool" where
  "fin_ok F m e \<longleftrightarrow> m < 2 ^ prec F \<and> emin F \<le> e \<and> e \<le> emax F \<and> (2 ^ (prec F - 1) \<le> m \<or> e = emin F)"

definition f64_ok :: "ffmt \<Rightarrow> f64 \<Rightarrow> bool" where
  "f64_ok F f = (case f of FFin _ m e \<Rightarrow> fin_ok F m e | _ \<Rightarrow> True)"

section \<open>Rounding\<close>

fun bit_length :: "nat \<Rightarrow> nat" where
  "bit_length n = (if n = 0 then 0 else Suc (bit_length (n div 2)))"

declare bit_length.simps [simp del]

text \<open>The fraction \<open>a / b\<close> divided by \<open>2 ^ e\<close>, again as a fraction.\<close>

definition scale :: "nat \<Rightarrow> nat \<Rightarrow> int \<Rightarrow> nat \<times> nat" where
  "scale a b e = (if 0 \<le> e then (a, b * 2 ^ nat e) else (a * 2 ^ nat (- e), b))"

text \<open>The smallest admissible exponent with which \<open>a / b\<close> fits the mantissa.\<close>

definition fit_exp :: "ffmt \<Rightarrow> nat \<Rightarrow> nat \<Rightarrow> int" where
  "fit_exp F a b =
     (if a = 0 then emin F else
      let e = int (bit_length a) - int (bit_length b) - int (prec F);
          (a', b') = scale a b e in
      max (emin F) (if a' < b' * 2 ^ prec F then e else e + 1))"

text \<open>Rounding to the nearest number, ties to even; \<open>None\<close> if that is out of range.\<close>

definition round_half_even :: "nat \<Rightarrow> nat \<Rightarrow> nat" where
  "round_half_even a b =
     (let q = a div b; r = a mod b in if b < 2 * r \<or> (2 * r = b \<and> odd q) then q + 1 else q)"

definition round_to :: "ffmt \<Rightarrow> nat \<Rightarrow> nat \<Rightarrow> (nat \<times> int) option" where
  "round_to F a b =
     (let e = fit_exp F a b;
          (a', b') = scale a b e;
          m = round_half_even a' b';
          (m', e') = (if m = 2 ^ prec F then (2 ^ (prec F - 1), e + 1) else (m, e)) in
      if e' \<le> emax F then Some (m', e') else None)"

text \<open>The number a literal stands for, as \<open>strconv.ParseFloat\<close> reads it; \<open>None\<close> for an error.\<close>

definition is_neg :: "string \<Rightarrow> bool" where
  "is_neg s \<longleftrightarrow> s \<noteq> [] \<and> hd s = CHR ''-''"

definition parse_float :: "ffmt \<Rightarrow> string \<Rightarrow> f64 option" where
  "parse_float F s =
     (case lit_parse s of
        None \<Rightarrow> None
      | Some (m, e) \<Rightarrow>
          map_option (\<lambda>(m', e'). FFin (is_neg s) m' e')
            (if 0 \<le> e then round_to F (nat \<bar>m\<bar> * 10 ^ nat e) 1 else round_to F (nat \<bar>m\<bar>) (10 ^ nat (- e))))"

section \<open>What rounding gives\<close>

lemma bit_length_bounds: "0 < n \<Longrightarrow> 2 ^ (bit_length n - 1) \<le> n \<and> n < 2 ^ bit_length n \<and> 0 < bit_length n"
proof (induction n rule: bit_length.induct)
  case (1 n)
  show ?case
  proof (cases "n = 1")
    case True
    then show ?thesis by (simp add: bit_length.simps)
  next
    case False
    with 1 have IH: "2 ^ (bit_length (n div 2) - 1) \<le> n div 2" "n div 2 < 2 ^ bit_length (n div 2)" "0 < bit_length (n div 2)"
      by auto
    have bl: "bit_length n = Suc (bit_length (n div 2))" using 1 by (subst bit_length.simps) simp
    have "(2::nat) ^ bit_length (n div 2) = 2 * 2 ^ (bit_length (n div 2) - 1)" using IH(3) by (cases "bit_length (n div 2)") simp_all
    with IH have "2 ^ bit_length (n div 2) \<le> n \<and> n < 2 * 2 ^ bit_length (n div 2)" by (intro conjI) linarith+
    with bl show ?thesis by simp
  qed
qed

lemma scale_pos: "0 < b \<Longrightarrow> scale a b e = (a', b') \<Longrightarrow> 0 < b'"
  by (auto simp: scale_def split: if_splits)

lemma scale_value:
  assumes "0 < b" and "scale a b e = (a', b')"
  shows "real a' / real b' = real a / real b / 2 powi e"
  using assms by (auto simp: scale_def power_int_def field_simps split: if_splits)

lemma scale_less:
  assumes "0 < b" and "scale a b e = (a', b')"
  shows "a' < b' * 2 ^ p \<longleftrightarrow> real a / real b < 2 powi (e + int p)"
proof -
  have b': "0 < b'" using scale_pos assms by blast
  have "a' < b' * 2 ^ p \<longleftrightarrow> real a' < real b' * 2 ^ p" by (metis of_nat_less_iff of_nat_mult of_nat_numeral of_nat_power)
  also have "\<dots> \<longleftrightarrow> real a' / real b' < 2 ^ p" using b' by (simp add: field_simps)
  also have "\<dots> \<longleftrightarrow> real a / real b < 2 powi (e + int p)"
    unfolding scale_value [OF assms]
    by (subst pos_divide_less_eq) (simp_all add: power_int_add mult.commute)
  finally show ?thesis .
qed

text \<open>The chosen exponent: the number fits the mantissa, and would not with a smaller one.\<close>

lemma quotient_bounds:
  assumes "0 < a" and "0 < b"
  shows "2 powi (int (bit_length a) - int (bit_length b) - 1) \<le> real a / real b"
    and "real a / real b < 2 powi (int (bit_length a) - int (bit_length b) + 1)"
proof -
  define x y where "x = bit_length a - 1" and "y = bit_length b - 1"
  have len: "bit_length a = Suc x" "bit_length b = Suc y"
    using bit_length_bounds [OF assms(1)] bit_length_bounds [OF assms(2)] by (simp_all add: x_def y_def)
  have "2 ^ x \<le> a" "a < 2 ^ Suc x" "2 ^ y \<le> b" "b < 2 ^ Suc y"
    using bit_length_bounds [OF assms(1)] bit_length_bounds [OF assms(2)] len by simp_all
  then have le: "2 ^ x \<le> real a" "real a < 2 ^ Suc x" "2 ^ y \<le> real b" "real b < 2 ^ Suc y"
    by (metis of_nat_le_iff of_nat_less_iff of_nat_numeral of_nat_power)+
  have "2 ^ x * real b \<le> real a * 2 ^ Suc y" using le assms by (intro mult_mono) simp_all
  then have "(2 ^ x / 2 ^ Suc y :: real) \<le> real a / real b" using assms by (simp add: field_simps)
  moreover have "(2 ^ x / 2 ^ Suc y :: real) = 2 powi (int x - int y - 1)"
    by (simp add: power_int_diff)
  ultimately show "2 powi (int (bit_length a) - int (bit_length b) - 1) \<le> real a / real b" using len by simp
  have "real a * 2 ^ y < 2 ^ Suc x * real b" using le assms by (intro mult_less_le_imp_less) simp_all
  then have "real a / real b < 2 ^ Suc x / 2 ^ y" using assms by (simp add: field_simps)
  moreover have "(2 ^ Suc x / 2 ^ y :: real) = 2 powi (int x - int y + 1)"
    by (simp add: power_int_diff power_int_add)
  ultimately show "real a / real b < 2 powi (int (bit_length a) - int (bit_length b) + 1)" using len by simp
qed

lemma powi_mono: "i \<le> j \<Longrightarrow> (2::real) powi i \<le> 2 powi j"
  by (simp add: power_int_increasing)

lemma powi_less_iff: "(2::real) powi i < 2 powi j \<longleftrightarrow> i < j"
  by (meson linorder_not_less one_less_numeral_iff powi_mono power_int_strict_increasing semiring_norm(76))

lemma powi_le_iff: "(2::real) powi i \<le> 2 powi j \<longleftrightarrow> i \<le> j"
  by (simp add: powi_less_iff flip: not_less)

lemma fit_exp_fits:
  assumes "0 < a" and "0 < b"
  shows "real a / real b < 2 powi (fit_exp F a b + int (prec F))"
proof -
  define e where "e = int (bit_length a) - int (bit_length b) - int (prec F)"
  obtain a' b' where sc: "scale a b e = (a', b')" by fastforce
  define e1 where "e1 = (if a' < b' * 2 ^ prec F then e else e + 1)"
  have fit: "fit_exp F a b = max (emin F) e1" using assms by (simp add: fit_exp_def Let_def e_def [symmetric] sc e1_def)
  have "real a / real b < 2 powi (e1 + int (prec F))"
    using scale_less [OF assms(2) sc, of "prec F"] quotient_bounds(2) [OF assms]
    by (simp add: e1_def e_def algebra_simps)
  also have "\<dots> \<le> 2 powi (fit_exp F a b + int (prec F))" by (rule powi_mono) (simp add: fit)
  finally show ?thesis .
qed

lemma fit_exp_least:
  assumes "0 < a" and "0 < b"
  shows "fit_exp F a b = emin F \<or> 2 powi (fit_exp F a b + int (prec F) - 1) \<le> real a / real b"
proof -
  define e where "e = int (bit_length a) - int (bit_length b) - int (prec F)"
  obtain a' b' where sc: "scale a b e = (a', b')" by fastforce
  define e1 where "e1 = (if a' < b' * 2 ^ prec F then e else e + 1)"
  have fit: "fit_exp F a b = max (emin F) e1" using assms by (simp add: fit_exp_def Let_def e_def [symmetric] sc e1_def)
  have "2 powi (e1 + int (prec F) - 1) \<le> real a / real b"
    using scale_less [OF assms(2) sc, of "prec F"] quotient_bounds(1) [OF assms]
    by (simp add: e1_def e_def algebra_simps)
  then show ?thesis by (simp add: fit max_def)
qed

lemma fit_exp_exact:
  assumes "fin_ok F m e" and "0 < m" and "0 < a" and "0 < b" and val: "real a / real b = real m * 2 powi e"
    and "0 < prec F"
  shows "fit_exp F a b = e"
proof -
  let ?E = "fit_exp F a b" and ?p = "int (prec F)"
  have "real m < 2 ^ prec F" using assms(1) by (metis fin_ok_def of_nat_less_iff of_nat_numeral of_nat_power)
  then have up: "real a / real b < 2 powi (e + ?p)" by (simp add: val power_int_add mult.commute)
  have "?E \<le> e"
  proof (rule ccontr)
    assume less: "\<not> ?E \<le> e"
    then have "?E \<noteq> emin F" using assms(1) by (auto simp: fin_ok_def)
    with fit_exp_least [OF assms(3,4), of F] have "2 powi (?E + ?p - 1) \<le> real a / real b" by simp
    with up have "(2::real) powi (?E + ?p - 1) < 2 powi (e + ?p)" by linarith
    with less show False by (simp add: powi_less_iff)
  qed
  moreover have "e \<le> ?E"
  proof (rule ccontr)
    assume less: "\<not> e \<le> ?E"
    have "emin F \<le> ?E" by (simp add: fit_exp_def Let_def split: prod.split)
    with less assms(1) have "2 ^ (prec F - 1) \<le> m" by (auto simp: fin_ok_def)
    then have "2 ^ (prec F - 1) \<le> real m" by (metis of_nat_le_iff of_nat_numeral of_nat_power)
    moreover have "(2::real) ^ (prec F - 1) = 2 powi (?p - 1)"
      using assms(6) by (simp add: power_int_def nat_diff_distrib)
    ultimately have "2 powi (?p - 1) \<le> real m" by (simp only:)
    then have "2 powi (?p - 1 + e) \<le> real a / real b"
      by (simp add: val power_int_add [of _ "?p - 1"])
    with fit_exp_fits [OF assms(3,4), of F] have "(2::real) powi (?p - 1 + e) < 2 powi (?E + ?p)" by linarith
    with less show False by (simp add: powi_less_iff)
  qed
  ultimately show ?thesis by simp
qed

lemma round_half_even_exact: "0 < b \<Longrightarrow> round_half_even (m * b) b = m"
  by (simp add: round_half_even_def)

text \<open>A number of the format is rounded to itself.\<close>

lemma round_to_exact:
  assumes "fin_ok F m e" and "0 < m" and "0 < b" and val: "real a / real b = real m * 2 powi e"
    and "0 < prec F"
  shows "round_to F a b = Some (m, e)"
proof -
  have a: "0 < a" using assms by (cases a) simp_all
  obtain a' b' where sc: "scale a b e = (a', b')" by fastforce
  have b': "0 < b'" by (rule scale_pos [OF assms(3) sc])
  have "real a' / real b' = real m" using scale_value [OF assms(3) sc] by (simp add: val)
  then have "real a' = real (m * b')" using b' by (simp add: field_simps)
  then have "a' = m * b'" by (simp only: of_nat_eq_iff)
  then show ?thesis
    using assms(1) b' by (simp add: round_to_def Let_def fit_exp_exact [OF assms(1,2) a assms(3-5)] sc
      round_half_even_exact fin_ok_def)
qed

lemma round_to_zero: "0 < b \<Longrightarrow> emin F \<le> emax F \<Longrightarrow> round_to F 0 b = Some (0, emin F)"
  by (simp add: round_to_def Let_def fit_exp_def scale_def round_half_even_def)

text \<open>What rounding gives is a number of the format.\<close>

lemma round_half_even_le: "0 < b \<Longrightarrow> a < b * n \<Longrightarrow> round_half_even a b \<le> n"
  by (simp add: round_half_even_def Let_def Suc_le_eq less_mult_imp_div_less mult.commute less_imp_le)

lemma round_half_even_ge: "0 < b \<Longrightarrow> b * n \<le> a \<Longrightarrow> n \<le> round_half_even a b"
  by (simp add: round_half_even_def Let_def le_SucI less_eq_div_iff_mult_less_eq mult.commute)

lemma round_to_ok:
  assumes "0 < b" and "0 < prec F" and some: "round_to F a b = Some (m, e)"
  shows "fin_ok F m e"
proof (cases "a = 0")
  case True
  then show ?thesis
    using some assms(1) by (auto simp: round_to_def Let_def fit_exp_def scale_def round_half_even_def fin_ok_def split: if_splits)
next
  case False
  let ?E = "fit_exp F a b"
  obtain a' b' where sc: "scale a b ?E = (a', b')" by fastforce
  have a: "0 < a" and b': "0 < b'" using False scale_pos [OF assms(1) sc] by simp_all
  let ?m = "round_half_even a' b'"
  have "a' < b' * 2 ^ prec F"
    using fit_exp_fits [OF a assms(1), of F] scale_less [OF assms(1) sc, of "prec F"] by simp
  then have le: "?m \<le> 2 ^ prec F" using b' by (rule round_half_even_le [rotated])
  have "?E = emin F \<or> b' * 2 ^ (prec F - 1) \<le> a'"
    using fit_exp_least [OF a assms(1), of F] scale_less [OF assms(1) sc, of "prec F - 1"] assms(2)
    by (auto simp: of_nat_diff algebra_simps not_less [symmetric])
  then have ge: "?E = emin F \<or> 2 ^ (prec F - 1) \<le> ?m" using b' round_half_even_ge by blast
  have "emin F \<le> ?E" by (simp add: fit_exp_def Let_def split: prod.split)
  with some le ge assms(2) show ?thesis
    by (auto simp: round_to_def Let_def sc fin_ok_def split: if_splits)
qed

section \<open>Printing\<close>

text \<open>The power of ten of the first digit of \<open>a / b\<close>.\<close>

definition dec_exp :: "nat \<Rightarrow> nat \<Rightarrow> int" where
  "dec_exp a b =
     (if b \<le> a then int (length (string_of_nat (a div b))) - 1
      else - int (length (string_of_nat ((b + a - 1) div a - 1))))"

text \<open>
  Layout as \<open>encoding/json\<close> has it, of the digits \<open>ds\<close> of \<open>0.ds * 10 ^ dp\<close>: plain notation from
  \<open>1e-6\<close> up to \<open>1e21\<close>, and the exponent otherwise, with a sign and without leading zeros.
\<close>

definition plain_text :: "string \<Rightarrow> int \<Rightarrow> string" where
  "plain_text ds dp =
     (if 0 < dp then take (nat dp) (ds @ replicate (nat dp - length ds) (CHR ''0'')) else ''0'') @
     (let frac = replicate (nat (- dp)) (CHR ''0'') @ drop (nat dp) ds in
      if drop (nat dp) ds = [] then [] else CHR ''.'' # frac)"

definition exp_text :: "string \<Rightarrow> int \<Rightarrow> string" where
  "exp_text ds dp =
     take 1 ds @ (if tl ds = [] then [] else CHR ''.'' # tl ds) @
     [CHR ''e'', if dp - 1 < 0 then CHR ''-'' else CHR ''+''] @ string_of_nat (nat \<bar>dp - 1\<bar>)"

definition json_layout :: "bool \<Rightarrow> string \<Rightarrow> int \<Rightarrow> string" where
  "json_layout neg ds dp =
     (if neg then ''-'' else []) @ (if -6 < dp \<and> dp \<le> 21 then plain_text ds dp else exp_text ds dp)"

definition strip_zeros :: "string \<Rightarrow> string" where
  "strip_zeros ds = rev (dropWhile (\<lambda>c. c = CHR ''0'') (rev ds))"

definition layout_nat :: "bool \<Rightarrow> nat \<Rightarrow> int \<Rightarrow> string" where
  "layout_nat neg d x = json_layout neg (strip_zeros (string_of_nat d)) (int (length (string_of_nat d)) + x)"

text \<open>
  With \<open>n\<close> digits: of the decimals below and above the number those that are read back as it, and
  of two the nearer one.
\<close>

definition with_digits :: "ffmt \<Rightarrow> f64 \<Rightarrow> bool \<Rightarrow> nat \<Rightarrow> nat \<Rightarrow> nat \<Rightarrow> string option" where
  "with_digits F f neg a b n =
     (let x = dec_exp a b - int n + 1;
          (a', b') = (if 0 \<le> x then (a, b * 10 ^ nat x) else (a * 10 ^ nat (- x), b));
          down = layout_nat neg (a' div b') x;
          up = layout_nat neg (a' div b' + 1) x;
          good = (\<lambda>t. list_all is_numchar t \<and> parse_float F t = Some f) in
      if good down \<and> good up then Some (layout_nat neg (round_half_even a' b') x)
      else if good down then Some down
      else if good up then Some up
      else None)"

text \<open>
  The shortest text that is read back as the number. Seventeen digits suffice for \<open>float64\<close>; the
  exact expansion stands behind them, so that the function is total without that fact.
\<close>

definition as_ratio :: "nat \<Rightarrow> int \<Rightarrow> nat \<times> nat" where
  "as_ratio m e = (if 0 \<le> e then (m * 2 ^ nat e, 1) else (m, 2 ^ nat (- e)))"

definition exact_text :: "bool \<Rightarrow> nat \<Rightarrow> int \<Rightarrow> string" where
  "exact_text neg m e =
     (if neg then ''-'' else []) @
     (if 0 \<le> e then string_of_nat (m * 2 ^ nat e)
      else string_of_nat (m * 5 ^ nat (- e)) @ ''e-'' @ string_of_nat (nat (- e)))"

fun first_text :: "(nat \<Rightarrow> string option) \<Rightarrow> nat list \<Rightarrow> string option" where
  "first_text f [] = None"
| "first_text f (n # ns) = (case f n of None \<Rightarrow> first_text f ns | Some t \<Rightarrow> Some t)"

definition float_text :: "ffmt \<Rightarrow> f64 \<Rightarrow> string option" where
  "float_text F f =
     (case f of
        FFin neg m e \<Rightarrow>
          (if m = 0 then Some (if neg then ''-0'' else ''0'')
           else
             let (a, b) = as_ratio m e in
             case first_text (with_digits F f neg a b) [1..<18] of
               Some t \<Rightarrow> if list_all is_numchar t \<and> parse_float F t = Some f then Some t else Some (exact_text neg m e)
             | None \<Rightarrow> Some (exact_text neg m e))
      | _ \<Rightarrow> None)"

section \<open>What is printed is read back\<close>

lemma lit_sign_digits: "list_all is_digit (d # ds) \<Longrightarrow> lit_sign ((if neg then ''-'' else []) @ (d # ds) @ r) = (neg, (d # ds) @ r)"
  by (auto simp: lit_sign_def is_digit_def)

lemma is_neg_digits: "list_all is_digit (d # ds) \<Longrightarrow> is_neg ((if neg then ''-'' else []) @ (d # ds) @ r) = neg"
  by (auto simp: is_neg_def is_digit_def)

lemma digits_split:
  assumes "list_all is_digit ds" and "r = [] \<or> \<not> is_digit (hd r)"
  shows "takeWhile is_digit (ds @ r) = ds \<and> dropWhile is_digit (ds @ r) = r"
  using assms by (induction ds) (cases r, auto)+

lemma string_of_nat_Cons: obtains d ds where "string_of_nat n = d # ds"
  by (cases "string_of_nat n") auto

lemma lit_parse_exp:
  assumes "r = [] \<and> x = 0 \<or> r = ''e-'' @ string_of_nat k \<and> x = - int k"
  shows "lit_parse ((if neg then ''-'' else []) @ string_of_nat n @ r) = Some (if neg then - int n else int n, x)"
    and "is_neg ((if neg then ''-'' else []) @ string_of_nat n @ r) = neg"
proof -
  obtain d ds where n: "string_of_nat n = d # ds" by (rule string_of_nat_Cons)
  have dig: "list_all is_digit (d # ds)" using string_of_nat_digits [of n] n by simp
  show "is_neg ((if neg then ''-'' else []) @ string_of_nat n @ r) = neg"
    unfolding n by (rule is_neg_digits [OF dig])
  have "r = [] \<or> \<not> is_digit (hd r)" using assms by (auto simp: is_digit_def)
  then have split: "takeWhile is_digit ((d # ds) @ r) = d # ds" "dropWhile is_digit ((d # ds) @ r) = r"
    using digits_split [OF dig] by blast+
  have rest: "lit_frac r = Some ([], r)" "lit_exp r = Some x"
    using assms by (auto simp: lit_frac_def lit_exp_def lit_exp_digits_def)
  have zero: "(d # ds = [] \<or> 1 < length (d # ds) \<and> hd (d # ds) = CHR ''0'') = False" "nat_of_digits (d # ds) = n"
    using string_of_nat_no_leading_zero [of n] nat_of_digits_string_of_nat [of n] by (simp_all only: n list.distinct simp_thms)
  show "lit_parse ((if neg then ''-'' else []) @ string_of_nat n @ r) = Some (if neg then - int n else int n, x)"
    unfolding lit_parse_def n lit_sign_digits [OF dig] using rest zero
    by (simp only: prod.case split Let_def append_Nil2 option.case if_False) simp
qed

text \<open>What a text with the exponent \<open>x\<close> is read as.\<close>

lemma parse_float_exp:
  assumes "r = [] \<and> x = 0 \<or> r = ''e-'' @ string_of_nat k \<and> x = - int k"
  shows "parse_float F ((if neg then ''-'' else []) @ string_of_nat n @ r) =
     map_option (\<lambda>(m, e). FFin neg m e) (if 0 \<le> x then round_to F (n * 10 ^ nat x) 1 else round_to F n (10 ^ nat (- x)))"
  unfolding parse_float_def lit_parse_exp(1) [OF assms] lit_parse_exp(2) [OF assms] by (cases neg) simp_all

lemma parse_exact_text:
  assumes "fin_ok F m e" and "0 < m" and "0 < prec F"
  shows "parse_float F (exact_text neg m e) = Some (FFin neg m e)"
proof (cases "0 \<le> e")
  case True
  have "real (m * 2 ^ nat e) / real 1 = real m * 2 powi e" using True by (simp add: power_int_def)
  then have "round_to F (m * 2 ^ nat e) 1 = Some (m, e)" using assms by (intro round_to_exact) simp_all
  with True show ?thesis using parse_float_exp [of "[]" 0 0 F neg "m * 2 ^ nat e"] by (simp add: exact_text_def)
next
  case False
  let ?k = "nat (- e)"
  have "(10::real) ^ ?k = 5 ^ ?k * 2 ^ ?k" by (simp flip: power_mult_distrib)
  then have "real (m * 5 ^ ?k) / real (10 ^ ?k) = real m * 2 powi e"
    using False by (simp add: power_int_def field_simps)
  then have "round_to F (m * 5 ^ ?k) (10 ^ ?k) = Some (m, e)" using assms by (intro round_to_exact) simp_all
  with False show ?thesis
    using parse_float_exp [of "''e-'' @ string_of_nat ?k" e ?k F neg "m * 5 ^ ?k"] by (simp add: exact_text_def)
qed

lemma numchar_string_of_nat: "list_all is_numchar (string_of_nat n)"
  using string_of_nat_digits [of n] by (auto simp: list_all_iff is_numchar_def)

lemma numchar_exact_text: "list_all is_numchar (exact_text neg m e)"
  by (simp add: exact_text_def numchar_string_of_nat) (simp add: is_numchar_def)

lemma float_text_parse:
  assumes "fin_ok F m e" and "0 < prec F"
  shows "\<exists>t. float_text F (FFin neg m e) = Some t \<and> list_all is_numchar t \<and> parse_float F t = Some (FFin neg m e)"
proof (cases "m = 0")
  case True
  with assms have e: "e = emin F" "emin F \<le> emax F" by (auto simp: fin_ok_def)
  have "parse_float F (if neg then ''-0'' else ''0'') = Some (FFin neg 0 (emin F))"
    using parse_float_exp [of "[]" 0 0 F neg 0] e by (cases neg) (simp_all add: string_of_nat_small digit_char_def round_to_zero)
  moreover have "list_all is_numchar (if neg then ''-0'' else ''0'')" by (simp add: is_numchar_def is_digit_def)
  ultimately show ?thesis using True e by (auto simp: float_text_def)
next
  case False
  then show ?thesis
    using parse_exact_text [OF assms(1) _ assms(2), of neg] numchar_exact_text [of neg m e]
    by (auto simp: float_text_def split: prod.split option.split)
qed

lemma parse_float_ok:
  assumes "parse_float F s = Some f" and "0 < prec F"
  shows "\<exists>neg m e. f = FFin neg m e \<and> fin_ok F m e"
  using assms(1) round_to_ok [OF _ assms(2), of 1] round_to_ok [OF _ assms(2), of "10 ^ n" for n]
  by (auto simp: parse_float_def split: option.splits if_splits)

lemma parse_float_lit: "parse_float F s = Some f \<Longrightarrow> lit_parse s \<noteq> None"
  by (cases "lit_parse s") (simp_all add: parse_float_def)

section \<open>The two formats\<close>

lemma fmt_prec [simp]: "0 < prec fmt64" "0 < prec fmt32"
  by (simp_all add: fmt64_def fmt32_def)

text \<open>Every \<open>float32\<close> is in the range of \<open>float64\<close>.\<close>

lemma round_to_32_64:
  assumes "0 < b" and "round_to fmt32 a b \<noteq> None"
  shows "round_to fmt64 a b \<noteq> None"
proof (cases "a = 0")
  case True
  with assms(1) show ?thesis by (simp add: round_to_zero fmt64_def)
next
  case False
  have "fit_exp fmt32 a b \<le> 104" using assms(2) by (auto simp: round_to_def Let_def fmt32_def split: prod.splits if_splits)
  then have "(2::real) powi (fit_exp fmt32 a b + 24) \<le> 2 powi 128" by (intro powi_mono) simp
  moreover have "prec fmt32 = 24" "prec fmt64 = 53" "emin fmt64 = -1074" by (simp_all add: fmt32_def fmt64_def)
  ultimately have "real a / real b < 2 powi 128"
    and "fit_exp fmt64 a b = -1074 \<or> 2 powi (fit_exp fmt64 a b + 52) \<le> real a / real b"
    using fit_exp_fits [of a b fmt32] fit_exp_least [of a b fmt64] False assms(1) by (simp_all add: algebra_simps)
  then have "fit_exp fmt64 a b = -1074 \<or> (2::real) powi (fit_exp fmt64 a b + 52) < 2 powi 128" by (meson le_less_trans)
  then have "fit_exp fmt64 a b \<le> 100" unfolding powi_less_iff by auto
  then show ?thesis by (auto simp: round_to_def Let_def fmt64_def split: prod.splits)
qed

lemma parse_float_32_64: "parse_float fmt32 s \<noteq> None \<Longrightarrow> parse_float fmt64 s \<noteq> None"
  using round_to_32_64 by (auto simp: parse_float_def split: option.splits if_splits)

section \<open>Conversions\<close>

definition f64_of_ratio :: "bool \<Rightarrow> nat \<Rightarrow> nat \<Rightarrow> f64" where
  "f64_of_ratio neg a b =
     (case round_to fmt64 a b of
        Some (m, e) \<Rightarrow> FFin neg m e
      | None \<Rightarrow> if neg then FNegInf else FPosInf)"

definition f64_of_int :: "int \<Rightarrow> f64" where
  "f64_of_int n = f64_of_ratio (n < 0) (nat \<bar>n\<bar>) 1"

text \<open>A \<open>float32\<close> as a \<open>float64\<close>, with the same value.\<close>

definition widen :: "f64 \<Rightarrow> f64" where
  "widen f = (case f of FFin neg m e \<Rightarrow> f64_of_ratio neg (fst (as_ratio m e)) (snd (as_ratio m e)) | _ \<Rightarrow> f)"

text \<open>The integer part (towards zero), and whether there is nothing else.\<close>

definition fin_trunc :: "bool \<Rightarrow> nat \<Rightarrow> int \<Rightarrow> int" where
  "fin_trunc neg m e = (if neg then -1 else 1) * int (fst (as_ratio m e) div snd (as_ratio m e))"

text \<open>
  Converting a float outside the range of the integer type is implementation-defined in Go: \<open>cvt\<close>
  is what the platform returns there.
\<close>

definition f64_int64 :: "(f64 \<Rightarrow> int) \<Rightarrow> f64 \<Rightarrow> int" where
  "f64_int64 cvt f =
     (case f of FFin neg m e \<Rightarrow> if in_i64 (fin_trunc neg m e) then fin_trunc neg m e else cvt f | _ \<Rightarrow> cvt f)"

text \<open>\<open>f == math.Trunc(f)\<close>: infinities are their own integer part, NaN equals nothing.\<close>

definition f64_integral :: "f64 \<Rightarrow> bool" where
  "f64_integral f =
     (case f of
        FFin _ m e \<Rightarrow> fst (as_ratio m e) mod snd (as_ratio m e) = 0
      | FPosInf \<Rightarrow> True
      | FNegInf \<Rightarrow> True
      | FNaN \<Rightarrow> False)"

text \<open>Integers of at most 53 bits are exact; the larger ones stay larger.\<close>

lemma round_small:
  assumes "a < 2 ^ 53"
  shows "\<exists>k. round_to fmt64 a 1 = Some (a * 2 ^ k, - int k)"
proof (cases "a = 0")
  case True
  have "round_to fmt64 0 1 = Some (0, - int 1074)" by (subst round_to_zero) (simp_all add: fmt64_def)
  with True show ?thesis by auto
next
  case False
  let ?E = "fit_exp fmt64 a 1"
  have F: "prec fmt64 = 53" "emin fmt64 = -1074" "emax fmt64 = 971" by (simp_all add: fmt64_def)
  have "real a < 2 powi 53" using assms by simp
  then have "?E = -1074 \<or> (2::real) powi (?E + 52) < 2 powi 53"
    using fit_exp_least [of a 1 fmt64] False unfolding F by (auto simp: algebra_simps)
  then have "?E \<le> 0" unfolding powi_less_iff by auto
  then obtain k where E: "?E = - int k" by (metis nonpos_int_cases)
  have "real a < 2 powi (- int k + 53)" using fit_exp_fits [of a 1 fmt64] False E F by simp
  then have "a * 2 ^ k < 2 ^ 53" using scale_less [of 1 a "- int k" _ _ 53] by (cases "k = 0") (auto simp: scale_def)
  then show ?thesis
    using E F round_half_even_exact [of 1 "a * 2 ^ k"]
    by (cases "k = 0") (auto simp: round_to_def Let_def scale_def)
qed

lemma round_large:
  assumes "2 ^ 53 < a" and "a \<le> 2 ^ 64"
  shows "\<exists>m k. round_to fmt64 a 1 = Some (m, int k) \<and> 2 ^ 53 \<le> m * 2 ^ k"
proof -
  let ?E = "fit_exp fmt64 a 1"
  have F: "prec fmt64 = 53" "emin fmt64 = -1074" "emax fmt64 = 971" by (simp_all add: fmt64_def)
  have pos: "0 < a" using assms by simp
  have "(2::real) powi 53 < real a" "real a \<le> 2 powi 64" using assms by simp_all
  with fit_exp_fits [OF pos, of 1 fmt64] fit_exp_least [OF pos, of 1 fmt64]
  have "(2::real) powi 53 < 2 powi (?E + 53)" "?E = -1074 \<or> (2::real) powi (?E + 52) \<le> 2 powi 64"
    unfolding F by (auto simp: algebra_simps)
  then have E: "0 < ?E" "?E \<le> 12" unfolding powi_less_iff powi_le_iff by auto
  then have "round_to fmt64 a 1 \<noteq> None" by (auto simp: round_to_def Let_def F split: prod.splits)
  then obtain r where r: "round_to fmt64 a 1 = Some r" by blast
  obtain m e where me: "r = (m, e)" by (cases r)
  have "?E \<le> e" using r E by (auto simp: me round_to_def Let_def F split: prod.splits if_splits)
  with E obtain k where k: "e = int k" "0 < k" by (metis less_le_trans zero_less_imp_eq_int)
  have "fin_ok fmt64 m e" using round_to_ok [of 1 fmt64 a m e] r me by simp
  with k have "2 ^ 52 \<le> m" by (simp add: fin_ok_def F)
  moreover have "(2::nat) ^ 1 \<le> 2 ^ k" using k by (intro power_increasing) simp_all
  ultimately have "2 ^ 52 * 2 ^ 1 \<le> m * 2 ^ k" by (intro mult_le_mono)
  with r me k show ?thesis by auto
qed

lemma round_2_53: "round_to fmt64 (2 ^ 53) 1 = Some (2 ^ 52, 1)"
  by (rule round_to_exact) (simp_all add: fin_ok_def fmt64_def)

lemma f64_of_int_small:
  assumes "\<bar>n\<bar> \<le> 2 ^ 53"
  shows "\<exists>m e. f64_of_int n = FFin (n < 0) m e \<and> fin_trunc (n < 0) m e = n \<and> f64_integral (f64_of_int n)"
proof (cases "\<bar>n\<bar> = 2 ^ 53")
  case True
  then have "nat \<bar>n\<bar> = 2 ^ 53" by simp
  then have "f64_of_int n = FFin (n < 0) (2 ^ 52) 1"
    unfolding f64_of_int_def f64_of_ratio_def by (simp only: round_2_53 option.case prod.case)
  then show ?thesis using True by (auto simp: fin_trunc_def as_ratio_def f64_integral_def)
next
  case False
  with assms have "nat \<bar>n\<bar> < 2 ^ 53" by simp
  from round_small [OF this] obtain k where "round_to fmt64 (nat \<bar>n\<bar>) 1 = Some (nat \<bar>n\<bar> * 2 ^ k, - int k)" by blast
  then have "f64_of_int n = FFin (n < 0) (nat \<bar>n\<bar> * 2 ^ k) (- int k)" by (simp add: f64_of_int_def f64_of_ratio_def)
  then show ?thesis by (cases "k = 0") (auto simp: fin_trunc_def as_ratio_def f64_integral_def)
qed

lemma f64_of_int_large:
  assumes "2 ^ 53 < \<bar>n\<bar>" and "\<bar>n\<bar> \<le> 2 ^ 64"
  shows "\<exists>m e. f64_of_int n = FFin (n < 0) m e \<and> 2 ^ 53 \<le> \<bar>fin_trunc (n < 0) m e\<bar> \<and> f64_integral (f64_of_int n)"
proof -
  have "2 ^ 53 < nat \<bar>n\<bar>" "nat \<bar>n\<bar> \<le> 2 ^ 64" using assms by simp_all
  from round_large [OF this] obtain m k where mk: "round_to fmt64 (nat \<bar>n\<bar>) 1 = Some (m, int k)" "2 ^ 53 \<le> m * 2 ^ k" by blast
  have "int (2 ^ 53) \<le> int (m * 2 ^ k)" using mk(2) by (simp only: of_nat_le_iff)
  with mk(1) show ?thesis
    by (auto simp: f64_of_int_def f64_of_ratio_def fin_trunc_def as_ratio_def f64_integral_def abs_mult)
qed

lemma f64_of_int_fin:
  assumes "\<bar>n\<bar> \<le> 2 ^ 64"
  shows "\<exists>m e. f64_of_int n = FFin (n < 0) m e \<and> round_to fmt64 (nat \<bar>n\<bar>) 1 = Some (m, e)"
proof -
  have "\<exists>m e. f64_of_int n = FFin (n < 0) m e"
    using f64_of_int_small [of n] f64_of_int_large [of n] assms by (cases "\<bar>n\<bar> \<le> 2 ^ 53") auto
  then show ?thesis
    by (cases "round_to fmt64 (nat \<bar>n\<bar>) 1") (auto simp: f64_of_int_def f64_of_ratio_def split: if_splits)
qed

lemma f64_of_int_ok: "\<bar>n\<bar> \<le> 2 ^ 64 \<Longrightarrow> \<exists>m e. f64_of_int n = FFin (n < 0) m e \<and> fin_ok fmt64 m e"
  using f64_of_int_fin [of n] round_to_ok [of 1 fmt64 "nat \<bar>n\<bar>"] by auto

lemma is_neg_string_of_int: "is_neg (string_of_int n) \<longleftrightarrow> n < 0"
  using string_of_nat_no_minus [of "nat n"] by (cases "string_of_nat (nat n)") (auto simp: is_neg_def string_of_int_def)

lemma parse_string_of_int: "\<bar>n\<bar> \<le> 2 ^ 64 \<Longrightarrow> parse_float fmt64 (string_of_int n) = Some (f64_of_int n)"
  using f64_of_int_fin [of n] by (auto simp: parse_float_def is_neg_string_of_int)

text \<open>What \<open>int64\<close> the number of an integer converts to.\<close>

lemma f64_int64_of_int:
  assumes "\<bar>n\<bar> \<le> 2 ^ 53"
  shows "f64_int64 cvt (f64_of_int n) = n" and "f64_integral (f64_of_int n)"
  using f64_of_int_small [OF assms] assms by (auto simp: f64_int64_def in_i64_def)

lemma f64_int64_of_large:
  assumes "2 ^ 53 < \<bar>n\<bar>" and "\<bar>n\<bar> \<le> 2 ^ 64" and "\<And>f. 2 ^ 53 \<le> \<bar>cvt f\<bar>"
  shows "2 ^ 53 \<le> \<bar>f64_int64 cvt (f64_of_int n)\<bar>"
  using f64_of_int_large [OF assms(1,2)] assms(3) by (auto simp: f64_int64_def)

end
