(* ===== verification/Go_Value.thy ===== *)
theory Go_Value
  imports Go_Float
begin

text \<open>
  Go values of type \<open>any\<close> as they occur in job arguments, Go maps with string keys, and the part
  of \<open>encoding/json\<close> that turns such values into documents and back. A value that has gone
  through JSON once is in normal form: every number is a \<open>float64\<close>.
\<close>

section \<open>Maps with string keys\<close>

text \<open>
  A Go map is an association list in strictly ascending key order, so that equal maps are equal
  lists. Iteration order is never taken from this representation.
\<close>

type_synonym 'a go_map = "(string \<times> 'a) list"

definition go_map_wf :: "'a go_map \<Rightarrow> bool" where
  "go_map_wf m \<longleftrightarrow> sorted_wrt (<) (map fst m)"

lemma go_map_wf_Nil [simp]: "go_map_wf []"
  by (simp add: go_map_wf_def)

fun map_put :: "string \<Rightarrow> 'a \<Rightarrow> 'a go_map \<Rightarrow> 'a go_map" where
  "map_put k v [] = [(k, v)]"
| "map_put k v ((k', v') # m) =
     (if k < k' then (k, v) # (k', v') # m
      else if k = k' then (k, v) # m
      else (k', v') # map_put k v m)"

definition go_map_of :: "(string \<times> 'a) list \<Rightarrow> 'a go_map" where
  "go_map_of kvs = foldl (\<lambda>m (k, v). map_put k v m) [] kvs"

lemma map_of_map_put: "map_of (map_put k v m) = (map_of m)(k \<mapsto> v)"
  by (induction k v m rule: map_put.induct) (auto simp: fun_eq_iff)

lemma set_keys_map_put: "fst ` set (map_put k v m) = insert k (fst ` set m)"
  by (induction k v m rule: map_put.induct) auto

lemma map_put_wf: "go_map_wf m \<Longrightarrow> go_map_wf (map_put k v m)"
proof (induction m)
  case Nil
  then show ?case by (simp add: go_map_wf_def)
next
  case (Cons p m)
  obtain k' v' where p: "p = (k', v')" by (cases p)
  have IH: "go_map_wf (map_put k v m)" using Cons by (simp add: go_map_wf_def)
  have keys: "\<forall>y\<in>fst ` set m. k' < y" using Cons.prems by (auto simp: go_map_wf_def p)
  show ?case
  proof (cases "k < k'")
    case True
    with Cons.prems keys show ?thesis by (auto simp: go_map_wf_def p intro: less_trans)
  next
    case False
    show ?thesis
    proof (cases "k = k'")
      case True
      with Cons.prems show ?thesis by (auto simp: go_map_wf_def p)
    next
      case neq: False
      with False have "k' < k" by simp
      then have "\<forall>y\<in>fst ` set (map_put k v m). k' < y" using keys by (simp add: set_keys_map_put)
      with IH False neq show ?thesis by (auto simp: go_map_wf_def p)
    qed
  qed
qed

lemma map_put_last: "\<forall>y\<in>fst ` set m. y < k \<Longrightarrow> map_put k v m = m @ [(k, v)]"
proof (induction m)
  case (Cons p m)
  obtain k' v' where p: "p = (k', v')" by (cases p)
  then have "k' < k" using Cons.prems by simp
  then have "\<not> k < k'" "k \<noteq> k'" by (auto dest: less_not_sym)
  with Cons p show ?case by simp
qed simp

lemma go_map_of_wf: "go_map_wf (go_map_of kvs)"
proof -
  have "go_map_wf m \<Longrightarrow> go_map_wf (foldl (\<lambda>m (k, v). map_put k v m) m kvs)" for m
    by (induction kvs arbitrary: m) (auto simp: map_put_wf)
  moreover have "go_map_wf ([] :: 'a go_map)" by (simp add: go_map_wf_def)
  ultimately show ?thesis unfolding go_map_of_def by blast
qed

lemma go_map_of_sorted: "go_map_wf m \<Longrightarrow> go_map_of m = m"
proof (induction m rule: rev_induct)
  case Nil
  then show ?case by (simp add: go_map_of_def)
next
  case (snoc p m)
  obtain k v where p: "p = (k, v)" by (cases p)
  have "go_map_wf m" "\<forall>y\<in>fst ` set m. y < k"
    using snoc.prems by (auto simp: go_map_wf_def sorted_wrt_append p)
  with snoc.IH show ?case by (simp add: go_map_of_def p map_put_last)
qed

lemma go_map_wf_distinct: "go_map_wf m \<Longrightarrow> distinct (map fst m)"
  by (simp add: go_map_wf_def strict_sorted_iff)

lemma go_map_sort_id: "go_map_wf m \<Longrightarrow> sort_key fst m = m"
  by (rule sort_key_id_if_sorted) (simp add: go_map_wf_def strict_sorted_iff)

section \<open>Values of type \<open>any\<close>\<close>

text \<open>
  \<open>GOther\<close> stands for values that \<open>encoding/json\<close> cannot represent, such as channels and functions.
\<close>

datatype int_kind = KInt | KInt8 | KInt16 | KInt32 | KInt64
datatype uint_kind = KUint | KUint8 | KUint16 | KUint32 | KUint64
datatype float_kind = KFloat32 | KFloat64

datatype goany =
    GNil
  | GBool bool
  | GInt int_kind int
  | GUint uint_kind int
  | GFloat float_kind f64
  | GString string
  | GSlice "goany list"
  | GMap "(string \<times> goany) list"
  | GOther string

definition fmt_of :: "float_kind \<Rightarrow> ffmt" where
  "fmt_of k = (case k of KFloat32 \<Rightarrow> fmt32 | KFloat64 \<Rightarrow> fmt64)"

text \<open>\<open>json.Marshal\<close>: map keys are sorted; \<open>None\<close> is the error for an unsupported value.\<close>

fun go_marshal :: "goany \<Rightarrow> json option"
  and marshal_elems :: "goany list \<Rightarrow> json list option"
  and marshal_members :: "(string \<times> goany) list \<Rightarrow> (string \<times> json) list option" where
  "go_marshal GNil = Some JNull"
| "go_marshal (GBool b) = Some (JBool b)"
| "go_marshal (GInt _ n) = Some (JNum (string_of_int n))"
| "go_marshal (GUint _ n) = Some (JNum (string_of_int n))"
| "go_marshal (GFloat k f) = map_option JNum (float_text (fmt_of k) f)"
| "go_marshal (GString s) = Some (JStr s)"
| "go_marshal (GSlice vs) = map_option JArr (marshal_elems vs)"
| "go_marshal (GMap kvs) = map_option (\<lambda>ms. JObj (sort_key fst ms)) (marshal_members kvs)"
| "go_marshal (GOther _) = None"
| "marshal_elems [] = Some []"
| "marshal_elems (v # vs) =
     (case (go_marshal v, marshal_elems vs) of
        (Some j, Some js) \<Rightarrow> Some (j # js)
      | _ \<Rightarrow> None)"
| "marshal_members [] = Some []"
| "marshal_members ((k, v) # kvs) =
     (case (go_marshal v, marshal_members kvs) of
        (Some j, Some ms) \<Rightarrow> Some ((k, j) # ms)
      | _ \<Rightarrow> None)"

text \<open>
  \<open>json.Unmarshal\<close> into \<open>any\<close>: the last of several equal keys wins; \<open>None\<close> is the error for a
  number out of the range of \<open>float64\<close>.
\<close>

fun go_unmarshal :: "json \<Rightarrow> goany option"
  and unmarshal_elems :: "json list \<Rightarrow> goany list option"
  and unmarshal_members :: "(string \<times> json) list \<Rightarrow> (string \<times> goany) list option" where
  "go_unmarshal JNull = Some GNil"
| "go_unmarshal (JBool b) = Some (GBool b)"
| "go_unmarshal (JNum s) = map_option (GFloat KFloat64) (parse_float fmt64 s)"
| "go_unmarshal (JStr s) = Some (GString s)"
| "go_unmarshal (JArr vs) = map_option GSlice (unmarshal_elems vs)"
| "go_unmarshal (JObj kvs) = map_option (\<lambda>ms. GMap (go_map_of ms)) (unmarshal_members kvs)"
| "unmarshal_elems [] = Some []"
| "unmarshal_elems (v # vs) =
     (case (go_unmarshal v, unmarshal_elems vs) of
        (Some g, Some gs) \<Rightarrow> Some (g # gs)
      | _ \<Rightarrow> None)"
| "unmarshal_members [] = Some []"
| "unmarshal_members ((k, v) # kvs) =
     (case (go_unmarshal v, unmarshal_members kvs) of
        (Some g, Some ms) \<Rightarrow> Some ((k, g) # ms)
      | _ \<Rightarrow> None)"

text \<open>Values that JSON can carry: numbers of their type, finite floats, maps, nothing unsupported.\<close>

fun goany_wf :: "goany \<Rightarrow> bool"
  and elems_wf :: "goany list \<Rightarrow> bool"
  and members_wf :: "(string \<times> goany) list \<Rightarrow> bool" where
  "goany_wf (GInt _ n) = in_i64 n"
| "goany_wf (GUint _ n) = (0 \<le> n \<and> n < 2 ^ 64)"
| "goany_wf (GFloat k f) = (case f of FFin _ m e \<Rightarrow> fin_ok (fmt_of k) m e | _ \<Rightarrow> False)"
| "goany_wf (GSlice vs) = elems_wf vs"
| "goany_wf (GMap kvs) = (go_map_wf kvs \<and> members_wf kvs)"
| "goany_wf (GOther _) = False"
| "goany_wf _ = True"
| "elems_wf [] = True"
| "elems_wf (v # vs) = (goany_wf v \<and> elems_wf vs)"
| "members_wf [] = True"
| "members_wf ((k, v) # kvs) = (goany_wf v \<and> members_wf kvs)"

text \<open>
  What a value becomes on its way through JSON: an integer the nearest \<open>float64\<close>, a \<open>float32\<close> the
  \<open>float64\<close> nearest to its shortest decimal.
\<close>

definition norm32 :: "f64 \<Rightarrow> f64" where
  "norm32 f =
     (case float_text fmt32 f of
        Some t \<Rightarrow> (case parse_float fmt64 t of Some g \<Rightarrow> g | None \<Rightarrow> f)
      | None \<Rightarrow> f)"

fun go_norm :: "goany \<Rightarrow> goany"
  and norm_elems :: "goany list \<Rightarrow> goany list"
  and norm_members :: "(string \<times> goany) list \<Rightarrow> (string \<times> goany) list" where
  "go_norm (GInt _ n) = GFloat KFloat64 (f64_of_int n)"
| "go_norm (GUint _ n) = GFloat KFloat64 (f64_of_int n)"
| "go_norm (GFloat k f) = GFloat KFloat64 (case k of KFloat32 \<Rightarrow> norm32 f | KFloat64 \<Rightarrow> f)"
| "go_norm (GSlice vs) = GSlice (norm_elems vs)"
| "go_norm (GMap kvs) = GMap (norm_members kvs)"
| "go_norm v = v"
| "norm_elems [] = []"
| "norm_elems (v # vs) = go_norm v # norm_elems vs"
| "norm_members [] = []"
| "norm_members ((k, v) # kvs) = (k, go_norm v) # norm_members kvs"

lemma norm_members_keys [simp]: "map fst (norm_members kvs) = map fst kvs"
  by (induction kvs) auto

lemma marshal_members_keys: "marshal_members kvs = Some ms \<Longrightarrow> map fst ms = map fst kvs"
  by (induction kvs arbitrary: ms) (auto split: option.splits)

lemma go_map_wf_keys: "map fst a = map fst b \<Longrightarrow> go_map_wf a = go_map_wf b"
  by (simp add: go_map_wf_def)

text \<open>Supported values can be marshalled; the document is well formed and reads back normalised.\<close>

lemma marshal_float:
  assumes "goany_wf (GFloat k f)"
  shows "\<exists>t neg m e. float_text (fmt_of k) f = Some t \<and> list_all is_numchar t \<and> lit_parse t \<noteq> None \<and>
    fin_ok fmt64 m e \<and> go_norm (GFloat k f) = GFloat KFloat64 (FFin neg m e) \<and>
    parse_float fmt64 t = Some (FFin neg m e)"
proof -
  from assms obtain neg m e where f: "f = FFin neg m e" "fin_ok (fmt_of k) m e" by (auto split: f64.splits)
  then obtain t where t: "float_text (fmt_of k) f = Some t" "list_all is_numchar t" "parse_float (fmt_of k) t = Some f"
    using float_text_parse [of "fmt_of k" m e neg] by (cases k) (auto simp: fmt_of_def)
  show ?thesis
  proof (cases k)
    case KFloat64
    with t f show ?thesis using parse_float_lit by (auto simp: fmt_of_def)
  next
    case KFloat32
    with t parse_float_32_64 obtain g where g: "parse_float fmt64 t = Some g" by (fastforce simp: fmt_of_def)
    with parse_float_ok [OF g] t KFloat32 show ?thesis using parse_float_lit by (auto simp: fmt_of_def norm32_def)
  qed
qed

lemma marshal_int: "in_i64 n \<Longrightarrow> parse_float fmt64 (string_of_int n) = Some (f64_of_int n)"
  by (rule parse_string_of_int) (auto simp: in_i64_def)

lemma go_marshal_wf:
  "goany_wf g \<Longrightarrow> \<exists>v. go_marshal g = Some v \<and> json_wf v \<and> go_unmarshal v = Some (go_norm g)"
  "elems_wf gs \<Longrightarrow> \<exists>vs. marshal_elems gs = Some vs \<and> list_all json_wf vs \<and>
     unmarshal_elems vs = Some (norm_elems gs)"
  "members_wf kvs \<Longrightarrow> \<exists>ms. marshal_members kvs = Some ms \<and> list_all (\<lambda>(k, v). json_wf v) ms \<and>
     unmarshal_members ms = Some (norm_members kvs)"
proof (induction g and gs and kvs rule: goany_wf_elems_wf_members_wf.induct)
  case (3 k f)
  then show ?case using marshal_float [of k f] by auto
next
  case (5 kvs)
  then obtain ms where ms: "marshal_members kvs = Some ms" "list_all (\<lambda>(k, v). json_wf v) ms"
    "unmarshal_members ms = Some (norm_members kvs)" by auto
  have "go_map_wf ms" "go_map_wf (norm_members kvs)"
    using 5 marshal_members_keys [OF ms(1)] go_map_wf_keys [of ms kvs]
      go_map_wf_keys [of "norm_members kvs" kvs] by auto
  with ms show ?case by (simp add: go_map_sort_id go_map_of_sorted)
qed (auto simp: marshal_int parse_string_of_int)

lemma go_norm_wf:
  "goany_wf g \<Longrightarrow> goany_wf (go_norm g)"
  "elems_wf gs \<Longrightarrow> elems_wf (norm_elems gs)"
  "members_wf kvs \<Longrightarrow> members_wf (norm_members kvs)"
proof (induction g and gs and kvs rule: go_norm_norm_elems_norm_members.induct)
  case (1 k n)
  then have "\<bar>n\<bar> \<le> 2 ^ 64" by (auto simp: in_i64_def)
  then show ?case using f64_of_int_ok [of n] by (auto simp: fmt_of_def)
next
  case (2 k n)
  then show ?case using f64_of_int_ok [of n] by (auto simp: fmt_of_def)
next
  case (3 k f)
  show ?case using marshal_float [OF 3] by (auto simp: fmt_of_def simp del: go_norm.simps)
qed (auto simp: go_map_wf_keys [OF norm_members_keys])

lemma go_norm_idem [simp]:
  "go_norm (go_norm g) = go_norm g"
  "norm_elems (norm_elems gs) = norm_elems gs"
  "norm_members (norm_members kvs) = norm_members kvs"
  by (induction g and gs and kvs rule: go_norm_norm_elems_norm_members.induct) auto

text \<open>A value in normal form is a fixed point, and so are its members.\<close>

lemma norm_members_map_of: "map_of (norm_members kvs) k = map_option go_norm (map_of kvs k)"
  by (induction kvs) auto

end
