(* ===== verification/Job.thy ===== *)
theory Job
  imports Go_Value
begin

text \<open>
  \<open>job.go\<close>: the job record, its JSON form in Redis (\<open>serialize\<close>, \<open>newJob\<close>), the bookkeeping of a
  failure, and the typed access to arguments (\<open>ArgString\<close>, \<open>ArgInt64\<close>, \<open>ArgFloat64\<close>,
  \<open>ArgBool\<close>, \<open>ArgError\<close>). The main results: a job survives the trip through its JSON text, and
  an integer argument is read exactly or \<open>ArgInt64\<close> records an error.
\<close>

section \<open>The job record\<close>

text \<open>\<open>missingKeyError\<close> and \<open>typecastError\<close>, with what their messages mention.\<close>

datatype arg_error =
    missingKeyError string string
  | typecastError string string goany

type_synonym go_args = "goany go_map option"

text \<open>
  \<open>argError = None\<close> is Go's nil error, \<open>Args = None\<close> the nil map; \<open>jobObserver\<close> is the worker
  whose observer is attached to the job.
\<close>

record job =
  Name :: string
  ID :: string
  EnqueuedAt :: int
  Args :: go_args
  Unique :: bool
  UniqueKey :: string
  Fails :: int
  LastErr :: string
  FailedAt :: int
  rawJSON :: string
  dequeuedFrom :: string
  inProgQueue :: string
  argError :: "arg_error option"
  jobObserver :: "string option"

definition zero_job :: job where
  "zero_job = \<lparr>Name = [], ID = [], EnqueuedAt = 0, Args = None, Unique = False, UniqueKey = [],
     Fails = 0, LastErr = [], FailedAt = 0, rawJSON = [], dequeuedFrom = [], inProgQueue = [],
     argError = None, jobObserver = None\<rparr>"

section \<open>JSON form\<close>

definition json_int :: "int \<Rightarrow> json" where
  "json_int n = JNum (string_of_int n)"

definition omit_empty :: "bool \<Rightarrow> string \<Rightarrow> json \<Rightarrow> (string \<times> json) list" where
  "omit_empty isz k v = (if isz then [] else [(k, v)])"

definition args_json :: "go_args \<Rightarrow> json option" where
  "args_json a = (case a of None \<Rightarrow> Some JNull | Some m \<Rightarrow> go_marshal (GMap m))"

text \<open>The fields in the order and with the names and \<open>omitempty\<close> options of the struct tags.\<close>

definition job_members :: "job \<Rightarrow> json \<Rightarrow> (string \<times> json) list" where
  "job_members j a =
     omit_empty (Name j = []) ''name'' (JStr (Name j)) @
     [(''id'', JStr (ID j)), (''t'', json_int (EnqueuedAt j)), (''args'', a)] @
     omit_empty (\<not> Unique j) ''unique'' (JBool (Unique j)) @
     omit_empty (UniqueKey j = []) ''unique_key'' (JStr (UniqueKey j)) @
     omit_empty (Fails j = 0) ''fails'' (json_int (Fails j)) @
     omit_empty (LastErr j = []) ''err'' (JStr (LastErr j)) @
     omit_empty (FailedAt j = 0) ''failed_at'' (json_int (FailedAt j))"

definition job_json :: "job \<Rightarrow> json option" where
  "job_json j = map_option (\<lambda>a. JObj (job_members j a)) (args_json (Args j))"

definition serialize :: "job \<Rightarrow> string option" where
  "serialize j = map_option json_print (job_json j)"

text \<open>
  \<open>json.Unmarshal\<close> into the struct: an object key selects a field by its exact name or, failing
  that, by its name up to case; unknown keys are skipped; \<open>null\<close> leaves a scalar alone and makes a
  map nil; a value of the wrong type is an error.
\<close>

definition lower_char :: "char \<Rightarrow> char" where
  "lower_char c = (let n = (of_char c :: nat) in if 65 \<le> n \<and> n \<le> 90 then char_of (n + 32) else c)"

definition job_fields :: "string list" where
  "job_fields = [''name'', ''id'', ''t'', ''args'', ''unique'', ''unique_key'', ''fails'', ''err'', ''failed_at'']"

definition field_of :: "string \<Rightarrow> string" where
  "field_of k = (if k \<in> set job_fields then k else map lower_char k)"

definition as_string :: "json \<Rightarrow> string \<Rightarrow> string option" where
  "as_string v old = (case v of JStr s \<Rightarrow> Some s | JNull \<Rightarrow> Some old | _ \<Rightarrow> None)"

definition as_int64 :: "json \<Rightarrow> int \<Rightarrow> int option" where
  "as_int64 v old =
     (case v of
        JNum s \<Rightarrow> (case int_of_string s of Some n \<Rightarrow> if in_i64 n then Some n else None | None \<Rightarrow> None)
      | JNull \<Rightarrow> Some old
      | _ \<Rightarrow> None)"

definition as_bool :: "json \<Rightarrow> bool \<Rightarrow> bool option" where
  "as_bool v old = (case v of JBool b \<Rightarrow> Some b | JNull \<Rightarrow> Some old | _ \<Rightarrow> None)"

text \<open>An object is decoded into the map the struct already has.\<close>

definition as_args :: "json \<Rightarrow> go_args \<Rightarrow> go_args option" where
  "as_args v old =
     (case v of
        JNull \<Rightarrow> Some None
      | JObj kvs \<Rightarrow>
          map_option (\<lambda>ms. Some (go_map_of ((case old of None \<Rightarrow> [] | Some m \<Rightarrow> m) @ ms))) (unmarshal_members kvs)
      | _ \<Rightarrow> None)"

definition set_field :: "string \<Rightarrow> json \<Rightarrow> job \<Rightarrow> job option" where
  "set_field k v j =
     (let f = field_of k in
      if f = ''name'' then map_option (\<lambda>s. j\<lparr>Name := s\<rparr>) (as_string v (Name j))
      else if f = ''id'' then map_option (\<lambda>s. j\<lparr>ID := s\<rparr>) (as_string v (ID j))
      else if f = ''t'' then map_option (\<lambda>n. j\<lparr>EnqueuedAt := n\<rparr>) (as_int64 v (EnqueuedAt j))
      else if f = ''args'' then map_option (\<lambda>a. j\<lparr>Args := a\<rparr>) (as_args v (Args j))
      else if f = ''unique'' then map_option (\<lambda>b. j\<lparr>Unique := b\<rparr>) (as_bool v (Unique j))
      else if f = ''unique_key'' then map_option (\<lambda>s. j\<lparr>UniqueKey := s\<rparr>) (as_string v (UniqueKey j))
      else if f = ''fails'' then map_option (\<lambda>n. j\<lparr>Fails := n\<rparr>) (as_int64 v (Fails j))
      else if f = ''err'' then map_option (\<lambda>s. j\<lparr>LastErr := s\<rparr>) (as_string v (LastErr j))
      else if f = ''failed_at'' then map_option (\<lambda>n. j\<lparr>FailedAt := n\<rparr>) (as_int64 v (FailedAt j))
      else Some j)"

fun set_fields :: "(string \<times> json) list \<Rightarrow> job \<Rightarrow> job option" where
  "set_fields [] j = Some j"
| "set_fields ((k, v) # kvs) j =
     (case set_field k v j of None \<Rightarrow> None | Some j' \<Rightarrow> set_fields kvs j')"

definition job_of_json :: "json \<Rightarrow> job option" where
  "job_of_json v =
     (case v of JObj kvs \<Rightarrow> set_fields kvs zero_job | JNull \<Rightarrow> Some zero_job | _ \<Rightarrow> None)"

definition newJob :: "string \<Rightarrow> string \<Rightarrow> string \<Rightarrow> job option" where
  "newJob raw from inprog =
     (case json_parse raw of
        None \<Rightarrow> None
      | Some v \<Rightarrow>
          (case job_of_json v of
             None \<Rightarrow> None
           | Some j \<Rightarrow> Some (j\<lparr>rawJSON := raw, dequeuedFrom := from, inProgQueue := inprog\<rparr>)))"

section \<open>Operations\<close>

definition setArg :: "string \<Rightarrow> goany \<Rightarrow> job \<Rightarrow> job" where
  "setArg k v j = j\<lparr>Args := Some (map_put k v (case Args j of None \<Rightarrow> [] | Some m \<Rightarrow> m))\<rparr>"

text \<open>\<open>failed\<close>: the counter is an \<open>int64\<close> and wraps.\<close>

definition failed :: "string \<Rightarrow> int \<Rightarrow> job \<Rightarrow> job" where
  "failed msg now j = j\<lparr>Fails := wrap_i64 (Fails j + 1), LastErr := msg, FailedAt := now\<rparr>"

definition arg_lookup :: "job \<Rightarrow> string \<Rightarrow> goany option" where
  "arg_lookup j k = (case Args j of None \<Rightarrow> None | Some m \<Rightarrow> map_of m k)"

definition isIntKind :: "goany \<Rightarrow> bool" where
  "isIntKind v = (case v of GInt _ _ \<Rightarrow> True | _ \<Rightarrow> False)"

definition isUintKind :: "goany \<Rightarrow> bool" where
  "isUintKind v = (case v of GUint _ _ \<Rightarrow> True | _ \<Rightarrow> False)"

definition isFloatKind :: "goany \<Rightarrow> bool" where
  "isFloatKind v = (case v of GFloat _ _ \<Rightarrow> True | _ \<Rightarrow> False)"

definition ArgString :: "string \<Rightarrow> job \<Rightarrow> string \<times> job" where
  "ArgString k j =
     (case arg_lookup j k of
        Some (GString s) \<Rightarrow> (s, j)
      | Some v \<Rightarrow> ([], j\<lparr>argError := Some (typecastError ''string'' k v)\<rparr>)
      | None \<Rightarrow> ([], j\<lparr>argError := Some (missingKeyError ''string'' k)\<rparr>))"

text \<open>\<open>reflect.Value.Float\<close>: a \<open>float32\<close> is widened.\<close>

definition float_value :: "float_kind \<Rightarrow> f64 \<Rightarrow> f64" where
  "float_value k f = (case k of KFloat32 \<Rightarrow> widen f | KFloat64 \<Rightarrow> f)"

definition max_exact :: int where
  "max_exact = 9007199254740892"

text \<open>The \<open>int64\<close> a stored value stands for, if \<open>ArgInt64\<close> accepts it.\<close>

definition int64_of :: "(f64 \<Rightarrow> int) \<Rightarrow> goany \<Rightarrow> int option" where
  "int64_of cvt v =
     (case v of
        GInt _ n \<Rightarrow> Some n
      | GUint _ n \<Rightarrow> if n \<le> 2 ^ 63 - 1 then Some (wrap_i64 n) else None
      | GFloat k f \<Rightarrow>
          (let x = float_value k f; i = f64_int64 cvt x in
           if f64_integral x \<and> i \<le> max_exact \<and> - max_exact \<le> i then Some i else None)
      | _ \<Rightarrow> None)"

definition ArgInt64 :: "(f64 \<Rightarrow> int) \<Rightarrow> string \<Rightarrow> job \<Rightarrow> int \<times> job" where
  "ArgInt64 cvt k j =
     (case arg_lookup j k of
        Some v \<Rightarrow>
          (case int64_of cvt v of
             Some n \<Rightarrow> (n, j)
           | None \<Rightarrow> (0, j\<lparr>argError := Some (typecastError ''int64'' k v)\<rparr>))
      | None \<Rightarrow> (0, j\<lparr>argError := Some (missingKeyError ''int64'' k)\<rparr>))"

definition ArgFloat64 :: "string \<Rightarrow> job \<Rightarrow> f64 \<times> job" where
  "ArgFloat64 k j =
     (case arg_lookup j k of
        Some (GInt _ n) \<Rightarrow> (f64_of_int n, j)
      | Some (GUint _ n) \<Rightarrow> (f64_of_int n, j)
      | Some (GFloat k' f) \<Rightarrow> (float_value k' f, j)
      | Some v \<Rightarrow> (f64_of_int 0, j\<lparr>argError := Some (typecastError ''float64'' k v)\<rparr>)
      | None \<Rightarrow> (f64_of_int 0, j\<lparr>argError := Some (missingKeyError ''float64'' k)\<rparr>))"

definition ArgBool :: "string \<Rightarrow> job \<Rightarrow> bool \<times> job" where
  "ArgBool k j =
     (case arg_lookup j k of
        Some (GBool b) \<Rightarrow> (b, j)
      | Some v \<Rightarrow> (False, j\<lparr>argError := Some (typecastError ''bool'' k v)\<rparr>)
      | None \<Rightarrow> (False, j\<lparr>argError := Some (missingKeyError ''bool'' k)\<rparr>))"

definition ArgError :: "job \<Rightarrow> arg_error option" where
  "ArgError j = argError j"

section \<open>Jobs through JSON\<close>

text \<open>A job whose arguments JSON can carry and whose counters are \<open>int64\<close> values.\<close>

definition job_wf :: "job \<Rightarrow> bool" where
  "job_wf j \<longleftrightarrow>
     (case Args j of None \<Rightarrow> True | Some m \<Rightarrow> go_map_wf m \<and> members_wf m) \<and>
     in_i64 (EnqueuedAt j) \<and> in_i64 (Fails j) \<and> in_i64 (FailedAt j)"

text \<open>What \<open>newJob\<close> sees of a serialized job.\<close>

definition reread :: "string \<Rightarrow> string \<Rightarrow> string \<Rightarrow> job \<Rightarrow> job" where
  "reread raw from inprog j =
     j\<lparr>Args := map_option norm_members (Args j), rawJSON := raw, dequeuedFrom := from,
       inProgQueue := inprog, argError := None, jobObserver := None\<rparr>"

lemma args_json_wf:
  assumes "case a of None \<Rightarrow> True | Some m \<Rightarrow> go_map_wf m \<and> members_wf m"
  shows "\<exists>v. args_json a = Some v \<and> json_wf v \<and> as_args v None = Some (map_option norm_members a)"
proof (cases a)
  case None
  then show ?thesis by (simp add: args_json_def as_args_def)
next
  case (Some m)
  with assms have wf: "goany_wf (GMap m)" by simp
  from go_marshal_wf(1) [OF wf] obtain v where v: "go_marshal (GMap m) = Some v" "json_wf v"
    "go_unmarshal v = Some (GMap (norm_members m))" by auto
  then obtain ms where "v = JObj ms" by auto
  with v Some show ?thesis by (auto simp: args_json_def as_args_def)
qed

lemma as_int64_json_int [simp]: "in_i64 n \<Longrightarrow> as_int64 (json_int n) old = Some n"
  by (simp add: as_int64_def json_int_def)

lemma field_of_field: "k \<in> set job_fields \<Longrightarrow> field_of k = k"
  by (simp add: field_of_def)

lemma field_names [simp]:
  "field_of ''name'' = ''name''" "field_of ''id'' = ''id''" "field_of ''t'' = ''t''"
  "field_of ''args'' = ''args''" "field_of ''unique'' = ''unique''"
  "field_of ''unique_key'' = ''unique_key''" "field_of ''fails'' = ''fails''"
  "field_of ''err'' = ''err''" "field_of ''failed_at'' = ''failed_at''"
  by (simp_all add: field_of_def job_fields_def)

lemma set_fields_append:
  "set_fields (xs @ ys) j = (case set_fields xs j of None \<Rightarrow> None | Some j' \<Rightarrow> set_fields ys j')"
  by (induction xs j rule: set_fields.induct) (auto split: option.splits)

lemma set_fields_omit_empty:
  "set_fields (omit_empty e k v) j = (if e then Some j else set_field k v j)"
  by (auto simp: omit_empty_def split: option.splits)

lemma job_json_wf:
  assumes "job_wf j"
  shows "\<exists>v. job_json j = Some v \<and> json_wf v \<and>
    job_of_json v = Some (reread [] [] [] j)"
proof -
  from assms obtain a where a: "args_json (Args j) = Some a" "json_wf a"
    "as_args a None = Some (map_option norm_members (Args j))"
    using args_json_wf [of "Args j"] by (auto simp: job_wf_def)
  have "json_wf (JObj (job_members j a))"
    using a(2) by (simp add: job_members_def omit_empty_def json_int_def)
  moreover have "set_fields (job_members j a) zero_job = Some (reread [] [] [] j)"
    using assms a(3)
    by (simp add: job_members_def set_fields_append set_fields_omit_empty set_field_def
        as_string_def as_bool_def zero_job_def reread_def job_wf_def)
  ultimately show ?thesis using a(1) by (simp add: job_json_def job_of_json_def)
qed

lemma serialize_Some: "job_wf j \<Longrightarrow> \<exists>raw. serialize j = Some raw"
  using job_json_wf [of j] by (auto simp: serialize_def)

lemma newJob_serialize:
  assumes "job_wf j" and "serialize j = Some raw"
  shows "newJob raw from inprog = Some (reread raw from inprog j)"
proof -
  from job_json_wf [OF assms(1)] obtain v where v: "job_json j = Some v" "json_wf v"
    "job_of_json v = Some (reread [] [] [] j)" by blast
  with assms(2) have "raw = json_print v" by (simp add: serialize_def)
  with v show ?thesis by (simp add: newJob_def json_parse_print reread_def)
qed

section \<open>A sample\<close>

definition sample_job :: job where
  "sample_job = zero_job\<lparr>Name := ''a'', ID := ''1'', EnqueuedAt := 42, Args := Some [(''to'', GString ''bob'')], Fails := 2\<rparr>"

definition sample_raw :: string where
  "sample_raw = the (serialize sample_job)"

lemma sample_job_wf: "job_wf sample_job"
  by (simp add: sample_job_def zero_job_def job_wf_def go_map_wf_def in_i64_def)

lemma serialize_sample: "serialize sample_job = Some sample_raw"
  using serialize_Some [OF sample_job_wf] by (auto simp: sample_raw_def)

section \<open>Integers as arguments\<close>

lemma members_wf_map_put: "goany_wf v \<Longrightarrow> members_wf m \<Longrightarrow> members_wf (map_put k v m)"
  by (induction k v m rule: map_put.induct) auto

lemma setArg_wf: "job_wf j \<Longrightarrow> goany_wf v \<Longrightarrow> job_wf (setArg k v j)"
  by (cases "Args j") (auto simp: job_wf_def setArg_def map_put_wf members_wf_map_put simp del: map_put.simps)

lemma arg_lookup_reread_setArg: "arg_lookup (reread raw from inprog (setArg k v j)) k = Some (go_norm v)"
  by (simp add: arg_lookup_def reread_def setArg_def norm_members_map_of map_of_map_put)

lemma int64_of_norm_int:
  assumes "in_i64 n" and "\<And>f. cvt f \<in> {- (2 ^ 63), 2 ^ 63 - 1}"
  shows "int64_of cvt (go_norm (GInt kd n)) = (if \<bar>n\<bar> \<le> max_exact then Some n else None)"
proof (cases "\<bar>n\<bar> \<le> 2 ^ 53")
  case True
  then show ?thesis
    using f64_int64_of_int(1) [OF True, of cvt] f64_int64_of_int(2) [OF True] by (auto simp: int64_of_def float_value_def Let_def)
next
  case False
  have "2 ^ 53 \<le> \<bar>cvt f\<bar>" for f using assms(2) [of f] by auto
  with False assms(1) have "2 ^ 53 \<le> \<bar>f64_int64 cvt (f64_of_int n)\<bar>"
    by (intro f64_int64_of_large) (auto simp: in_i64_def)
  with False show ?thesis by (auto simp: int64_of_def float_value_def Let_def max_exact_def)
qed

text \<open>C16: an integer a producer puts into a job's arguments, of whatever kind, is what the handler's
  \<open>ArgInt64\<close> returns after the job has gone through its JSON text in Redis, where every number is a
  \<open>float64\<close>: exactly when its magnitude is at most 9007199254740892. Beyond that \<open>ArgInt64\<close> returns 0
  and records the type error; it never returns a neighbouring integer. The conversion of floats
  beyond \<open>int64\<close> is the platform's, which gives one of the two extreme values.
\<close>

theorem int_argument_exact_or_error:
  assumes "job_wf j" and "in_i64 n" and "serialize (setArg k (GInt kd n) j) = Some raw"
    and "\<And>f. cvt f \<in> {- (2 ^ 63), 2 ^ 63 - 1}"
  shows "\<exists>j'. newJob raw from inprog = Some j' \<and> ArgError j' = None \<and>
    ArgInt64 cvt k j' =
      (if \<bar>n\<bar> \<le> max_exact then (n, j')
       else (0, j'\<lparr>argError := Some (typecastError ''int64'' k (GFloat KFloat64 (f64_of_int n)))\<rparr>))"
proof -
  let ?j = "setArg k (GInt kd n) j"
  have "job_wf ?j" using assms(1,2) by (simp add: setArg_wf)
  then have "newJob raw from inprog = Some (reread raw from inprog ?j)" using assms(3) by (rule newJob_serialize)
  moreover have "ArgInt64 cvt k (reread raw from inprog ?j) =
      (if \<bar>n\<bar> \<le> max_exact then (n, reread raw from inprog ?j)
       else (0, (reread raw from inprog ?j)\<lparr>argError := Some (typecastError ''int64'' k (GFloat KFloat64 (f64_of_int n)))\<rparr>))"
    unfolding ArgInt64_def arg_lookup_reread_setArg option.case int64_of_norm_int [OF assms(2,4)] by simp
  ultimately show ?thesis by (auto simp: ArgError_def reread_def)
qed

theorem int_argument_exact_or_error_witness:
  "\<exists>raw j'. serialize (setArg ''n'' (GInt KInt 9007199254740893) sample_job) = Some raw \<and>
    newJob raw ''q'' ''p'' = Some j' \<and>
    ArgInt64 (\<lambda>_. - (2 ^ 63)) ''n'' j' =
      (0, j'\<lparr>argError := Some (typecastError ''int64'' ''n'' (GFloat KFloat64 (f64_of_int 9007199254740893)))\<rparr>)"
proof -
  have n: "in_i64 9007199254740893" by (simp add: in_i64_def)
  then have "job_wf (setArg ''n'' (GInt KInt 9007199254740893) sample_job)"
    by (intro setArg_wf sample_job_wf) simp
  then obtain raw where raw: "serialize (setArg ''n'' (GInt KInt 9007199254740893) sample_job) = Some raw"
    using serialize_Some by blast
  from int_argument_exact_or_error [OF sample_job_wf n raw, of "\<lambda>_. - (2 ^ 63)" "''q''" "''p''"] raw
  show ?thesis by (auto simp: max_exact_def)
qed

end
