(* ===== verification/Redis_Keys.thy ===== *)
theory Redis_Keys
  imports Job
begin

text \<open>
  The key functions of \<open>redis.go\<close>. Every component reaches its data through these keys, so they
  must not collide: the second half shows that keys of one namespace built from names and
  identifiers without a colon are pairwise distinct, both across kinds of key and within a kind.
\<close>

section \<open>Key functions\<close>

definition redisNamespacePrefix :: "string \<Rightarrow> string" where
  "redisNamespacePrefix ns = (if ns \<noteq> [] \<and> last ns \<noteq> CHR '':'' then ns @ '':'' else ns)"

definition redisKeyKnownJobs :: "string \<Rightarrow> string" where
  "redisKeyKnownJobs ns = redisNamespacePrefix ns @ ''known_jobs''"

definition redisKeyJobsPrefix :: "string \<Rightarrow> string" where
  "redisKeyJobsPrefix ns = redisNamespacePrefix ns @ ''jobs:''"

definition redisKeyJobs :: "string \<Rightarrow> string \<Rightarrow> string" where
  "redisKeyJobs ns jobName = redisKeyJobsPrefix ns @ jobName"

definition redisKeyJobsInProgress :: "string \<Rightarrow> string \<Rightarrow> string \<Rightarrow> string" where
  "redisKeyJobsInProgress ns poolID jobName = redisKeyJobs ns jobName @ '':'' @ poolID @ '':inprogress''"

definition redisKeyRetry :: "string \<Rightarrow> string" where
  "redisKeyRetry ns = redisNamespacePrefix ns @ ''retry''"

definition redisKeyDead :: "string \<Rightarrow> string" where
  "redisKeyDead ns = redisNamespacePrefix ns @ ''dead''"

definition redisKeyScheduled :: "string \<Rightarrow> string" where
  "redisKeyScheduled ns = redisNamespacePrefix ns @ ''scheduled''"

definition redisKeyWorkerObservation :: "string \<Rightarrow> string \<Rightarrow> string" where
  "redisKeyWorkerObservation ns workerID = redisNamespacePrefix ns @ ''worker:'' @ workerID"

definition redisKeyWorkerPools :: "string \<Rightarrow> string" where
  "redisKeyWorkerPools ns = redisNamespacePrefix ns @ ''worker_pools''"

definition redisKeyHeartbeat :: "string \<Rightarrow> string \<Rightarrow> string" where
  "redisKeyHeartbeat ns workerPoolID = redisNamespacePrefix ns @ ''worker_pools:'' @ workerPoolID"

definition redisKeyJobsPaused :: "string \<Rightarrow> string \<Rightarrow> string" where
  "redisKeyJobsPaused ns jobName = redisKeyJobs ns jobName @ '':paused''"

definition redisKeyJobsLock :: "string \<Rightarrow> string \<Rightarrow> string" where
  "redisKeyJobsLock ns jobName = redisKeyJobs ns jobName @ '':lock''"

definition redisKeyJobsLockInfo :: "string \<Rightarrow> string \<Rightarrow> string" where
  "redisKeyJobsLockInfo ns jobName = redisKeyJobs ns jobName @ '':lock_info''"

definition redisKeyJobsConcurrency :: "string \<Rightarrow> string \<Rightarrow> string" where
  "redisKeyJobsConcurrency ns jobName = redisKeyJobs ns jobName @ '':max_concurrency''"

text \<open>
  \<open>json.NewEncoder(&buf).Encode(args)\<close> writes the document and a newline; \<open>None\<close> is its error.
\<close>

definition redisKeyUniqueJob :: "string \<Rightarrow> string \<Rightarrow> go_args \<Rightarrow> string option" where
  "redisKeyUniqueJob ns jobName args =
     (let base = redisNamespacePrefix ns @ ''unique:'' @ jobName @ '':'' in
      case args of
        None \<Rightarrow> Some base
      | Some m \<Rightarrow> map_option (\<lambda>v. base @ json_print v @ [CHR 0x0A]) (go_marshal (GMap m)))"

definition redisKeyLastPeriodicEnqueue :: "string \<Rightarrow> string" where
  "redisKeyLastPeriodicEnqueue ns = redisNamespacePrefix ns @ ''last_periodic_enqueue''"

section \<open>Names without a colon\<close>

definition plain :: "string \<Rightarrow> bool" where
  "plain s \<longleftrightarrow> CHR '':'' \<notin> set s"

text \<open>A suffix of a job key is empty or starts with a colon.\<close>

definition colon_tail :: "string \<Rightarrow> bool" where
  "colon_tail t \<longleftrightarrow> (case t of [] \<Rightarrow> True | c # _ \<Rightarrow> c = CHR '':'')"

lemma colon_tail_simps [simp]: "colon_tail []" "colon_tail (c # t) \<longleftrightarrow> c = CHR '':''"
  by (simp_all add: colon_tail_def)

lemma plain_split:
  assumes "plain n" and "plain m" and "colon_tail s" and "colon_tail t"
  shows "n @ s = m @ t \<longleftrightarrow> n = m \<and> s = t"
  using assms
proof (induction n arbitrary: m)
  case Nil
  then show ?case by (cases m; cases s) (auto simp: plain_def)
next
  case (Cons c n)
  then show ?case by (cases m; cases t) (auto simp: plain_def)
qed

lemma plain_split_tail:
  "plain p \<Longrightarrow> plain q \<Longrightarrow> p @ CHR '':'' # s = q @ CHR '':'' # t \<longleftrightarrow> p = q \<and> s = t"
  using plain_split [of p q "CHR '':'' # s" "CHR '':'' # t"] by simp

lemmas key_defs =
  redisKeyKnownJobs_def redisKeyJobsPrefix_def redisKeyJobs_def redisKeyJobsInProgress_def
  redisKeyRetry_def redisKeyDead_def redisKeyScheduled_def redisKeyWorkerObservation_def
  redisKeyWorkerPools_def redisKeyHeartbeat_def redisKeyJobsPaused_def redisKeyJobsLock_def
  redisKeyJobsLockInfo_def redisKeyJobsConcurrency_def redisKeyLastPeriodicEnqueue_def

section \<open>Keys by kind\<close>

text \<open>
  The kinds of key a namespace uses, and the text of each. All distinctness facts follow from the
  injectivity of \<open>render\<close> on keys made of plain parts.
\<close>

datatype key_kind =
    KJobs string
  | KInProgress string string
  | KPaused string
  | KLock string
  | KLockInfo string
  | KConcurrency string
  | KKnownJobs | KRetry | KDead | KScheduled | KWorkerPools | KLastPeriodic
  | KObservation string
  | KHeartbeat string
  | KUnique string string

fun render :: "string \<Rightarrow> key_kind \<Rightarrow> string" where
  "render ns (KJobs n) = redisKeyJobs ns n"
| "render ns (KInProgress p n) = redisKeyJobsInProgress ns p n"
| "render ns (KPaused n) = redisKeyJobsPaused ns n"
| "render ns (KLock n) = redisKeyJobsLock ns n"
| "render ns (KLockInfo n) = redisKeyJobsLockInfo ns n"
| "render ns (KConcurrency n) = redisKeyJobsConcurrency ns n"
| "render ns KKnownJobs = redisKeyKnownJobs ns"
| "render ns KRetry = redisKeyRetry ns"
| "render ns KDead = redisKeyDead ns"
| "render ns KScheduled = redisKeyScheduled ns"
| "render ns KWorkerPools = redisKeyWorkerPools ns"
| "render ns KLastPeriodic = redisKeyLastPeriodicEnqueue ns"
| "render ns (KObservation w) = redisKeyWorkerObservation ns w"
| "render ns (KHeartbeat p) = redisKeyHeartbeat ns p"
| "render ns (KUnique n d) = redisNamespacePrefix ns @ ''unique:'' @ n @ '':'' @ d"

fun plain_key :: "key_kind \<Rightarrow> bool" where
  "plain_key (KJobs n) = plain n"
| "plain_key (KInProgress p n) = (plain p \<and> plain n)"
| "plain_key (KPaused n) = plain n"
| "plain_key (KLock n) = plain n"
| "plain_key (KLockInfo n) = plain n"
| "plain_key (KConcurrency n) = plain n"
| "plain_key (KObservation w) = plain w"
| "plain_key (KHeartbeat p) = plain p"
| "plain_key (KUnique n d) = plain n"
| "plain_key _ = True"

fun job_suffix :: "key_kind \<Rightarrow> (string \<times> string) option" where
  "job_suffix (KJobs n) = Some (n, [])"
| "job_suffix (KInProgress p n) = Some (n, CHR '':'' # p @ '':inprogress'')"
| "job_suffix (KPaused n) = Some (n, '':paused'')"
| "job_suffix (KLock n) = Some (n, '':lock'')"
| "job_suffix (KLockInfo n) = Some (n, '':lock_info'')"
| "job_suffix (KConcurrency n) = Some (n, '':max_concurrency'')"
| "job_suffix _ = None"

lemma render_job:
  "job_suffix k = Some (n, s) \<Longrightarrow> render ns k = redisNamespacePrefix ns @ ''jobs:'' @ n @ s"
  by (cases k) (auto simp: key_defs)

lemma job_suffix_plain:
  "job_suffix k = Some (n, s) \<Longrightarrow> plain_key k \<Longrightarrow> plain n \<and> colon_tail s"
  by (cases k) auto

lemma plain_no_colon: "plain p \<Longrightarrow> p @ CHR '':'' # s \<noteq> q" if "plain q" for q
  using that by (auto simp: plain_def)

lemma job_suffix_inject:
  assumes "job_suffix k = Some (n, s)" and "job_suffix l = Some (n, s)"
    and "plain_key k" and "plain_key l"
  shows "k = l"
proof -
  have tail: "p @ '':inprogress'' = q @ '':inprogress'' \<longleftrightarrow> p = q" for p q :: string by simp
  have neq: "p @ '':inprogress'' \<noteq> w" if "plain w" for p w
    using that by (auto simp: plain_def)
  have w: "plain ''paused''" "plain ''lock''" "plain ''lock_info''" "plain ''max_concurrency''"
    by (simp_all add: plain_def)
  show ?thesis
    using assms neq [OF w(1)] neq [OF w(2)] neq [OF w(3)] neq [OF w(4)] tail
    by (cases k; cases l) auto
qed

lemma render_jobs_inject:
  assumes "job_suffix k = Some x" and "job_suffix l = Some y"
    and "plain_key k" and "plain_key l" and "render ns k = render ns l"
  shows "k = l"
proof -
  obtain n s m t where x: "x = (n, s)" and y: "y = (m, t)" by (cases x, cases y)
  with assms have "n @ s = m @ t" by (simp add: render_job)
  with assms x y have "n = m \<and> s = t" using plain_split job_suffix_plain by metis
  with assms x y show ?thesis using job_suffix_inject by metis
qed

lemma render_other_inject:
  assumes "job_suffix k = None" and "job_suffix l = None"
    and "plain_key k" and "plain_key l" and "render ns k = render ns l"
  shows "k = l"
  using assms by (cases k; cases l) (auto simp: key_defs plain_split_tail)

lemma render_job_other:
  assumes "job_suffix k = Some x" and "job_suffix l = None"
  shows "render ns k \<noteq> render ns l"
proof -
  obtain n s where "x = (n, s)" by (cases x)
  with assms have "render ns k = redisNamespacePrefix ns @ ''jobs:'' @ n @ s" by (simp add: render_job)
  with assms(2) show ?thesis by (cases l) (auto simp: key_defs)
qed

lemma render_inject:
  assumes "plain_key k" and "plain_key l"
  shows "render ns k = render ns l \<longleftrightarrow> k = l"
proof
  assume eq: "render ns k = render ns l"
  show "k = l"
  proof (cases "job_suffix k")
    case None
    show ?thesis
    proof (cases "job_suffix l")
      case l: None
      from None l assms eq show ?thesis by (rule render_other_inject)
    next
      case (Some y)
      with None eq show ?thesis using render_job_other [of l y k ns] by simp
    qed
  next
    case (Some x)
    show ?thesis
    proof (cases "job_suffix l")
      case None
      with Some eq show ?thesis using render_job_other [of k x l ns] by simp
    next
      case l: (Some y)
      from Some l assms eq show ?thesis by (rule render_jobs_inject)
    qed
  qed
qed simp

text \<open>The reduction of an equation between two key functions to one between kinds.\<close>

lemmas render_rev [key_simps] = render.simps(1-14) [symmetric]
declare render.simps [simp del]
declare render_inject [key_simps]

lemma redisKeyUniqueJob_render:
  "redisKeyUniqueJob ns n a = Some k \<Longrightarrow> \<exists>d. k = render ns (KUnique n d)"
  by (auto simp: redisKeyUniqueJob_def Let_def render.simps(15) split: option.splits)

section \<open>No two kinds of data share a key\<close>

text \<open>C36: for names and identifiers without a colon, the keys of different data, or of the same kind of data
  of different jobs, pools and workers, never coincide.\<close>

theorem keys_never_collide:
  assumes "plain_key k" and "plain_key l"
  shows "render ns k = render ns l \<longleftrightarrow> k = l"
  using assms by (rule render_inject)

theorem keys_never_collide_witness: "redisKeyJobsLock ''w'' ''a'' \<noteq> redisKeyJobs ''w'' ''b''"
  using keys_never_collide [of "KLock ''a''" "KJobs ''b''" "''w''"] by (simp add: render.simps plain_def)

text \<open>A name with a colon can take the key of another job's lock.\<close>

lemma colon_name_collides: "redisKeyJobs ns (n @ '':lock'') = redisKeyJobsLock ns n"
  by (simp add: key_defs)

end
