(* ===== verification/Redis_Server.thy ===== *)
theory Redis_Server
  imports Redis_Keys
begin

text \<open>
  The boundary of the program: the Redis server, the Lua library \<open>cjson\<close> that scripts use inside
  it, and the client library \<open>redigo\<close>. None of them is part of the repository, so they are the
  fields of a record \<open>'w redis\<close> that the model of the program takes as an argument; the locales
  \<open>redis_server\<close>, \<open>lua_cjson\<close> and \<open>redis_conn\<close> state what their documentation promises. A
  complete in-memory server closes the theory and interprets all three locales.
\<close>

section \<open>The keyspace\<close>

datatype rval =
    VStr string
  | VList "string list"
  | VHash "(string \<times> string) list"
  | VSet "string set"
  | VZset "(int \<times> string) list"

text \<open>Values by key, and the time to live in seconds of the keys that expire.\<close>

record keyspace =
  kv :: "string \<Rightarrow> rval option"
  ttl :: "string \<Rightarrow> int option"

definition empty_keyspace :: keyspace where
  "empty_keyspace = \<lparr>kv = (\<lambda>_. None), ttl = (\<lambda>_. None)\<rparr>"

text \<open>Replacing or (with \<open>None\<close>) removing the value of a key.\<close>

definition upd :: "string \<Rightarrow> rval option \<Rightarrow> keyspace \<Rightarrow> keyspace" where
  "upd k v db =
     db\<lparr>kv := (kv db)(k := v), ttl := (if v = None then (ttl db)(k := None) else ttl db)\<rparr>"

definition set_ttl :: "string \<Rightarrow> int option \<Rightarrow> keyspace \<Rightarrow> keyspace" where
  "set_ttl k t db = db\<lparr>ttl := (ttl db)(k := t)\<rparr>"

text \<open>Reading a value as the type a command expects. A missing key is the empty container.\<close>

definition list_of :: "rval option \<Rightarrow> string list" where
  "list_of v = (case v of Some (VList xs) \<Rightarrow> xs | _ \<Rightarrow> [])"

definition str_of :: "rval option \<Rightarrow> string option" where
  "str_of v = (case v of Some (VStr s) \<Rightarrow> Some s | _ \<Rightarrow> None)"

definition hash_of :: "rval option \<Rightarrow> (string \<times> string) list" where
  "hash_of v = (case v of Some (VHash h) \<Rightarrow> h | _ \<Rightarrow> [])"

definition set_of :: "rval option \<Rightarrow> string set" where
  "set_of v = (case v of Some (VSet s) \<Rightarrow> s | _ \<Rightarrow> {})"

definition zset_of :: "rval option \<Rightarrow> (int \<times> string) list" where
  "zset_of v = (case v of Some (VZset z) \<Rightarrow> z | _ \<Rightarrow> [])"

definition num_of :: "rval option \<Rightarrow> int" where
  "num_of v = (case str_of v of None \<Rightarrow> 0 | Some s \<Rightarrow> (case int_of_string s of None \<Rightarrow> 0 | Some n \<Rightarrow> n))"

abbreviation "lst db k \<equiv> list_of (kv db k)"
abbreviation "str db k \<equiv> str_of (kv db k)"
abbreviation "hsh db k \<equiv> hash_of (kv db k)"
abbreviation "smem db k \<equiv> set_of (kv db k)"
abbreviation "zst db k \<equiv> zset_of (kv db k)"
abbreviation "num db k \<equiv> num_of (kv db k)"
abbreviation "hget db k f \<equiv> map_of (hash_of (kv db k)) f"

definition list_type :: "rval option \<Rightarrow> bool" where
  "list_type v = (case v of None \<Rightarrow> True | Some (VList _) \<Rightarrow> True | _ \<Rightarrow> False)"

definition str_type :: "rval option \<Rightarrow> bool" where
  "str_type v = (case v of None \<Rightarrow> True | Some (VStr _) \<Rightarrow> True | _ \<Rightarrow> False)"

definition hash_type :: "rval option \<Rightarrow> bool" where
  "hash_type v = (case v of None \<Rightarrow> True | Some (VHash _) \<Rightarrow> True | _ \<Rightarrow> False)"

definition set_type :: "rval option \<Rightarrow> bool" where
  "set_type v = (case v of None \<Rightarrow> True | Some (VSet _) \<Rightarrow> True | _ \<Rightarrow> False)"

definition zset_type :: "rval option \<Rightarrow> bool" where
  "zset_type v = (case v of None \<Rightarrow> True | Some (VZset _) \<Rightarrow> True | _ \<Rightarrow> False)"

text \<open>Integers as Redis writes them, without leading zeros.\<close>

definition int_text :: "string \<Rightarrow> bool" where
  "int_text s = (case int_of_string s of None \<Rightarrow> False | Some n \<Rightarrow> in_i64 n \<and> s = string_of_int n)"

text \<open>Scores are doubles: exact for these integers. Offsets and counts are \<open>long\<close> values.\<close>

definition score_ok :: "int \<Rightarrow> bool" where
  "score_ok s \<longleftrightarrow> \<bar>s\<bar> \<le> 2 ^ 53"

definition limit_ok :: "(nat \<times> nat) option \<Rightarrow> bool" where
  "limit_ok lmt = (case lmt of None \<Rightarrow> True | Some (off, cnt) \<Rightarrow> in_i64 (int off) \<and> in_i64 (int cnt))"

definition num_type :: "rval option \<Rightarrow> bool" where
  "num_type v = (case v of None \<Rightarrow> True | Some (VStr s) \<Rightarrow> int_text s | _ \<Rightarrow> False)"

text \<open>Containers as stored: Redis removes a key when its container becomes empty.\<close>

definition vlist :: "string list \<Rightarrow> rval option" where
  "vlist xs = (if xs = [] then None else Some (VList xs))"

definition vhash :: "(string \<times> string) list \<Rightarrow> rval option" where
  "vhash h = (if h = [] then None else Some (VHash h))"

definition vset :: "string set \<Rightarrow> rval option" where
  "vset s = (if s = {} then None else Some (VSet s))"

definition vzset :: "(int \<times> string) list \<Rightarrow> rval option" where
  "vzset z = (if z = [] then None else Some (VZset z))"

definition vint :: "int \<Rightarrow> rval option" where
  "vint n = Some (VStr (string_of_int n))"

definition hput :: "string \<Rightarrow> string \<Rightarrow> (string \<times> string) list \<Rightarrow> (string \<times> string) list" where
  "hput f v h = (f, v) # filter (\<lambda>x. fst x \<noteq> f) h"

definition hset_all :: "(string \<times> string) list \<Rightarrow> (string \<times> string) list \<Rightarrow> (string \<times> string) list" where
  "hset_all h fvs = foldl (\<lambda>h (f, v). hput f v h) h fvs"

definition hdel :: "string \<Rightarrow> (string \<times> string) list \<Rightarrow> (string \<times> string) list" where
  "hdel f h = filter (\<lambda>x. fst x \<noteq> f) h"

definition hnum :: "(string \<times> string) list \<Rightarrow> string \<Rightarrow> int" where
  "hnum h f = (case map_of h f of None \<Rightarrow> 0 | Some s \<Rightarrow> (case int_of_string s of None \<Rightarrow> 0 | Some n \<Rightarrow> n))"

definition hnum_ok :: "(string \<times> string) list \<Rightarrow> string \<Rightarrow> bool" where
  "hnum_ok h f = (case map_of h f of None \<Rightarrow> True | Some s \<Rightarrow> int_text s)"

definition zadd :: "int \<Rightarrow> string \<Rightarrow> (int \<times> string) list \<Rightarrow> (int \<times> string) list" where
  "zadd s m z = insort (s, m) (filter (\<lambda>x. snd x \<noteq> m) z)"

definition zrem :: "string \<Rightarrow> (int \<times> string) list \<Rightarrow> (int \<times> string) list" where
  "zrem m z = filter (\<lambda>x. snd x \<noteq> m) z"

text \<open>Elements with a score between two bounds (\<open>None\<close> is infinite), by score and member.\<close>

definition zrange :: "int option \<Rightarrow> int option \<Rightarrow> (int \<times> string) list \<Rightarrow> (int \<times> string) list" where
  "zrange lo hi z =
     filter (\<lambda>(s, m). (case lo of None \<Rightarrow> True | Some l \<Rightarrow> l \<le> s) \<and>
                      (case hi of None \<Rightarrow> True | Some h \<Rightarrow> s \<le> h)) z"

definition zlimit :: "(nat \<times> nat) option \<Rightarrow> 'a list \<Rightarrow> 'a list" where
  "zlimit lmt xs = (case lmt of None \<Rightarrow> xs | Some (off, cnt) \<Rightarrow> take cnt (drop off xs))"

section \<open>Commands and replies\<close>

datatype reply =
    RNil
  | RInt int
  | RBulk string
  | RStatus string
  | RArr "reply list"
  | RErr string

text \<open>The commands the program sends, with the argument forms it uses.\<close>

datatype cmd =
    GET string
  | SET string string
  | SET_EX string string int
  | SET_NX_EX string string int
  | DEL string
  | EXPIRE string int
  | INCR string
  | DECR string
  | DECRBY string int
  | LLEN string
  | LPUSH string string
  | LREM string string
  | LINDEX_LAST string
  | RPOPLPUSH string string
  | SADD string "string list"
  | SREM string string
  | SMEMBERS string
  | HGET string string
  | HMSET string "(string \<times> string) list"
  | HINCRBY string string int
  | HDEL string string
  | HGETALL string
  | ZADD string int string
  | ZREM string string
  | ZCARD string
  | ZRANGEBYSCORE string "int option" "int option" "(nat \<times> nat) option"
  | ZRANGEBYSCORE_WITHSCORES string "int option" "int option" "(nat \<times> nat) option"
  | WAIT int int
  | KEYS string

datatype rerr =
    ErrNil
  | NetErr
  | ServerErr string
  | ReplyErr

type_synonym script = "keyspace \<Rightarrow> reply \<times> keyspace"

text \<open>
  \<open>call\<close> runs one command on the server; \<open>cjson_decode\<close> and \<open>cjson_encode\<close> are the Lua library
  (a Lua table is represented by the document it encodes); \<open>exec\<close> sends a command, a transaction
  or a script over a connection and waits for the reply; the other fields are the reply helpers of
  the client library. \<open>'w\<close> is the world outside the program.
\<close>

record 'w redis =
  call :: "cmd \<Rightarrow> keyspace \<Rightarrow> reply \<times> keyspace"
  cjson_decode :: "string \<Rightarrow> json option"
  cjson_encode :: "json \<Rightarrow> string"
  exec :: "script \<Rightarrow> 'w \<Rightarrow> (rerr + reply) \<times> 'w"
  redis_Int64 :: "reply \<Rightarrow> rerr + int"
  redis_String :: "reply \<Rightarrow> rerr + string"
  redis_Values :: "reply \<Rightarrow> rerr + reply list"
  redis_Strings :: "reply \<Rightarrow> rerr + string list"
  redis_ScanSlice :: "reply list \<Rightarrow> rerr + (string \<times> int) list"

definition opt_bulk :: "string option \<Rightarrow> reply" where
  "opt_bulk s = (case s of None \<Rightarrow> RNil | Some t \<Rightarrow> RBulk t)"

fun flat_pairs :: "(string \<times> string) list \<Rightarrow> string list" where
  "flat_pairs [] = []"
| "flat_pairs ((a, b) # ps) = a # b # flat_pairs ps"

section \<open>Observing updates\<close>

lemma kv_upd [obs_simps]: "kv (upd k v db) k' = (if k' = k then v else kv db k')"
  by (simp add: upd_def)

lemma kv_set_ttl [obs_simps]: "kv (set_ttl k t db) = kv db"
  by (simp add: set_ttl_def)

lemma ttl_upd [obs_simps]:
  "ttl (upd k v db) k' = (if k' = k \<and> v = None then None else ttl db k')"
  by (simp add: upd_def)

lemma ttl_set_ttl [obs_simps]: "ttl (set_ttl k t db) k' = (if k' = k then t else ttl db k')"
  by (simp add: set_ttl_def)

lemma container_reads [simp]:
  "list_of (vlist xs) = xs" "hash_of (vhash h) = h" "set_of (vset A) = A" "zset_of (vzset z) = z"
  "list_of None = []" "hash_of None = []" "set_of None = {}" "zset_of None = []"
  "str_of None = None" "str_of (Some (VStr s)) = Some s"
  "str_of (vint n) = Some (string_of_int n)" "num_of (vint n) = n" "num_of None = 0"
  by (simp_all add: list_of_def hash_of_def set_of_def zset_of_def str_of_def num_of_def
      vlist_def vhash_def vset_def vzset_def vint_def)

lemma container_types [simp]:
  "list_type (vlist xs)" "hash_type (vhash h)" "set_type (vset A)" "zset_type (vzset z)"
  "str_type (Some (VStr s))" "in_i64 n \<Longrightarrow> num_type (vint n)" "str_type (vint n)"
  "list_type None" "hash_type None" "set_type None" "zset_type None" "str_type None" "num_type None"
  by (simp_all add: list_type_def hash_type_def set_type_def zset_type_def str_type_def
      num_type_def int_text_def vlist_def vhash_def vset_def vzset_def vint_def)

lemma num_type_str [simp]: "num_type v \<Longrightarrow> str_type v"
  by (auto simp: num_type_def str_type_def split: option.splits rval.splits)

lemma num_type_range: "num_type v \<Longrightarrow> in_i64 (num_of v)"
  by (auto simp: num_type_def num_of_def str_of_def int_text_def in_i64_def
      split: option.splits rval.splits)

lemma hget_hput [simp]: "map_of (hput f v h) g = (if g = f then Some v else map_of h g)"
  by (induction h) (auto simp: hput_def)

lemma map_of_hset_all: "map_of (hset_all h fvs) f = (case map_of (rev fvs) f of None \<Rightarrow> map_of h f | Some v \<Rightarrow> Some v)"
  by (induction fvs rule: rev_induct) (auto simp: hset_all_def)

lemma hset_all_nonempty: "fvs \<noteq> [] \<Longrightarrow> hset_all h fvs \<noteq> []"
  by (cases fvs rule: rev_cases) (auto simp: hset_all_def hput_def)

lemma hget_hdel [simp]: "map_of (hdel f h) g = (if g = f then None else map_of h g)"
  by (induction h) (auto simp: hdel_def)

lemma hnum_hput [simp]: "hnum (hput f (string_of_int n) h) g = (if g = f then n else hnum h g)"
  by (simp add: hnum_def)

lemma hnum_hdel [simp]: "hnum (hdel f h) g = (if g = f then 0 else hnum h g)"
  by (simp add: hnum_def)

lemma hnum_ok_hput [simp]:
  "hnum_ok (hput f (string_of_int n) h) g = (if g = f then in_i64 n else hnum_ok h g)"
  by (simp add: hnum_ok_def int_text_def)

lemma hnum_ok_hdel [simp]: "hnum_ok (hdel f h) g = (g = f \<or> hnum_ok h g)"
  by (auto simp: hnum_ok_def)

section \<open>What the documentation promises\<close>

text \<open>
  The commands. Each law is the effect of a command on keys of the type it expects; a command that
  fails leaves the keyspace alone. \<open>SMEMBERS\<close> and \<open>HGETALL\<close> list their elements in no particular
  order. Counters stay within 64 bits, which is where the documentation stops.
\<close>

locale redis_server =
  fixes R :: "'w redis"
  assumes call_error: "call R c db = (RErr e, db') \<Longrightarrow> db' = db"
    and get: "str_type (kv db k) \<Longrightarrow> call R (GET k) db = (opt_bulk (str db k), db)"
    and set: "call R (SET k v) db = (RStatus ''OK'', set_ttl k None (upd k (Some (VStr v)) db))"
    and set_ex: "call R (SET_EX k v t) db = (RStatus ''OK'', set_ttl k (Some t) (upd k (Some (VStr v)) db))"
    and set_nx_new: "kv db k = None \<Longrightarrow>
      call R (SET_NX_EX k v t) db = (RStatus ''OK'', set_ttl k (Some t) (upd k (Some (VStr v)) db))"
    and set_nx_old: "kv db k \<noteq> None \<Longrightarrow> call R (SET_NX_EX k v t) db = (RNil, db)"
    and del: "call R (DEL k) db = (RInt (if kv db k = None then 0 else 1), upd k None db)"
    and expire: "call R (EXPIRE k t) db =
      (if kv db k = None then (RInt 0, db) else (RInt 1, set_ttl k (Some t) db))"
    and incr: "num_type (kv db k) \<Longrightarrow> in_i64 (num db k + 1) \<Longrightarrow>
      call R (INCR k) db = (RInt (num db k + 1), upd k (vint (num db k + 1)) db)"
    and decr: "num_type (kv db k) \<Longrightarrow> in_i64 (num db k - 1) \<Longrightarrow>
      call R (DECR k) db = (RInt (num db k - 1), upd k (vint (num db k - 1)) db)"
    and decrby: "num_type (kv db k) \<Longrightarrow> in_i64 (- n) \<Longrightarrow> in_i64 (num db k - n) \<Longrightarrow>
      call R (DECRBY k n) db = (RInt (num db k - n), upd k (vint (num db k - n)) db)"
    and llen: "list_type (kv db k) \<Longrightarrow> call R (LLEN k) db = (RInt (int (length (lst db k))), db)"
    and lpush: "list_type (kv db k) \<Longrightarrow>
      call R (LPUSH k v) db = (RInt (int (length (lst db k)) + 1), upd k (vlist (v # lst db k)) db)"
    and lrem: "list_type (kv db k) \<Longrightarrow>
      call R (LREM k v) db =
        (RInt (if v \<in> set (lst db k) then 1 else 0), upd k (vlist (remove1 v (lst db k))) db)"
    and lindex_last: "list_type (kv db k) \<Longrightarrow>
      call R (LINDEX_LAST k) db = (if lst db k = [] then RNil else RBulk (last (lst db k)), db)"
    and rpoplpush_empty: "list_type (kv db a) \<Longrightarrow> lst db a = [] \<Longrightarrow> call R (RPOPLPUSH a b) db = (RNil, db)"
    and rpoplpush: "list_type (kv db a) \<Longrightarrow> list_type (kv db b) \<Longrightarrow> a \<noteq> b \<Longrightarrow> lst db a \<noteq> [] \<Longrightarrow>
      call R (RPOPLPUSH a b) db =
        (RBulk (last (lst db a)),
         upd b (vlist (last (lst db a) # lst db b)) (upd a (vlist (butlast (lst db a))) db))"
    and sadd: "set_type (kv db k) \<Longrightarrow> \<exists>n. call R (SADD k xs) db = (RInt n, upd k (vset (smem db k \<union> set xs)) db)"
    and srem: "set_type (kv db k) \<Longrightarrow> \<exists>n. call R (SREM k x) db = (RInt n, upd k (vset (smem db k - {x})) db)"
    and smembers: "set_type (kv db k) \<Longrightarrow> finite (smem db k) \<Longrightarrow>
      \<exists>xs. call R (SMEMBERS k) db = (RArr (map RBulk xs), db) \<and> distinct xs \<and> set xs = smem db k"
    and hget: "hash_type (kv db k) \<Longrightarrow> call R (HGET k f) db = (opt_bulk (hget db k f), db)"
    and hmset: "hash_type (kv db k) \<Longrightarrow>
      call R (HMSET k fvs) db =
        (RStatus ''OK'', upd k (vhash (hset_all (hsh db k) fvs)) db)"
    and hincrby: "hash_type (kv db k) \<Longrightarrow> hnum_ok (hsh db k) f \<Longrightarrow> in_i64 (hnum (hsh db k) f + n) \<Longrightarrow>
      call R (HINCRBY k f n) db =
        (RInt (hnum (hsh db k) f + n),
         upd k (vhash (hput f (string_of_int (hnum (hsh db k) f + n)) (hsh db k))) db)"
    and hdel: "hash_type (kv db k) \<Longrightarrow> \<exists>n. call R (HDEL k f) db = (RInt n, upd k (vhash (hdel f (hsh db k))) db)"
    and hgetall: "hash_type (kv db k) \<Longrightarrow>
      \<exists>ps. call R (HGETALL k) db = (RArr (map RBulk (flat_pairs ps)), db) \<and>
           distinct (map fst ps) \<and> map_of ps = map_of (hsh db k)"
    and zadd: "zset_type (kv db k) \<Longrightarrow> score_ok s \<Longrightarrow>
      \<exists>n. call R (ZADD k s m) db = (RInt n, upd k (vzset (zadd s m (zst db k))) db)"
    and zrem: "zset_type (kv db k) \<Longrightarrow> \<exists>n. call R (ZREM k m) db = (RInt n, upd k (vzset (zrem m (zst db k))) db)"
    and zcard: "zset_type (kv db k) \<Longrightarrow> call R (ZCARD k) db = (RInt (int (length (zst db k))), db)"
    and zrangebyscore: "zset_type (kv db k) \<Longrightarrow> limit_ok lmt \<Longrightarrow>
      call R (ZRANGEBYSCORE k lo hi lmt) db =
        (RArr (map (\<lambda>x. RBulk (snd x)) (zlimit lmt (zrange lo hi (zst db k)))), db)"
    and zrangebyscore_ws: "zset_type (kv db k) \<Longrightarrow> limit_ok lmt \<Longrightarrow> \<forall>x\<in>set (zst db k). score_ok (fst x) \<Longrightarrow>
      call R (ZRANGEBYSCORE_WITHSCORES k lo hi lmt) db =
        (RArr (concat (map (\<lambda>x. [RBulk (snd x), RBulk (string_of_int (fst x))])
           (zlimit lmt (zrange lo hi (zst db k))))), db)"
    and wait: "\<exists>n. 0 \<le> n \<and> call R (WAIT numreplicas t) db = (RInt n, db)"


text \<open>
  The Lua library. Decoding a document gives its value. Encoding gives a text of the same value,
  with the members of objects in any order. Both hold for documents that Lua tables represent
  faithfully: no empty array (it becomes an empty object), no repeated key, and integers of at
  most 14 digits (the precision of the encoder).
\<close>

fun jcanon :: "json \<Rightarrow> json" and canon_elems :: "json list \<Rightarrow> json list"
  and canon_members :: "(string \<times> json) list \<Rightarrow> (string \<times> json) list" where
  "jcanon (JArr vs) = JArr (canon_elems vs)"
| "jcanon (JObj kvs) = JObj (sort_key fst (canon_members kvs))"
| "jcanon v = v"
| "canon_elems [] = []"
| "canon_elems (v # vs) = jcanon v # canon_elems vs"
| "canon_members [] = []"
| "canon_members ((k, v) # kvs) = (k, jcanon v) # canon_members kvs"

definition lua_int_text :: "string \<Rightarrow> bool" where
  "lua_int_text s = (case int_of_string s of None \<Rightarrow> False | Some n \<Rightarrow> \<bar>n\<bar> < 10 ^ 14 \<and> s = string_of_int n)"

fun cjson_safe :: "json \<Rightarrow> bool" and safe_elems :: "json list \<Rightarrow> bool"
  and safe_members :: "(string \<times> json) list \<Rightarrow> bool" where
  "cjson_safe (JNum s) = lua_int_text s"
| "cjson_safe (JArr vs) = (vs \<noteq> [] \<and> safe_elems vs)"
| "cjson_safe (JObj kvs) = (distinct (map fst kvs) \<and> safe_members kvs)"
| "cjson_safe _ = True"
| "safe_elems [] = True"
| "safe_elems (v # vs) = (cjson_safe v \<and> safe_elems vs)"
| "safe_members [] = True"
| "safe_members ((k, v) # kvs) = (cjson_safe v \<and> safe_members kvs)"

locale lua_cjson =
  fixes R :: "'w redis"
  assumes cjson_decode: "json_parse s = Some v \<Longrightarrow> cjson_safe v \<Longrightarrow> cjson_decode R s = Some v"
    and cjson_encode: "cjson_safe v \<Longrightarrow>
      \<exists>v'. json_parse (cjson_encode R v) = Some v' \<and> jcanon v' = jcanon v"

text \<open>
  The connection. \<open>db\<close> is the keyspace the world holds and \<open>up\<close> says that the server can be
  reached. A request that succeeds ran once and its reply came back; a request that fails with
  \<open>ServerErr\<close> was answered by an error; one that fails otherwise ran at most once. While the server
  can be reached every request is answered.
\<close>

definition is_err :: "reply \<Rightarrow> bool" where
  "is_err r = (case r of RErr _ \<Rightarrow> True | _ \<Rightarrow> False)"

definition answer :: "reply \<Rightarrow> rerr + reply" where
  "answer r = (case r of RErr e \<Rightarrow> Inl (ServerErr e) | _ \<Rightarrow> Inr r)"

locale redis_conn =
  fixes R :: "'w redis" and db :: "'w \<Rightarrow> keyspace" and up :: "'w \<Rightarrow> bool"
  assumes exec_ok: "exec R f w = (Inr r, w') \<Longrightarrow> f (db w) = (r, db w') \<and> \<not> is_err r"
    and exec_server_error: "exec R f w = (Inl (ServerErr msg), w') \<Longrightarrow> f (db w) = (RErr msg, db w')"
    and exec_error: "exec R f w = (Inl e, w') \<Longrightarrow> db w' = db w \<or> db w' = snd (f (db w))"
    and exec_up: "up w \<Longrightarrow> f (db w) = (r, d) \<Longrightarrow> \<exists>w'. exec R f w = (answer r, w') \<and> db w' = d \<and> up w'"
    and Int64_int: "redis_Int64 R (RInt n) = Inr n"
    and Int64_nil: "redis_Int64 R RNil = Inl ErrNil"
    and Int64_bulk: "int_of_string s = Some n \<Longrightarrow> in_i64 n \<Longrightarrow> redis_Int64 R (RBulk s) = Inr n"
    and String_bulk: "redis_String R (RBulk s) = Inr s"
    and String_status: "redis_String R (RStatus s) = Inr s"
    and String_nil: "redis_String R RNil = Inl ErrNil"
    and Values_arr: "redis_Values R (RArr rs) = Inr rs"
    and Values_nil: "redis_Values R RNil = Inl ErrNil"
    and Strings_arr: "redis_Strings R (RArr (map RBulk ss)) = Inr ss"
    and ScanSlice_pairs: "\<forall>x\<in>set xs. in_i64 (fst x) \<Longrightarrow>
      redis_ScanSlice R (concat (map (\<lambda>x. [RBulk (snd x), RBulk (string_of_int (fst x))]) xs)) =
        Inr (map (\<lambda>x. (snd x, fst x)) xs)"

section \<open>An in-memory server\<close>

text \<open>
  Every command on every type of value. A world is a keyspace and the list of network faults that
  the next requests will meet.
\<close>

definition wrong_type :: "keyspace \<Rightarrow> reply \<times> keyspace" where
  "wrong_type db = (RErr ''WRONGTYPE Operation against a key holding the wrong kind of value'', db)"

definition not_int :: "keyspace \<Rightarrow> reply \<times> keyspace" where
  "not_int db = (RErr ''ERR value is not an integer or out of range'', db)"

definition mem_add :: "string \<Rightarrow> int \<Rightarrow> keyspace \<Rightarrow> reply \<times> keyspace" where
  "mem_add k n db =
     (if \<not> str_type (kv db k) then wrong_type db
      else if \<not> num_type (kv db k) \<or> \<not> in_i64 (num db k + n) then not_int db
      else (RInt (num db k + n), upd k (vint (num db k + n)) db))"

definition mem_set :: "string \<Rightarrow> string \<Rightarrow> int option \<Rightarrow> keyspace \<Rightarrow> reply \<times> keyspace" where
  "mem_set k v t db = (RStatus ''OK'', set_ttl k t (upd k (Some (VStr v)) db))"

definition starts_with :: "string \<Rightarrow> string \<Rightarrow> bool" where
  "starts_with p k \<longleftrightarrow> take (length p) k = p"

text \<open>Patterns with a star at the end, if anywhere.\<close>

definition star_match :: "string \<Rightarrow> string \<Rightarrow> bool" where
  "star_match pat k \<longleftrightarrow> (if pat \<noteq> [] \<and> last pat = CHR ''*'' then starts_with (butlast pat) k else k = pat)"

fun mem_call :: "cmd \<Rightarrow> keyspace \<Rightarrow> reply \<times> keyspace" where
  "mem_call (GET k) db = (if str_type (kv db k) then (opt_bulk (str db k), db) else wrong_type db)"
| "mem_call (SET k v) db = mem_set k v None db"
| "mem_call (SET_EX k v t) db = mem_set k v (Some t) db"
| "mem_call (SET_NX_EX k v t) db = (if kv db k = None then mem_set k v (Some t) db else (RNil, db))"
| "mem_call (DEL k) db = (RInt (if kv db k = None then 0 else 1), upd k None db)"
| "mem_call (EXPIRE k t) db = (if kv db k = None then (RInt 0, db) else (RInt 1, set_ttl k (Some t) db))"
| "mem_call (INCR k) db = mem_add k 1 db"
| "mem_call (DECR k) db = mem_add k (- 1) db"
| "mem_call (DECRBY k n) db = mem_add k (- n) db"
| "mem_call (LLEN k) db =
     (if list_type (kv db k) then (RInt (int (length (lst db k))), db) else wrong_type db)"
| "mem_call (LPUSH k v) db =
     (if list_type (kv db k) then (RInt (int (length (lst db k)) + 1), upd k (vlist (v # lst db k)) db)
      else wrong_type db)"
| "mem_call (LREM k v) db =
     (if list_type (kv db k) then
        (RInt (if v \<in> set (lst db k) then 1 else 0), upd k (vlist (remove1 v (lst db k))) db)
      else wrong_type db)"
| "mem_call (LINDEX_LAST k) db =
     (if list_type (kv db k) then (if lst db k = [] then RNil else RBulk (last (lst db k)), db)
      else wrong_type db)"
| "mem_call (RPOPLPUSH a b) db =
     (if \<not> list_type (kv db a) then wrong_type db
      else if lst db a = [] then (RNil, db)
      else if \<not> list_type (kv db b) then wrong_type db
      else
        (let x = last (lst db a); db' = upd a (vlist (butlast (lst db a))) db
         in (RBulk x, upd b (vlist (x # lst db' b)) db')))"
| "mem_call (SADD k xs) db =
     (if set_type (kv db k) then
        (RInt (int (card (set xs - smem db k))), upd k (vset (smem db k \<union> set xs)) db)
      else wrong_type db)"
| "mem_call (SREM k x) db =
     (if set_type (kv db k) then
        (RInt (if x \<in> smem db k then 1 else 0), upd k (vset (smem db k - {x})) db)
      else wrong_type db)"
| "mem_call (SMEMBERS k) db =
     (if set_type (kv db k) then (RArr (map RBulk (sorted_list_of_set (smem db k))), db)
      else wrong_type db)"
| "mem_call (HGET k f) db =
     (if hash_type (kv db k) then (opt_bulk (hget db k f), db) else wrong_type db)"
| "mem_call (HMSET k fvs) db =
     (if hash_type (kv db k) then
        (RStatus ''OK'', upd k (vhash (hset_all (hsh db k) fvs)) db)
      else wrong_type db)"
| "mem_call (HINCRBY k f n) db =
     (if \<not> hash_type (kv db k) then wrong_type db
      else if \<not> hnum_ok (hsh db k) f \<or> \<not> in_i64 (hnum (hsh db k) f + n) then not_int db
      else
        (RInt (hnum (hsh db k) f + n),
         upd k (vhash (hput f (string_of_int (hnum (hsh db k) f + n)) (hsh db k))) db))"
| "mem_call (HDEL k f) db =
     (if hash_type (kv db k) then
        (RInt (if hget db k f = None then 0 else 1), upd k (vhash (hdel f (hsh db k))) db)
      else wrong_type db)"
| "mem_call (HGETALL k) db =
     (if hash_type (kv db k) then
        (RArr (map RBulk (flat_pairs
           (map (\<lambda>f. (f, the (hget db k f))) (remdups (map fst (hsh db k)))))), db)
      else wrong_type db)"
| "mem_call (ZADD k s m) db =
     (if zset_type (kv db k) then
        (RInt (if m \<in> snd ` set (zst db k) then 0 else 1), upd k (vzset (zadd s m (zst db k))) db)
      else wrong_type db)"
| "mem_call (ZREM k m) db =
     (if zset_type (kv db k) then
        (RInt (if m \<in> snd ` set (zst db k) then 1 else 0), upd k (vzset (zrem m (zst db k))) db)
      else wrong_type db)"
| "mem_call (ZCARD k) db =
     (if zset_type (kv db k) then (RInt (int (length (zst db k))), db) else wrong_type db)"
| "mem_call (ZRANGEBYSCORE k lo hi lmt) db =
     (if zset_type (kv db k) then
        (RArr (map (\<lambda>x. RBulk (snd x)) (zlimit lmt (zrange lo hi (zst db k)))), db)
      else wrong_type db)"
| "mem_call (ZRANGEBYSCORE_WITHSCORES k lo hi lmt) db =
     (if zset_type (kv db k) then
        (RArr (concat (map (\<lambda>x. [RBulk (snd x), RBulk (string_of_int (fst x))])
           (zlimit lmt (zrange lo hi (zst db k))))), db)
      else wrong_type db)"
| "mem_call (WAIT a b) db = (RInt 0, db)"
| "mem_call (KEYS pat) db = (RArr (map RBulk (sorted_list_of_set {k. kv db k \<noteq> None \<and> star_match pat k})), db)"

datatype fault = LostRequest | LostReply

record mem_world =
  mem_db :: keyspace
  mem_faults :: "fault list"

definition mem_exec :: "script \<Rightarrow> mem_world \<Rightarrow> (rerr + reply) \<times> mem_world" where
  "mem_exec f w =
     (case mem_faults w of
        LostRequest # fs \<Rightarrow> (Inl NetErr, w\<lparr>mem_faults := fs\<rparr>)
      | LostReply # fs \<Rightarrow> (Inl NetErr, w\<lparr>mem_db := snd (f (mem_db w)), mem_faults := fs\<rparr>)
      | [] \<Rightarrow> (case f (mem_db w) of (r, d) \<Rightarrow> (answer r, w\<lparr>mem_db := d\<rparr>)))"

definition mem_Int64 :: "reply \<Rightarrow> rerr + int" where
  "mem_Int64 r =
     (case r of
        RInt n \<Rightarrow> Inr n
      | RBulk s \<Rightarrow> (case int_of_string s of Some n \<Rightarrow> if in_i64 n then Inr n else Inl ReplyErr | None \<Rightarrow> Inl ReplyErr)
      | RNil \<Rightarrow> Inl ErrNil
      | _ \<Rightarrow> Inl ReplyErr)"

definition mem_String :: "reply \<Rightarrow> rerr + string" where
  "mem_String r = (case r of RBulk s \<Rightarrow> Inr s | RStatus s \<Rightarrow> Inr s | RNil \<Rightarrow> Inl ErrNil | _ \<Rightarrow> Inl ReplyErr)"

definition mem_Values :: "reply \<Rightarrow> rerr + reply list" where
  "mem_Values r = (case r of RArr rs \<Rightarrow> Inr rs | RNil \<Rightarrow> Inl ErrNil | _ \<Rightarrow> Inl ReplyErr)"

fun bulk_texts :: "reply list \<Rightarrow> string list option" where
  "bulk_texts [] = Some []"
| "bulk_texts (RBulk s # rs) = map_option (Cons s) (bulk_texts rs)"
| "bulk_texts (_ # rs) = None"

definition mem_Strings :: "reply \<Rightarrow> rerr + string list" where
  "mem_Strings r =
     (case r of
        RArr rs \<Rightarrow> (case bulk_texts rs of Some ss \<Rightarrow> Inr ss | None \<Rightarrow> Inl ReplyErr)
      | RNil \<Rightarrow> Inl ErrNil
      | _ \<Rightarrow> Inl ReplyErr)"

fun mem_ScanSlice :: "reply list \<Rightarrow> rerr + (string \<times> int) list" where
  "mem_ScanSlice [] = Inr []"
| "mem_ScanSlice (RBulk s # r # rs) =
     (case mem_Int64 r of Inl e \<Rightarrow> Inl e | Inr n \<Rightarrow> map_sum id (Cons (s, n)) (mem_ScanSlice rs))"
| "mem_ScanSlice _ = Inl ReplyErr"

definition mem_redis :: "mem_world redis" where
  "mem_redis = \<lparr>call = mem_call, cjson_decode = json_parse, cjson_encode = json_print,
     exec = mem_exec, redis_Int64 = mem_Int64, redis_String = mem_String,
     redis_Values = mem_Values, redis_Strings = mem_Strings, redis_ScanSlice = mem_ScanSlice\<rparr>"

definition mem_up :: "mem_world \<Rightarrow> bool" where
  "mem_up w \<longleftrightarrow> mem_faults w = []"

lemma mem_redis_simps [simp]:
  "call mem_redis = mem_call" "cjson_decode mem_redis = json_parse"
  "cjson_encode mem_redis = json_print" "exec mem_redis = mem_exec"
  "redis_Int64 mem_redis = mem_Int64" "redis_String mem_redis = mem_String"
  "redis_Values mem_redis = mem_Values" "redis_Strings mem_redis = mem_Strings"
  "redis_ScanSlice mem_redis = mem_ScanSlice"
  by (simp_all add: mem_redis_def)

lemma bulk_texts_map [simp]: "bulk_texts (map RBulk ss) = Some ss"
  by (induction ss) auto

lemma mem_call_error: "mem_call c db = (RErr e, db') \<Longrightarrow> db' = db"
  by (cases c) (auto simp: wrong_type_def not_int_def mem_add_def mem_set_def opt_bulk_def Let_def
      split: if_splits option.splits)

lemma map_of_remdups_keys: "map_of (map (\<lambda>f. (f, the (map_of h f))) (remdups (map fst h))) = map_of h"
proof
  fix f
  show "map_of (map (\<lambda>f. (f, the (map_of h f))) (remdups (map fst h))) f = map_of h f"
    using map_of_eq_None_iff [of h f]
    by (cases "map_of h f") (simp_all add: map_of_map_restrict restrict_map_def)
qed

lemma mem_hgetall:
  "hash_type (kv db k) \<Longrightarrow>
   \<exists>ps. mem_call (HGETALL k) db = (RArr (map RBulk (flat_pairs ps)), db) \<and>
        distinct (map fst ps) \<and> map_of ps = map_of (hsh db k)"
  by (rule exI [of _ "map (\<lambda>f. (f, the (hget db k f))) (remdups (map fst (hsh db k)))"])
    (simp add: map_of_remdups_keys o_def)

interpretation mem: redis_server mem_redis
  using mem_call_error mem_hgetall
  by unfold_locales (auto simp: mem_add_def mem_set_def obs_simps Let_def simp del: mem_call.simps(22))

lemma lua_int_text_wf:
  assumes "lua_int_text s"
  shows "list_all is_numchar s \<and> lit_parse s \<noteq> None"
proof -
  from assms obtain n where "s = string_of_int n"
    by (auto simp: lua_int_text_def split: option.splits)
  then show ?thesis by simp
qed

lemma cjson_safe_wf:
  "cjson_safe v \<Longrightarrow> json_wf v"
  "safe_elems vs \<Longrightarrow> list_all json_wf vs"
  "safe_members kvs \<Longrightarrow> list_all (\<lambda>(k, v). json_wf v) kvs"
  by (induction v and vs and kvs rule: cjson_safe_safe_elems_safe_members.induct)
    (auto simp: lua_int_text_wf)

interpretation mem_cjson: lua_cjson mem_redis
  by unfold_locales (auto simp: json_parse_print cjson_safe_wf)

lemma mem_ScanSlice_pairs:
  "\<forall>x\<in>set xs. in_i64 (fst x) \<Longrightarrow>
   mem_ScanSlice (concat (map (\<lambda>x. [RBulk (snd x), RBulk (string_of_int (fst x))]) xs)) =
     Inr (map (\<lambda>x. (snd x, fst x)) xs)"
  by (induction xs) (simp_all add: mem_Int64_def)

interpretation mem_conn: redis_conn mem_redis mem_db mem_up
  by unfold_locales
    (auto simp: mem_ScanSlice_pairs mem_exec_def mem_up_def answer_def is_err_def mem_Int64_def mem_String_def
      mem_Values_def mem_Strings_def split: list.splits fault.splits prod.splits reply.splits)

end
