(* ===== verification/Redis_Scripts.thy ===== *)
theory Redis_Scripts
  imports Redis_Server
begin

text \<open>
  The Lua scripts of \<open>redis.go\<close>. A script runs inside the server, uninterrupted, as a sequence of
  \<open>redis.call\<close>s; a failing call or a Lua error aborts it and keeps what was done before. Theory
  \<open>Script_Effects\<close> gives the effect of each script.
\<close>

section \<open>Lua inside Redis\<close>

type_synonym 'a lua = "(keyspace, string, 'a) act"

definition rcall :: "'w redis \<Rightarrow> cmd \<Rightarrow> reply lua" where
  "rcall R c = (\<lambda>db. case call R c db of (r, db') \<Rightarrow> (case r of RErr e \<Rightarrow> (Inl e, db') | _ \<Rightarrow> (Inr r, db')))"

definition run_script :: "reply lua \<Rightarrow> script" where
  "run_script m = (\<lambda>db. case m db of (Inl e, db') \<Rightarrow> (RErr e, db') | (Inr r, db') \<Rightarrow> (r, db'))"

text \<open>\<open>tonumber\<close> of a reply holding a decimal integer; \<open>None\<close> is Lua's nil.\<close>

definition tonumber :: "reply \<Rightarrow> int option" where
  "tonumber r = (case r of RBulk s \<Rightarrow> int_of_string s | RInt n \<Rightarrow> Some n | _ \<Rightarrow> None)"

text \<open>Tables: reading a field, writing it, and writing nil to it.\<close>

definition jget :: "string \<Rightarrow> json \<Rightarrow> json option" where
  "jget k v = (case v of JObj kvs \<Rightarrow> map_of kvs k | _ \<Rightarrow> None)"

definition jdel :: "string \<Rightarrow> json \<Rightarrow> json" where
  "jdel k v = (case v of JObj kvs \<Rightarrow> JObj (filter (\<lambda>x. fst x \<noteq> k) kvs) | _ \<Rightarrow> v)"

definition jset :: "string \<Rightarrow> json \<Rightarrow> json \<Rightarrow> json" where
  "jset k x v = (case jdel k v of JObj kvs \<Rightarrow> JObj (kvs @ [(k, x)]) | u \<Rightarrow> u)"

text \<open>\<open>prefix .. j['name']\<close>: concatenating nil or a table is an error.\<close>

definition lua_concat :: "string \<Rightarrow> json option \<Rightarrow> string option" where
  "lua_concat p v = (case v of Some (JStr s) \<Rightarrow> Some (p @ s) | Some (JNum s) \<Rightarrow> Some (p @ s) | _ \<Rightarrow> None)"

definition bulks :: "reply \<Rightarrow> string list" where
  "bulks r = (case r of RArr rs \<Rightarrow> List.map_filter (\<lambda>x. case x of RBulk s \<Rightarrow> Some s | _ \<Rightarrow> None) rs | _ \<Rightarrow> [])"

section \<open>Fetching a job\<close>

definition acquireLock :: "'w redis \<Rightarrow> string \<Rightarrow> string \<Rightarrow> string \<Rightarrow> unit lua" where
  "acquireLock R lockKey lockInfoKey workerPoolID =
     ebind (rcall R (INCR lockKey)) (\<lambda>_.
     ebind (rcall R (HINCRBY lockInfoKey workerPoolID 1)) (\<lambda>_.
     eret ()))"

definition haveJobs :: "'w redis \<Rightarrow> string \<Rightarrow> bool lua" where
  "haveJobs R jobQueue =
     ebind (rcall R (LLEN jobQueue)) (\<lambda>r. eret (case tonumber r of Some n \<Rightarrow> 0 < n | None \<Rightarrow> False))"

definition isPaused :: "'w redis \<Rightarrow> string \<Rightarrow> bool lua" where
  "isPaused R pauseKey = ebind (rcall R (GET pauseKey)) (\<lambda>r. eret (r \<noteq> RNil))"

definition canRun :: "'w redis \<Rightarrow> string \<Rightarrow> int option \<Rightarrow> bool lua" where
  "canRun R lockKey maxConcurrency =
     ebind (rcall R (GET lockKey)) (\<lambda>r.
       let activeJobs = tonumber r in
       eret (case maxConcurrency of
               None \<Rightarrow> True
             | Some m \<Rightarrow> m = 0 \<or> (case activeJobs of None \<Rightarrow> True | Some a \<Rightarrow> a < m)))"

text \<open>The loop over \<open>KEYS\<close>, six at a time, with the short-circuit order of its condition.\<close>

fun redisLuaFetchJob :: "'w redis \<Rightarrow> string \<Rightarrow> string list \<Rightarrow> reply lua" where
  "redisLuaFetchJob R workerPoolID
     (jobQueue # inProg # pauseKey # lockKey # lockInfoKey # concurrencyKey # rest) =
     ebind (rcall R (GET concurrencyKey)) (\<lambda>mc.
     ebind (haveJobs R jobQueue) (\<lambda>have.
       if \<not> have then redisLuaFetchJob R workerPoolID rest
       else
         ebind (isPaused R pauseKey) (\<lambda>paused.
           if paused then redisLuaFetchJob R workerPoolID rest
           else
             ebind (canRun R lockKey (tonumber mc)) (\<lambda>run.
               if \<not> run then redisLuaFetchJob R workerPoolID rest
               else
                 ebind (acquireLock R lockKey lockInfoKey workerPoolID) (\<lambda>_.
                 ebind (rcall R (RPOPLPUSH jobQueue inProg)) (\<lambda>res.
                 eret (RArr [res, RBulk jobQueue, RBulk inProg])))))))"
| "redisLuaFetchJob R workerPoolID _ = eret RNil"

section \<open>Re-enqueueing the jobs of a dead pool\<close>

definition releaseLock :: "'w redis \<Rightarrow> string \<Rightarrow> string \<Rightarrow> string \<Rightarrow> unit lua" where
  "releaseLock R lockKey lockInfoKey workerPoolID =
     ebind (rcall R (DECR lockKey)) (\<lambda>_.
     ebind (rcall R (HINCRBY lockInfoKey workerPoolID (- 1))) (\<lambda>_.
     eret ()))"

fun redisLuaReenqueueJob :: "'w redis \<Rightarrow> string \<Rightarrow> string list \<Rightarrow> reply lua" where
  "redisLuaReenqueueJob R workerPoolID (inProg # jobQueue # lockKey # lockInfoKey # rest) =
     ebind (rcall R (RPOPLPUSH inProg jobQueue)) (\<lambda>res.
       if res \<noteq> RNil then
         ebind (releaseLock R lockKey lockInfoKey workerPoolID) (\<lambda>_.
         eret (RArr [res, RBulk inProg, RBulk jobQueue]))
       else redisLuaReenqueueJob R workerPoolID rest)"
| "redisLuaReenqueueJob R workerPoolID _ = eret RNil"

text \<open>Comparing nil with a number is a Lua error.\<close>

fun redisLuaReapStaleLocks :: "'w redis \<Rightarrow> string \<Rightarrow> string list \<Rightarrow> reply lua" where
  "redisLuaReapStaleLocks R deadPoolID (lock # lockInfo # rest) =
     ebind (rcall R (HGET lockInfo deadPoolID)) (\<lambda>c.
       case tonumber c of
         None \<Rightarrow> redisLuaReapStaleLocks R deadPoolID rest
       | Some deadLockCount \<Rightarrow>
           ebind (rcall R (DECRBY lock deadLockCount)) (\<lambda>_.
           ebind (rcall R (HDEL lockInfo deadPoolID)) (\<lambda>_.
           ebind (rcall R (GET lock)) (\<lambda>g.
             case tonumber g of
               None \<Rightarrow> efail ''attempt to compare nil with number''
             | Some l \<Rightarrow>
                 if l < 0 then
                   ebind (rcall R (SET lock ''0'')) (\<lambda>_. redisLuaReapStaleLocks R deadPoolID rest)
                 else redisLuaReapStaleLocks R deadPoolID rest))))"
| "redisLuaReapStaleLocks R deadPoolID _ = eret RNil"

section \<open>Moving due jobs to their queue\<close>

definition unknown_job :: "int \<Rightarrow> json \<Rightarrow> json" where
  "unknown_job now j = jset ''failed_at'' (json_int now) (jset ''err'' (JStr ''unknown job when requeueing'') j)"

text \<open>
  \<open>keys\<close> is all of \<open>KEYS\<close>: the zset, the dead zset, the known queues. The job leaves the zset
  before its queue is determined.
\<close>

definition redisLuaZremLpushCmd :: "'w redis \<Rightarrow> string list \<Rightarrow> string \<Rightarrow> int \<Rightarrow> reply lua" where
  "redisLuaZremLpushCmd R keys prefix now =
     (case keys of
        zkey # dkey # queues \<Rightarrow>
          ebind (rcall R (ZRANGEBYSCORE zkey None (Some now) (Some (0, 1)))) (\<lambda>res.
            case bulks res of
              [] \<Rightarrow> eret RNil
            | m # _ \<Rightarrow>
                (case cjson_decode R m of
                   None \<Rightarrow> efail ''Expected value but found invalid token''
                 | Some j \<Rightarrow>
                     ebind (rcall R (ZREM zkey m)) (\<lambda>_.
                       case lua_concat prefix (jget ''name'' j) of
                         None \<Rightarrow> efail ''attempt to concatenate field 'name' (a nil value)''
                       | Some queue \<Rightarrow>
                           if queue \<in> set keys then
                             ebind (rcall R (LPUSH queue (cjson_encode R (jset ''t'' (json_int now) j)))) (\<lambda>_.
                             eret (RBulk ''ok''))
                           else
                             ebind (rcall R (ZADD dkey now (cjson_encode R (unknown_job now j)))) (\<lambda>_.
                             eret (RBulk ''dead'')))))
      | _ \<Rightarrow> efail ''wrong number of keys'')"

section \<open>Deleting and requeueing jobs by hand\<close>

fun delete_loop :: "'w redis \<Rightarrow> string \<Rightarrow> string \<Rightarrow> string list \<Rightarrow> int \<Rightarrow> string \<Rightarrow> reply lua" where
  "delete_loop R zkey jobID [] deletedCount jobBytes = eret (RArr [RInt deletedCount, RBulk jobBytes])"
| "delete_loop R zkey jobID (m # ms) deletedCount jobBytes =
     (case cjson_decode R m of
        None \<Rightarrow> efail ''Expected value but found invalid token''
      | Some j \<Rightarrow>
          if jget ''id'' j = Some (JStr jobID) then
            ebind (rcall R (ZREM zkey m)) (\<lambda>_. delete_loop R zkey jobID ms (deletedCount + 1) m)
          else delete_loop R zkey jobID ms deletedCount jobBytes)"

definition redisLuaDeleteSingleCmd :: "'w redis \<Rightarrow> string \<Rightarrow> int \<Rightarrow> string \<Rightarrow> reply lua" where
  "redisLuaDeleteSingleCmd R zkey score jobID =
     ebind (rcall R (ZRANGEBYSCORE zkey (Some score) (Some score) None)) (\<lambda>jobs.
     delete_loop R zkey jobID (bulks jobs) 0 [])"

text \<open>A dead job that gets another chance starts afresh.\<close>

definition revived :: "int \<Rightarrow> json \<Rightarrow> json" where
  "revived now j = jdel ''err'' (jdel ''failed_at'' (jdel ''fails'' (jset ''t'' (json_int now) j)))"

text \<open>The body shared by the two requeue scripts: the number of jobs requeued, 0 or 1.\<close>

definition requeue_dead :: "'w redis \<Rightarrow> string list \<Rightarrow> string \<Rightarrow> int \<Rightarrow> string \<Rightarrow> json \<Rightarrow> int lua" where
  "requeue_dead R keys prefix now m j =
     (case keys of
        dkey # queues \<Rightarrow>
          ebind (rcall R (ZREM dkey m)) (\<lambda>_.
            case lua_concat prefix (jget ''name'' j) of
              None \<Rightarrow> efail ''attempt to concatenate field 'name' (a nil value)''
            | Some queue \<Rightarrow>
                if queue \<in> set keys then
                  ebind (rcall R (LPUSH queue (cjson_encode R (revived now j)))) (\<lambda>_. eret 1)
                else
                  ebind (rcall R (ZADD dkey (now + 5) (cjson_encode R (unknown_job now j)))) (\<lambda>_. eret 0))
      | [] \<Rightarrow> efail ''wrong number of keys'')"

fun requeue_single_loop :: "'w redis \<Rightarrow> string list \<Rightarrow> string \<Rightarrow> int \<Rightarrow> string \<Rightarrow> string list \<Rightarrow> int \<Rightarrow> reply lua" where
  "requeue_single_loop R keys prefix now jobID [] requeuedCount = eret (RInt requeuedCount)"
| "requeue_single_loop R keys prefix now jobID (m # ms) requeuedCount =
     (case cjson_decode R m of
        None \<Rightarrow> efail ''Expected value but found invalid token''
      | Some j \<Rightarrow>
          if jget ''id'' j = Some (JStr jobID) then
            ebind (requeue_dead R keys prefix now m j) (\<lambda>n.
            requeue_single_loop R keys prefix now jobID ms (requeuedCount + n))
          else requeue_single_loop R keys prefix now jobID ms requeuedCount)"

definition redisLuaRequeueSingleDeadCmd ::
    "'w redis \<Rightarrow> string list \<Rightarrow> string \<Rightarrow> int \<Rightarrow> int \<Rightarrow> string \<Rightarrow> reply lua" where
  "redisLuaRequeueSingleDeadCmd R keys prefix now diedAt jobID =
     (case keys of
        dkey # queues \<Rightarrow>
          ebind (rcall R (ZRANGEBYSCORE dkey (Some diedAt) (Some diedAt) None)) (\<lambda>jobs.
          requeue_single_loop R keys prefix now jobID (bulks jobs) 0)
      | [] \<Rightarrow> efail ''wrong number of keys'')"

fun requeue_all_loop :: "'w redis \<Rightarrow> string list \<Rightarrow> string \<Rightarrow> int \<Rightarrow> string list \<Rightarrow> int \<Rightarrow> reply lua" where
  "requeue_all_loop R keys prefix now [] requeuedCount = eret (RInt requeuedCount)"
| "requeue_all_loop R keys prefix now (m # ms) requeuedCount =
     (case cjson_decode R m of
        None \<Rightarrow> efail ''Expected value but found invalid token''
      | Some j \<Rightarrow>
          ebind (requeue_dead R keys prefix now m j) (\<lambda>n.
          requeue_all_loop R keys prefix now ms (requeuedCount + n)))"

definition redisLuaRequeueAllDeadCmd ::
    "'w redis \<Rightarrow> string list \<Rightarrow> string \<Rightarrow> int \<Rightarrow> nat \<Rightarrow> reply lua" where
  "redisLuaRequeueAllDeadCmd R keys prefix now maxJobs =
     (case keys of
        dkey # queues \<Rightarrow>
          ebind (rcall R (ZRANGEBYSCORE dkey None (Some now) (Some (0, maxJobs)))) (\<lambda>jobs.
          requeue_all_loop R keys prefix now (bulks jobs) 0)
      | [] \<Rightarrow> efail ''wrong number of keys'')"

section \<open>Enqueueing unique jobs\<close>

definition unique_ttl :: int where
  "unique_ttl = 86400"

definition redisLuaEnqueueUnique :: "'w redis \<Rightarrow> string \<Rightarrow> string \<Rightarrow> string \<Rightarrow> string \<Rightarrow> reply lua" where
  "redisLuaEnqueueUnique R queue uniqueKey job updated =
     ebind (rcall R (SET_NX_EX uniqueKey updated unique_ttl)) (\<lambda>r.
       if r \<noteq> RNil then
         ebind (rcall R (LPUSH queue job)) (\<lambda>_. eret (RBulk ''ok''))
       else
         ebind (rcall R (SET_EX uniqueKey updated unique_ttl)) (\<lambda>_. eret (RBulk ''dup'')))"

definition redisLuaEnqueueUniqueIn ::
    "'w redis \<Rightarrow> string \<Rightarrow> string \<Rightarrow> string \<Rightarrow> string \<Rightarrow> int \<Rightarrow> reply lua" where
  "redisLuaEnqueueUniqueIn R scheduled uniqueKey job updated runAt =
     ebind (rcall R (SET_NX_EX uniqueKey updated unique_ttl)) (\<lambda>r.
       if r \<noteq> RNil then
         ebind (rcall R (ZADD scheduled runAt job)) (\<lambda>_. eret (RBulk ''ok''))
       else
         ebind (rcall R (SET_EX uniqueKey updated unique_ttl)) (\<lambda>_. eret (RBulk ''dup'')))"

end
