(* ===== verification/Lua_Jobs.thy ===== *)
theory Lua_Jobs
  imports Redis_Scripts
begin

text \<open>
  Jobs as the Lua scripts see them. A script decodes a stored job, changes a few fields and encodes
  it again, with its members in an order of the encoder's choosing; the worker then reads the text
  with \<open>newJob\<close>. The lemmas show that the job read is the stored one with just those fields
  changed.
\<close>

section \<open>Maps do not depend on the order of distinct keys\<close>

lemma map_of_go_map_of: "map_of (go_map_of kvs) = map_of (rev kvs)"
proof (induction kvs rule: rev_induct)
  case (snoc p kvs)
  then show ?case by (cases p) (simp add: go_map_of_def map_of_map_put)
qed (simp add: go_map_of_def)

lemma alist_of_keys:
  assumes "distinct (map fst m)"
  shows "map (\<lambda>k. (k, the (map_of m k))) (map fst m) = m"
  using assms by (auto intro!: map_idI simp: map_of_is_SomeI)

lemma go_map_ext:
  assumes "go_map_wf m" and "go_map_wf m'" and "map_of m = map_of m'"
  shows "m = m'"
proof -
  have "set (map fst m) = set (map fst m')"
    using arg_cong [OF assms(3), of dom] by (simp add: dom_map_of_conv_image_fst)
  then have "map fst m = map fst m'"
    using assms(1,2) by (intro strict_sorted_equal) (simp_all add: go_map_wf_def)
  then have "map (\<lambda>k. (k, the (map_of m k))) (map fst m) = map (\<lambda>k. (k, the (map_of m' k))) (map fst m')"
    using assms(3) by simp
  then show ?thesis using alist_of_keys go_map_wf_distinct assms(1,2) by metis
qed

lemma map_of_rev_filter: "map_of (rev kvs) k = map_option snd (case filter (\<lambda>x. fst x = k) (rev kvs) of [] \<Rightarrow> None | x # _ \<Rightarrow> Some x)"
  by (induction kvs rule: rev_induct) auto

lemma go_map_of_sort: "go_map_of (sort_key fst kvs) = go_map_of kvs"
proof (rule go_map_ext)
  show "map_of (go_map_of (sort_key fst kvs)) = map_of (go_map_of kvs)"
  proof
    fix k
    have "filter (\<lambda>x. fst x = k) (sort_key fst kvs) = filter (\<lambda>x. fst x = k) kvs"
      using sort_key_stable [where f = fst and k = k and xs = kvs] by (simp add: eq_commute)
    then have "filter (\<lambda>x. fst x = k) (rev (sort_key fst kvs)) = filter (\<lambda>x. fst x = k) (rev kvs)"
      by (simp flip: rev_filter)
    then show "map_of (go_map_of (sort_key fst kvs)) k = map_of (go_map_of kvs) k"
      by (simp add: map_of_go_map_of map_of_rev_filter)
  qed
qed (simp_all add: go_map_of_wf)

lemma unmarshal_members_map:
  "unmarshal_members kvs =
     (if None \<in> (\<lambda>x. go_unmarshal (snd x)) ` set kvs then None
      else Some (map (\<lambda>(k, v). (k, the (go_unmarshal v))) kvs))"
  by (induction kvs) (simp_all split: option.split prod.split if_split)

lemma canon_members_map: "canon_members kvs = map (\<lambda>(k, v). (k, jcanon v)) kvs"
  by (induction kvs) auto


lemma map_pair_insort:
  "map (\<lambda>(k, v). (k, f v)) (insort_key fst x ys) =
   insort_key fst (case x of (k, v) \<Rightarrow> (k, f v)) (map (\<lambda>(k, v). (k, f v)) ys)"
  by (induction ys) (auto split: prod.splits)

lemma map_pair_sort: "map (\<lambda>(k, v). (k, f v)) (sort_key fst kvs) = sort_key fst (map (\<lambda>(k, v). (k, f v)) kvs)"
  by (induction kvs) (auto simp: map_pair_insort)

lemma unmarshal_members_sort: "unmarshal_members (sort_key fst kvs) = map_option (sort_key fst) (unmarshal_members kvs)"
  by (simp add: unmarshal_members_map map_pair_sort)

lemma go_unmarshal_canon:
  "go_unmarshal (jcanon v) = go_unmarshal v"
  "unmarshal_elems (canon_elems vs) = unmarshal_elems vs"
  "unmarshal_members (canon_members kvs) = unmarshal_members kvs"
  by (induction v and vs and kvs rule: jcanon_canon_elems_canon_members.induct)
    (simp_all add: go_map_of_sort unmarshal_members_sort option.map_comp o_def)

section \<open>Decoding a job\<close>

lemma go_map_of_append_sort: "go_map_of (xs @ sort_key fst ys) = go_map_of (xs @ ys)"
  using arg_cong [OF go_map_of_sort [of ys], of map_of]
  by (intro go_map_ext) (simp_all add: map_of_go_map_of go_map_of_wf)

lemma as_canon:
  "as_string (jcanon v) s = as_string v s" "as_int64 (jcanon v) n = as_int64 v n"
  "as_bool (jcanon v) b = as_bool v b" "as_args (jcanon v) a = as_args v a"
  by (cases v; simp add: as_string_def as_int64_def as_bool_def as_args_def unmarshal_members_sort
      go_unmarshal_canon go_map_of_append_sort option.map_comp o_def)+

lemma set_field_canon: "set_field k (jcanon v) j = set_field k v j"
  by (simp only: set_field_def as_canon)

lemma set_fields_canon: "set_fields (canon_members kvs) j = set_fields kvs j"
  by (induction kvs j rule: set_fields.induct) (auto simp: set_field_canon split: option.splits)

lemma set_field_cases:
  "field_of k = ''name'' \<Longrightarrow> set_field k v = (\<lambda>j. map_option (\<lambda>s. j\<lparr>Name := s\<rparr>) (as_string v (Name j)))"
  "field_of k = ''id'' \<Longrightarrow> set_field k v = (\<lambda>j. map_option (\<lambda>s. j\<lparr>ID := s\<rparr>) (as_string v (ID j)))"
  "field_of k = ''t'' \<Longrightarrow> set_field k v = (\<lambda>j. map_option (\<lambda>n. j\<lparr>EnqueuedAt := n\<rparr>) (as_int64 v (EnqueuedAt j)))"
  "field_of k = ''args'' \<Longrightarrow> set_field k v = (\<lambda>j. map_option (\<lambda>a. j\<lparr>Args := a\<rparr>) (as_args v (Args j)))"
  "field_of k = ''unique'' \<Longrightarrow> set_field k v = (\<lambda>j. map_option (\<lambda>b. j\<lparr>Unique := b\<rparr>) (as_bool v (Unique j)))"
  "field_of k = ''unique_key'' \<Longrightarrow> set_field k v = (\<lambda>j. map_option (\<lambda>s. j\<lparr>UniqueKey := s\<rparr>) (as_string v (UniqueKey j)))"
  "field_of k = ''fails'' \<Longrightarrow> set_field k v = (\<lambda>j. map_option (\<lambda>n. j\<lparr>Fails := n\<rparr>) (as_int64 v (Fails j)))"
  "field_of k = ''err'' \<Longrightarrow> set_field k v = (\<lambda>j. map_option (\<lambda>s. j\<lparr>LastErr := s\<rparr>) (as_string v (LastErr j)))"
  "field_of k = ''failed_at'' \<Longrightarrow> set_field k v = (\<lambda>j. map_option (\<lambda>n. j\<lparr>FailedAt := n\<rparr>) (as_int64 v (FailedAt j)))"
  "field_of k \<notin> set job_fields \<Longrightarrow> set_field k v = Some"
  by (simp_all add: set_field_def job_fields_def fun_eq_iff)

lemma bind_map_option: "Option.bind (map_option f x) g = (case x of None \<Rightarrow> None | Some y \<Rightarrow> g (f y))"
  by (cases x) auto

lemma fields_cases:
  obtains "f = ''name''" | "f = ''id''" | "f = ''t''" | "f = ''args''" | "f = ''unique''" | "f = ''unique_key''"
    | "f = ''fails''" | "f = ''err''" | "f = ''failed_at''" | "f \<notin> set job_fields"
  by (auto simp: job_fields_def)

lemma set_field_commute:
  assumes "field_of k \<noteq> field_of k'"
  shows "Option.bind (set_field k v j) (set_field k' v') = Option.bind (set_field k' v' j) (set_field k v)"
  using assms
  by (cases "field_of k" rule: fields_cases; cases "field_of k'" rule: fields_cases)
    (simp_all add: set_field_cases bind_map_option split: option.split)

lemma set_fields_bind: "set_fields (p # kvs) = (\<lambda>j. Option.bind (set_field (fst p) (snd p) j) (set_fields kvs))"
  by (cases p) (auto split: option.splits)

lemma set_fields_append_bind: "set_fields (xs @ ys) j = Option.bind (set_fields xs j) (set_fields ys)"
  by (simp add: set_fields_append split: option.split)

lemma set_fields_front:
  assumes "\<forall>x\<in>set xs. field_of (fst x) \<noteq> field_of k"
  shows "set_fields (xs @ (k, v) # ys) j = set_fields ((k, v) # xs @ ys) j"
  using assms
proof (induction xs arbitrary: j)
  case (Cons x xs)
  have "set_fields (xs @ (k, v) # ys) = (\<lambda>j. Option.bind (set_field k v j) (set_fields (xs @ ys)))"
    using Cons by (auto simp: set_fields_bind simp del: set_fields.simps)
  then have "set_fields ((x # xs) @ (k, v) # ys) j =
      Option.bind (Option.bind (set_field (fst x) (snd x) j) (set_field k v)) (set_fields (xs @ ys))"
    by (simp add: set_fields_bind del: set_fields.simps)
  also have "\<dots> = Option.bind (Option.bind (set_field k v j) (set_field (fst x) (snd x))) (set_fields (xs @ ys))"
    using Cons.prems by (simp add: set_field_commute)
  finally show ?case by (simp add: set_fields_bind del: set_fields.simps)
qed simp

lemma set_fields_perm:
  assumes "mset kvs = mset kvs'" and "distinct (map (\<lambda>x. field_of (fst x)) kvs)"
  shows "set_fields kvs j = set_fields kvs' j"
  using assms
proof (induction kvs arbitrary: kvs' j)
  case (Cons p kvs)
  from Cons.prems(1) have "p \<in> set kvs'" by (metis list.set_intros(1) set_mset_mset)
  then obtain xs ys where kvs': "kvs' = xs @ p # ys" by (auto simp: in_set_conv_decomp)
  with Cons.prems(1) have m: "mset kvs = mset (xs @ ys)" by simp
  then have "set kvs = set (xs @ ys)" by (metis set_mset_mset)
  with Cons.prems(2) have "\<forall>x\<in>set xs. field_of (fst x) \<noteq> field_of (fst p)"
    by (auto simp del: set_append simp: image_iff) (metis UnCI fst_conv set_append)
  then have "set_fields kvs' j = set_fields (p # xs @ ys) j"
    using set_fields_front [of xs "fst p" "snd p" ys j] kvs' by simp
  moreover have "set_fields kvs = set_fields (xs @ ys)" using Cons.IH [OF m] Cons.prems(2) by auto
  ultimately show ?case
    by (simp add: set_fields_bind del: set_fields.simps)
qed simp

lemma job_of_json_canon:
  assumes "jcanon v = jcanon (JObj kvs)" and "distinct (map (\<lambda>x. field_of (fst x)) kvs)"
  shows "job_of_json v = set_fields kvs zero_job"
proof -
  obtain kvs' where v: "v = JObj kvs'" using assms(1) by (cases v) auto
  with assms(1) have "mset (canon_members kvs) = mset (canon_members kvs')"
    by (metis jcanon.simps(2) json.inject(5) mset_sort)
  moreover have "map (\<lambda>x. field_of (fst x)) (canon_members kvs) = map (\<lambda>x. field_of (fst x)) kvs"
    by (induction kvs) auto
  ultimately have "set_fields (canon_members kvs) zero_job = set_fields (canon_members kvs') zero_job"
    using assms(2) by (intro set_fields_perm) simp_all
  then show ?thesis by (simp add: v job_of_json_def set_fields_canon)
qed

lemma distinct_job_fields:
  assumes "distinct (map fst kvs)" and "set (map fst kvs) \<subseteq> set job_fields"
  shows "distinct (map (\<lambda>x. field_of (fst x)) kvs)"
proof -
  have "map (\<lambda>x. field_of (fst x)) kvs = map fst kvs"
    using assms(2) by (auto simp: field_of_def)
  then show ?thesis using assms(1) by (simp only:)
qed

section \<open>Jobs rewritten by scripts\<close>

lemma job_members_keys:
  "distinct (map fst (job_members j a))" "set (map fst (job_members j a)) \<subseteq> set job_fields"
  by (simp_all add: job_members_def omit_empty_def job_fields_def)

lemma safe_members_mset:
  "mset xs = mset ys \<Longrightarrow> safe_members xs \<Longrightarrow> safe_members ys"
proof -
  have "safe_members zs \<longleftrightarrow> (\<forall>z\<in>set zs. cjson_safe (snd z))" for zs
    by (induction zs) auto
  then show "mset xs = mset ys \<Longrightarrow> safe_members xs \<Longrightarrow> safe_members ys"
    by (metis set_mset_mset)
qed

text \<open>
  A document with the members of a job, in any order, is written by \<open>cjson\<close> as a text that
  \<open>newJob\<close> reads as that job.
\<close>

context lua_cjson
begin

lemma newJob_encode:
  assumes "job_wf j" and "args_json (Args j) = Some a" and "cjson_safe (JObj (job_members j a))"
    and "mset kvs = mset (job_members j a)"
  shows "newJob (cjson_encode R (JObj kvs)) from inprog = Some (reread (cjson_encode R (JObj kvs)) from inprog j)"
proof -
  have keys: "mset (map fst kvs) = mset (map fst (job_members j a))"
    using assms(4) by (metis mset_map)
  then have d: "distinct (map fst kvs)" "set (map fst kvs) \<subseteq> set job_fields"
    using job_members_keys [of j a] mset_eq_imp_distinct_iff [OF keys] mset_eq_setD [OF keys] by simp_all
  have "cjson_safe (JObj kvs)"
    using assms(3) d(1) safe_members_mset [OF assms(4) [symmetric]] by simp
  then obtain v where v: "json_parse (cjson_encode R (JObj kvs)) = Some v" "jcanon v = jcanon (JObj kvs)"
    using cjson_encode by blast
  from v(2) have "job_of_json v = set_fields kvs zero_job"
    by (rule job_of_json_canon) (rule distinct_job_fields [OF d])
  also have "\<dots> = set_fields (job_members j a) zero_job"
    by (rule set_fields_perm [OF assms(4) distinct_job_fields [OF d]])
  also have "\<dots> = Some (reread [] [] [] j)"
    using job_json_wf [OF assms(1)] assms(2) by (auto simp: job_json_def job_of_json_def)
  finally show ?thesis using v(1) by (simp add: newJob_def reread_def)
qed

end

lemma jget_job:
  "jget ''name'' (JObj (job_members j a)) = (if Name j = [] then None else Some (JStr (Name j)))"
  "jget ''id'' (JObj (job_members j a)) = Some (JStr (ID j))"
  by (simp_all add: jget_def job_members_def omit_empty_def)

definition retimed :: "int \<Rightarrow> job \<Rightarrow> job" where
  "retimed now j = j\<lparr>EnqueuedAt := now\<rparr>"

definition given_up :: "int \<Rightarrow> job \<Rightarrow> job" where
  "given_up now j = j\<lparr>LastErr := ''unknown job when requeueing'', FailedAt := now\<rparr>"

definition fresh_again :: "int \<Rightarrow> job \<Rightarrow> job" where
  "fresh_again now j = j\<lparr>EnqueuedAt := now, Fails := 0, LastErr := [], FailedAt := 0\<rparr>"

lemma jset_retimed:
  "\<exists>kvs. jset ''t'' (json_int now) (JObj (job_members j a)) = JObj kvs \<and>
     mset kvs = mset (job_members (retimed now j) a)"
  by (simp add: jset_def jdel_def job_members_def omit_empty_def retimed_def)

lemma unknown_given_up:
  "now \<noteq> 0 \<Longrightarrow> \<exists>kvs. unknown_job now (JObj (job_members j a)) = JObj kvs \<and>
     mset kvs = mset (job_members (given_up now j) a)"
  by (simp add: unknown_job_def jset_def jdel_def job_members_def omit_empty_def given_up_def)

lemma revived_fresh_again:
  "\<exists>kvs. revived now (JObj (job_members j a)) = JObj kvs \<and>
     mset kvs = mset (job_members (fresh_again now j) a)"
  by (simp add: revived_def jset_def jdel_def job_members_def omit_empty_def fresh_again_def)

text \<open>Jobs that Lua handles faithfully.\<close>

definition lua_job :: "job \<Rightarrow> bool" where
  "lua_job j \<longleftrightarrow> job_wf j \<and> (case args_json (Args j) of None \<Rightarrow> False | Some a \<Rightarrow> cjson_safe (JObj (job_members j a)))"

definition lua_time :: "int \<Rightarrow> bool" where
  "lua_time now \<longleftrightarrow> 0 < now \<and> now < 10 ^ 14"

lemma lua_int_text_json: "\<bar>n\<bar> < 10 ^ 14 \<Longrightarrow> cjson_safe (json_int n)"
  by (simp add: json_int_def lua_int_text_def)

lemma lua_job_members: "lua_job j \<longleftrightarrow> job_wf j \<and>
   (\<exists>a. args_json (Args j) = Some a \<and> cjson_safe a \<and> cjson_safe (json_int (EnqueuedAt j)) \<and>
      (Fails j \<noteq> 0 \<longrightarrow> cjson_safe (json_int (Fails j))) \<and> (FailedAt j \<noteq> 0 \<longrightarrow> cjson_safe (json_int (FailedAt j))))"
  by (simp add: lua_job_def job_members_def omit_empty_def split: option.split) auto

lemma lua_job_rewritten:
  assumes "lua_job j" and "lua_time now"
  shows "lua_job (retimed now j)" "lua_job (given_up now j)" "lua_job (fresh_again now j)"
proof -
  have "cjson_safe (json_int now)" "in_i64 now" "in_i64 0"
    using assms(2) by (auto simp: lua_time_def lua_int_text_json in_i64_def)
  then show "lua_job (retimed now j)" "lua_job (given_up now j)" "lua_job (fresh_again now j)"
    using assms(1) by (auto simp: lua_job_members retimed_def given_up_def fresh_again_def job_wf_def)
qed

context lua_cjson
begin

lemma decode_job:
  assumes "lua_job j" and "serialize j = Some raw"
  obtains a where "cjson_decode R raw = Some (JObj (job_members j a))" and "args_json (Args j) = Some a"
    and "cjson_safe (JObj (job_members j a))"
proof -
  from assms(1) obtain a where a: "args_json (Args j) = Some a" "cjson_safe (JObj (job_members j a))"
    by (auto simp: lua_job_def split: option.splits)
  with assms(2) have "raw = json_print (JObj (job_members j a))"
    by (simp add: serialize_def job_json_def)
  then have "json_parse raw = Some (JObj (job_members j a))"
    using cjson_safe_wf(1) [OF a(2)] by (simp only: json_parse_print)
  with a cjson_decode that show ?thesis by blast
qed

lemma newJob_rewritten:
  assumes "lua_job j" and "args_json (Args j) = Some a"
    and "\<exists>kvs. v = JObj kvs \<and> mset kvs = mset (job_members j a)"
  shows "newJob (cjson_encode R v) from inprog = Some (reread (cjson_encode R v) from inprog j)"
  using assms newJob_encode [of j a] by (auto simp: lua_job_def)

lemma newJob_retimed:
  assumes "lua_job j" and "serialize j = Some raw" and "lua_time now" and "cjson_decode R raw = Some v"
  shows "newJob (cjson_encode R (jset ''t'' (json_int now) v)) from inprog =
    Some (reread (cjson_encode R (jset ''t'' (json_int now) v)) from inprog (retimed now j))"
proof -
  obtain a where a: "cjson_decode R raw = Some (JObj (job_members j a))" "args_json (Args j) = Some a"
    by (rule decode_job [OF assms(1,2)])
  with assms(4) have v: "v = JObj (job_members j a)" by simp
  have "args_json (Args (retimed now j)) = Some a" using a(2) by (simp add: retimed_def)
  moreover have "now \<noteq> 0" using assms(3) by (simp add: lua_time_def)
  ultimately show ?thesis unfolding v
    using lua_job_rewritten [OF assms(1,3)] jset_retimed newJob_rewritten by blast
qed

lemma newJob_given_up:
  assumes "lua_job j" and "serialize j = Some raw" and "lua_time now" and "cjson_decode R raw = Some v"
  shows "newJob (cjson_encode R (unknown_job now v)) from inprog =
    Some (reread (cjson_encode R (unknown_job now v)) from inprog (given_up now j))"
proof -
  obtain a where a: "cjson_decode R raw = Some (JObj (job_members j a))" "args_json (Args j) = Some a"
    by (rule decode_job [OF assms(1,2)])
  with assms(4) have v: "v = JObj (job_members j a)" by simp
  have "args_json (Args (given_up now j)) = Some a" using a(2) by (simp add: given_up_def)
  moreover have "now \<noteq> 0" using assms(3) by (simp add: lua_time_def)
  ultimately show ?thesis unfolding v
    using lua_job_rewritten [OF assms(1,3)] unknown_given_up newJob_rewritten by blast
qed

lemma newJob_fresh_again:
  assumes "lua_job j" and "serialize j = Some raw" and "lua_time now" and "cjson_decode R raw = Some v"
  shows "newJob (cjson_encode R (revived now v)) from inprog =
    Some (reread (cjson_encode R (revived now v)) from inprog (fresh_again now j))"
proof -
  obtain a where a: "cjson_decode R raw = Some (JObj (job_members j a))" "args_json (Args j) = Some a"
    by (rule decode_job [OF assms(1,2)])
  with assms(4) have v: "v = JObj (job_members j a)" by simp
  have "args_json (Args (fresh_again now j)) = Some a" using a(2) by (simp add: fresh_again_def)
  moreover have "now \<noteq> 0" using assms(3) by (simp add: lua_time_def)
  ultimately show ?thesis unfolding v
    using lua_job_rewritten [OF assms(1,3)] revived_fresh_again newJob_rewritten by blast
qed

end

end
