(* ===== verification/Priority_Sampler.thy ===== *)
theory Priority_Sampler
  imports Work_Prelude
begin

text \<open>
  \<open>priority_sampler.go\<close>: the order in which a worker tries its queues. \<open>sample\<close> shuffles the
  queues in place so that the queue of each slot is drawn from the remaining ones with a
  probability proportional to its priority. Shown: the result is a permutation of the queues, the
  random generator is never asked for an empty range, and of the \<open>sum\<close> equally likely first draws
  exactly \<open>priority\<close> many put a queue first.
\<close>

record sampleItem =
  priority :: nat
  redisJobs :: string
  redisJobsInProg :: string
  redisJobsPaused :: string
  redisJobsLock :: string
  redisJobsLockInfo :: string
  redisJobsMaxConcurrency :: string

record prioritySampler =
  prioSum :: nat
  samples :: "sampleItem list"

definition empty_sampler :: prioritySampler where
  "empty_sampler = \<lparr>prioSum = 0, samples = []\<rparr>"

definition sampler_add :: "sampleItem \<Rightarrow> prioritySampler \<Rightarrow> prioritySampler" where
  "sampler_add item s = s\<lparr>samples := samples s @ [item], prioSum := prioSum s + priority item\<rparr>"

definition swap_items :: "'a list \<Rightarrow> nat \<Rightarrow> nat \<Rightarrow> 'a list" where
  "swap_items xs i j = xs[i := xs ! j, j := xs ! i]"

text \<open>The inner loop: \<open>i\<close> runs down to \<open>lo\<close>, \<open>prevSum\<close> adds up the priorities passed.\<close>

fun find_slot :: "sampleItem list \<Rightarrow> nat \<Rightarrow> nat \<Rightarrow> nat \<Rightarrow> nat \<Rightarrow> nat option" where
  "find_slot xs rn lo prevSum i =
     (if i < lo then None
      else if rn < priority (xs ! i) + prevSum then Some i
      else if i = 0 then None
      else find_slot xs rn lo (prevSum + priority (xs ! i)) (i - 1))"

declare find_slot.simps [simp del]

text \<open>
  The outer loop. \<open>rnd i n\<close> is the number \<open>rand.UintN(n)\<close> returns in round \<open>i\<close>; the call panics
  for \<open>n = 0\<close>, which is the result \<open>None\<close>.
\<close>

fun sample_loop :: "(nat \<Rightarrow> nat \<Rightarrow> nat) \<Rightarrow> nat \<Rightarrow> sampleItem list \<Rightarrow> nat \<Rightarrow> nat \<Rightarrow> sampleItem list option" where
  "sample_loop rnd remaining xs sumRemaining lastValidIdx =
     (if remaining \<le> 1 then Some xs
      else if sumRemaining = 0 then None
      else
        (case find_slot xs (rnd lastValidIdx sumRemaining) lastValidIdx 0 (length xs - 1) of
           Some i \<Rightarrow>
             sample_loop rnd (remaining - 1) (swap_items xs i lastValidIdx)
               (sumRemaining - priority (xs ! i)) (lastValidIdx + 1)
         | None \<Rightarrow> sample_loop rnd (remaining - 1) xs sumRemaining (lastValidIdx + 1)))"

declare sample_loop.simps [simp del]

definition sample :: "(nat \<Rightarrow> nat \<Rightarrow> nat) \<Rightarrow> prioritySampler \<Rightarrow> prioritySampler option" where
  "sample rnd s =
     map_option (\<lambda>xs. s\<lparr>samples := xs\<rparr>)
       (sample_loop rnd (length (samples s)) (samples s) (prioSum s) 0)"

section \<open>The sampler's invariant\<close>

definition total_priority :: "sampleItem list \<Rightarrow> nat" where
  "total_priority xs = sum_list (map priority xs)"

definition sampler_inv :: "prioritySampler \<Rightarrow> bool" where
  "sampler_inv s \<longleftrightarrow> prioSum s = total_priority (samples s) \<and> (\<forall>x\<in>set (samples s). 0 < priority x)"

lemma sampler_inv_empty: "sampler_inv empty_sampler"
  by (simp add: sampler_inv_def empty_sampler_def total_priority_def)

lemma sampler_inv_add: "sampler_inv s \<Longrightarrow> 0 < priority x \<Longrightarrow> sampler_inv (sampler_add x s)"
  by (auto simp: sampler_inv_def sampler_add_def total_priority_def)

section \<open>The slot that is found\<close>

definition prio_between :: "sampleItem list \<Rightarrow> nat \<Rightarrow> nat \<Rightarrow> nat" where
  "prio_between xs j i = (\<Sum>k = j..<i. priority (xs ! k))"

lemma find_slot_iff:
  assumes "prevSum \<le> rn"
  shows "find_slot xs rn lo prevSum i = Some j \<longleftrightarrow>
    lo \<le> j \<and> j \<le> i \<and> prevSum + prio_between xs (Suc j) (Suc i) \<le> rn \<and>
    rn < prevSum + prio_between xs j (Suc i)"
  using assms
proof (induction xs rn lo prevSum i rule: find_slot.induct)
  case (1 xs rn lo prevSum i)
  have split: "prio_between xs j (Suc i) = prio_between xs j i + priority (xs ! i)" if "j \<le> i" for j
    using that by (simp add: prio_between_def)
  show ?case
  proof (cases "i < lo")
    case True
    then show ?thesis by (subst find_slot.simps) simp
  next
    case ge: False
    show ?thesis
    proof (cases "rn < priority (xs ! i) + prevSum")
      case True
      have "j = i" if "j \<le> i" "prevSum + prio_between xs (Suc j) (Suc i) \<le> rn"
      proof (rule ccontr)
        assume "j \<noteq> i"
        with that(1) have "Suc j \<le> i" by simp
        then show False using that(2) True split [of "Suc j"] by simp
      qed
      with ge True "1.prems" show ?thesis
        by (subst find_slot.simps) (auto simp: prio_between_def)
    next
      case no: False
      show ?thesis
      proof (cases "i = 0")
        case True
        with ge no show ?thesis by (subst find_slot.simps) (auto simp: prio_between_def)
      next
        case False
        then obtain m where i: "i = Suc m" by (cases i) auto
        have "find_slot xs rn lo prevSum i = find_slot xs rn lo (prevSum + priority (xs ! i)) m"
          using ge no i by (subst find_slot.simps) simp
        moreover have "(find_slot xs rn lo (prevSum + priority (xs ! i)) m = Some j) \<longleftrightarrow>
          lo \<le> j \<and> j \<le> m \<and>
          prevSum + priority (xs ! i) + prio_between xs (Suc j) (Suc m) \<le> rn \<and>
          rn < prevSum + priority (xs ! i) + prio_between xs j (Suc m)"
          using "1.IH" ge no i by simp
        moreover have "\<not> rn < prevSum + prio_between xs i (Suc i)"
          using no by (simp add: prio_between_def)
        moreover have "prio_between xs j (Suc i) = prio_between xs j (Suc m) + priority (xs ! i) \<and>
          prio_between xs (Suc j) (Suc i) = prio_between xs (Suc j) (Suc m) + priority (xs ! i)"
          if "j \<le> m"
          using split [of j] split [of "Suc j"] that i by simp
        ultimately show ?thesis
          using i ge by (cases "j \<le> m"; cases "j = i") (simp_all add: add.commute add.left_commute)
      qed
    qed
  qed
qed

lemma prio_between_step:
  "j \<le> i \<Longrightarrow> prio_between xs j (Suc i) = priority (xs ! j) + prio_between xs (Suc j) (Suc i)"
  unfolding prio_between_def by (rule sum.atLeast_Suc_lessThan) simp

lemma find_slot_bounds: "find_slot xs rn lo 0 i = Some j \<Longrightarrow> lo \<le> j \<and> j \<le> i"
  by (simp add: find_slot_iff)

text \<open>Each remaining item is found for exactly \<open>priority\<close> many random numbers.\<close>

lemma find_slot_count:
  assumes "lo \<le> j" and "j \<le> i"
  shows "card {rn. find_slot xs rn lo 0 i = Some j} = priority (xs ! j)"
proof -
  have "{rn. find_slot xs rn lo 0 i = Some j} =
    {prio_between xs (Suc j) (Suc i)..<prio_between xs j (Suc i)}"
    using assms by (auto simp: find_slot_iff)
  then show ?thesis using assms(2) by (simp add: prio_between_step)
qed

lemma find_slot_total:
  assumes "rn < prio_between xs lo (Suc i)" and "lo \<le> i"
  shows "\<exists>j. find_slot xs rn lo 0 i = Some j"
proof -
  have "\<exists>j. find_slot xs rn lo p i = Some j" if "rn < p + prio_between xs lo (Suc i)" "lo \<le> i" for p
    using that
  proof (induction xs rn lo p i rule: find_slot.induct)
    case (1 xs rn lo p i)
    show ?case
    proof (cases "rn < priority (xs ! i) + p")
      case True
      with "1.prems" show ?thesis by (subst find_slot.simps) simp
    next
      case no: False
      have "lo < i"
        using "1.prems" no by (cases "lo = i") (auto simp: prio_between_def)
      then obtain m where i: "i = Suc m" by (cases i) auto
      have "prio_between xs lo (Suc i) = prio_between xs lo (Suc m) + priority (xs ! i)"
        using \<open>lo < i\<close> i by (simp add: prio_between_def)
      then have "\<exists>j. find_slot xs rn lo (p + priority (xs ! i)) m = Some j"
        using "1.IH" "1.prems" no i \<open>lo < i\<close> by simp
      then show ?thesis using no i \<open>lo < i\<close> by (subst find_slot.simps) simp
    qed
  qed
  from this [of 0] assms show ?thesis by simp
qed

section \<open>The whole loop\<close>

lemma mset_swap_items:
  "i < length xs \<Longrightarrow> j < length xs \<Longrightarrow> mset (swap_items xs i j) = mset xs"
  by (simp add: swap_items_def mset_swap)

lemma length_swap_items [simp]: "length (swap_items xs i j) = length xs"
  by (simp add: swap_items_def)

lemma take_swap_items: "j \<le> i \<Longrightarrow> take j (swap_items xs i j) = take j xs"
  by (simp add: swap_items_def)

lemma nth_swap_items: "i < length xs \<Longrightarrow> j < length xs \<Longrightarrow> swap_items xs i j ! j = xs ! i"
  by (simp add: swap_items_def)

lemma total_priority_mset: "mset xs = mset ys \<Longrightarrow> total_priority xs = total_priority ys"
  unfolding total_priority_def by (metis mset_map sum_mset_sum_list)

lemma total_priority_between: "prio_between xs 0 (length xs) = total_priority xs"
  by (simp add: prio_between_def total_priority_def sum_list_sum_nth atLeast0LessThan)

lemma prio_between_drop: "prio_between xs lo (length xs) = total_priority (drop lo xs)"
proof -
  have "total_priority (drop lo xs) = (\<Sum>k = 0..<length xs - lo. priority (xs ! (lo + k)))"
    by (simp add: total_priority_def sum_list_sum_nth)
  also have "\<dots> = prio_between xs lo (length xs)"
    unfolding prio_between_def by (subst sum.atLeastLessThan_shift_0) (simp add: comp_def)
  finally show ?thesis by simp
qed

lemma take_less: "take (n + 1) xs = take (n + 1) ys \<Longrightarrow> take n xs = take n ys"
  by (drule arg_cong [where f = "take n"]) (simp add: min_def)

lemma sample_loop_perm:
  assumes "sample_loop rnd r xs sumR lo = Some ys" and "lo + r \<le> length xs"
  shows "mset ys = mset xs \<and> take lo ys = take lo xs"
  using assms
proof (induction rnd r xs sumR lo rule: sample_loop.induct)
  case (1 rnd r xs sumR lo)
  show ?case
  proof (cases "r \<le> 1")
    case True
    with "1.prems" show ?thesis by (simp add: sample_loop.simps [of rnd r])
  next
    case r: False
    then have s: "sumR \<noteq> 0" using "1.prems" by (auto simp: sample_loop.simps [of rnd r] split: if_splits)
    show ?thesis
    proof (cases "find_slot xs (rnd lo sumR) lo 0 (length xs - 1)")
      case None
      with r s "1.prems" have "mset ys = mset xs \<and> take (lo + 1) ys = take (lo + 1) xs"
        using "1.IH"(1) [OF r s None] by (simp add: sample_loop.simps [of rnd r])
      then show ?thesis using take_less by blast
    next
      case (Some i)
      let ?zs = "swap_items xs i lo"
      have b: "lo \<le> i" "i < length xs" using find_slot_bounds [OF Some] "1.prems" r by auto
      with r s Some "1.prems" have "mset ys = mset ?zs \<and> take (lo + 1) ys = take (lo + 1) ?zs"
        using "1.IH"(2) [OF r s Some] by (simp add: sample_loop.simps [of rnd r])
      moreover from this have "take lo ys = take lo ?zs" using take_less by blast
      ultimately show ?thesis using b by (simp add: mset_swap_items take_swap_items)
    qed
  qed
qed

lemma mset_drop_eq:
  assumes "mset xs = mset ys" and "take n xs = take n ys"
  shows "mset (drop n xs) = mset (drop n ys)"
proof -
  have e: "mset (take n zs) + mset (drop n zs) = mset zs" for zs :: "'a list"
    using mset_append [of "take n zs" "drop n zs"] by (simp only: append_take_drop_id)
  have "mset (take n xs) + mset (drop n xs) = mset (take n xs) + mset (drop n ys)"
    by (simp only: e assms(1)) (simp only: e assms)
  then show ?thesis by simp
qed

lemma total_priority_swap:
  assumes "lo \<le> i" and "i < length xs"
  shows "total_priority (drop lo xs) = priority (xs ! i) + total_priority (drop (lo + 1) (swap_items xs i lo))"
proof -
  let ?zs = "swap_items xs i lo"
  have "mset (drop lo ?zs) = mset (drop lo xs)"
    using assms by (intro mset_drop_eq) (simp_all add: mset_swap_items take_swap_items)
  then have "total_priority (drop lo xs) = total_priority (drop lo ?zs)"
    by (rule total_priority_mset [OF sym])
  also have "drop lo ?zs = ?zs ! lo # drop (Suc lo) ?zs"
    using assms by (simp add: Cons_nth_drop_Suc)
  finally show ?thesis using assms by (simp add: nth_swap_items total_priority_def)
qed

lemma sample_loop_no_panic:
  assumes "\<forall>i n. 0 < n \<longrightarrow> rnd i n < n"
    and "sumR = total_priority (drop lo xs)" and "\<forall>x\<in>set xs. 0 < priority x"
    and "lo + r = length xs"
  shows "\<exists>ys. sample_loop rnd r xs sumR lo = Some ys"
  using assms
proof (induction rnd r xs sumR lo rule: sample_loop.induct)
  case (1 rnd r xs sumR lo)
  show ?case
  proof (cases "r \<le> 1")
    case True
    then show ?thesis by (simp add: sample_loop.simps [of rnd r])
  next
    case r: False
    have drop: "drop lo xs = xs ! lo # drop (Suc lo) xs"
      using r "1.prems" by (simp add: Cons_nth_drop_Suc)
    have "xs ! lo \<in> set xs" using r "1.prems" by simp
    with drop "1.prems" have s: "sumR \<noteq> 0" by (auto simp: total_priority_def)
    then have "rnd lo sumR < prio_between xs lo (length xs)"
      using "1.prems" by (simp add: prio_between_drop)
    moreover have "Suc (length xs - 1) = length xs" "lo \<le> length xs - 1"
      using r "1.prems" by auto
    ultimately obtain i where Some: "find_slot xs (rnd lo sumR) lo 0 (length xs - 1) = Some i"
      using find_slot_total [of "rnd lo sumR" xs lo "length xs - 1"] by (simp only:) blast
    then have b: "lo \<le> i" "i < length xs" using find_slot_bounds [OF Some] "1.prems" r by auto
    have "set (swap_items xs i lo) = set xs"
      using mset_swap_items [of i xs lo] b by (metis order.strict_trans1 set_mset_mset)
    moreover have "sumR - priority (xs ! i) = total_priority (drop (lo + 1) (swap_items xs i lo))"
      using total_priority_swap [OF b] "1.prems" by simp
    ultimately have "\<exists>ys. sample_loop rnd (r - 1) (swap_items xs i lo) (sumR - priority (xs ! i)) (lo + 1) = Some ys"
      using "1.IH"(2) [OF r s Some] "1.prems" r by simp
    then show ?thesis using r s Some by (simp add: sample_loop.simps [of rnd r])
  qed
qed

lemma sample_loop_first:
  assumes "sample_loop rnd (length xs) xs sumR 0 = Some ys" and "2 \<le> length xs"
    and "find_slot xs (rnd 0 sumR) 0 0 (length xs - 1) = Some i"
  shows "hd ys = xs ! i"
proof -
  let ?zs = "swap_items xs i 0"
  have i: "i < length xs" using find_slot_bounds [OF assms(3)] assms(2) by auto
  have "sumR \<noteq> 0" using assms(1,2) by (auto simp: sample_loop.simps [of rnd "length xs"] split: if_splits)
  then have "sample_loop rnd (length xs - 1) ?zs (sumR - priority (xs ! i)) 1 = Some ys"
    using assms by (simp add: sample_loop.simps [of rnd "length xs"])
  then have "mset ys = mset ?zs" and t: "take 1 ys = take 1 ?zs"
    using sample_loop_perm [of rnd "length xs - 1" ?zs _ 1 ys] assms(2) by auto
  then have "length ys = length xs" using mset_eq_length by force
  moreover have "length ?zs = length xs" by simp
  ultimately have "ys \<noteq> []" "?zs \<noteq> []" using assms(2) by (metis list.size(3) not_numeral_le_zero)+
  then have "hd ys = hd ?zs" using t by (cases ys; cases ?zs) auto
  moreover have "?zs ! 0 = xs ! i" using i by (intro nth_swap_items) auto
  ultimately show ?thesis using \<open>?zs \<noteq> []\<close> by (simp add: hd_conv_nth)
qed

section \<open>Fairness\<close>

text \<open>C37: of the equally likely first draws exactly \<open>priority\<close> many choose a queue, and the chosen queue
  comes first in the order that \<open>sample\<close> produces, which is a permutation of the queues.\<close>

theorem first_pick_share:
  assumes "sampler_inv s" and "2 \<le> length (samples s)" and "i < length (samples s)"
  shows "card {rn. find_slot (samples s) rn 0 0 (length (samples s) - 1) = Some i} = priority (samples s ! i) \<and>
    (\<forall>rnd. (\<forall>k n. 0 < n \<longrightarrow> rnd k n < n) \<longrightarrow>
       find_slot (samples s) (rnd 0 (prioSum s)) 0 0 (length (samples s) - 1) = Some i \<longrightarrow>
       (\<exists>s'. sample rnd s = Some s' \<and> hd (samples s') = samples s ! i \<and> mset (samples s') = mset (samples s) \<and> prioSum s' = prioSum s))"
proof (intro conjI allI impI)
  show "card {rn. find_slot (samples s) rn 0 0 (length (samples s) - 1) = Some i} = priority (samples s ! i)"
    using assms(2,3) by (intro find_slot_count) auto
  fix rnd :: "nat \<Rightarrow> nat \<Rightarrow> nat" assume rnd: "\<forall>k n. 0 < n \<longrightarrow> rnd k n < n"
    and slot: "find_slot (samples s) (rnd 0 (prioSum s)) 0 0 (length (samples s) - 1) = Some i"
  obtain ys where ys: "sample_loop rnd (length (samples s)) (samples s) (prioSum s) 0 = Some ys"
    using sample_loop_no_panic [OF rnd, of "prioSum s" 0 "samples s" "length (samples s)"] assms(1)
    by (auto simp: sampler_inv_def)
  then show "\<exists>s'. sample rnd s = Some s' \<and> hd (samples s') = samples s ! i \<and> mset (samples s') = mset (samples s) \<and> prioSum s' = prioSum s"
    using sample_loop_first [OF ys assms(2) slot] sample_loop_perm [OF ys] by (simp add: sample_def)
qed

definition two_queues :: prioritySampler where
  "two_queues = sampler_add \<lparr>priority = 3, redisJobs = ''b'', redisJobsInProg = [], redisJobsPaused = [], redisJobsLock = [],
       redisJobsLockInfo = [], redisJobsMaxConcurrency = []\<rparr>
     (sampler_add \<lparr>priority = 2, redisJobs = ''a'', redisJobsInProg = [], redisJobsPaused = [], redisJobsLock = [],
       redisJobsLockInfo = [], redisJobsMaxConcurrency = []\<rparr> empty_sampler)"

theorem first_pick_share_witness: "card {rn. find_slot (samples two_queues) rn 0 0 (length (samples two_queues) - 1) = Some 0} = 2"
proof -
  have "samples two_queues ! 0 = samples two_queues ! 0 \<and> priority (samples two_queues ! 0) = 2"
    by (simp add: two_queues_def sampler_add_def empty_sampler_def)
  moreover have "sampler_inv two_queues" unfolding two_queues_def by (intro sampler_inv_add sampler_inv_empty) simp_all
  moreover have "length (samples two_queues) = 2" by (simp add: two_queues_def sampler_add_def empty_sampler_def)
  ultimately show ?thesis using first_pick_share [of two_queues 0] by simp
qed

end
