(* ===== verification/Script_Effects.thy ===== *)
theory Script_Effects
  imports Lua_Jobs Priority_Sampler
begin

text \<open>
  What each script of \<open>redis.go\<close> does to a keyspace whose keys have the types the program gives
  them, derived from the server's laws: the effect of every branch as an equation.
\<close>

section \<open>Calls\<close>

lemma rcall_reply: "call R c db = (r, db') \<Longrightarrow> \<not> is_err r \<Longrightarrow> rcall R c db = (Inr r, db')"
  by (auto simp: rcall_def is_err_def split: reply.splits)

lemma not_is_err [simp]:
  "\<not> is_err RNil" "\<not> is_err (RInt n)" "\<not> is_err (RBulk s)" "\<not> is_err (RStatus s)"
  "\<not> is_err (RArr rs)" "\<not> is_err (opt_bulk so)"
  by (simp_all add: is_err_def opt_bulk_def split: option.splits)

lemma ebind_rcall: "call R c db = (r, db') \<Longrightarrow> \<not> is_err r \<Longrightarrow> ebind (rcall R c) f db = f r db'"
  by (simp add: ebind_Inr rcall_reply)

lemma ebind_rcall_any:
  assumes "\<exists>n. call R c db = (RInt n, db')"
  shows "ebind (rcall R c) (\<lambda>_. g) db = g db'"
  using assms by (auto simp: ebind_rcall)

context redis_server
begin

lemmas bind_call_laws [redis_laws] =
  ebind_rcall [OF get] ebind_rcall [OF set] ebind_rcall [OF set_ex]
  ebind_rcall [OF set_nx_new] ebind_rcall [OF set_nx_old] ebind_rcall [OF del]
  ebind_rcall [OF incr] ebind_rcall [OF decr] ebind_rcall [OF decrby]
  ebind_rcall [OF llen] ebind_rcall [OF lpush] ebind_rcall [OF lrem]
  ebind_rcall [OF rpoplpush] ebind_rcall [OF rpoplpush_empty]
  ebind_rcall [OF hget] ebind_rcall [OF hincrby] ebind_rcall [OF zcard]
  ebind_rcall [OF zrangebyscore]
  ebind_rcall_any [OF sadd] ebind_rcall_any [OF srem] ebind_rcall_any [OF hdel]
  ebind_rcall_any [OF zadd] ebind_rcall_any [OF zrem]

end

lemma tonumber_simps [simp]:
  "tonumber RNil = None" "tonumber (RInt n) = Some n" "tonumber (RBulk s) = int_of_string s"
  by (simp_all add: tonumber_def)

lemma opt_bulk_simps [simp]:
  "opt_bulk None = RNil" "opt_bulk (Some s) = RBulk s" "opt_bulk so = RNil \<longleftrightarrow> so = None"
  by (simp_all add: opt_bulk_def split: option.splits)

lemma bulks_simps [simp]: "bulks (RArr []) = []" "bulks (RArr (RBulk m # rs)) = m # bulks (RArr rs)"
  by (simp_all add: bulks_def List.map_filter_def)

lemma bulks_map [simp]: "bulks (RArr (map (\<lambda>x. RBulk (f x)) xs)) = map f xs"
  by (induction xs) (simp_all add: bulks_def List.map_filter_def)

section \<open>Fetching\<close>

definition sample_keys :: "sampleItem \<Rightarrow> string list" where
  "sample_keys s = [redisJobs s, redisJobsInProg s, redisJobsPaused s, redisJobsLock s,
     redisJobsLockInfo s, redisJobsMaxConcurrency s]"

definition str_num :: "keyspace \<Rightarrow> string \<Rightarrow> int option" where
  "str_num db k = (case str db k of None \<Rightarrow> None | Some t \<Rightarrow> int_of_string t)"

text \<open>The three conditions under which a queue may give a job away.\<close>

definition under_cap :: "keyspace \<Rightarrow> sampleItem \<Rightarrow> bool" where
  "under_cap db s =
     (case str_num db (redisJobsMaxConcurrency s) of
        None \<Rightarrow> True
      | Some m \<Rightarrow> m = 0 \<or> (case str_num db (redisJobsLock s) of None \<Rightarrow> True | Some a \<Rightarrow> a < m))"

definition runnable :: "keyspace \<Rightarrow> sampleItem \<Rightarrow> bool" where
  "runnable db s \<longleftrightarrow>
     lst db (redisJobs s) \<noteq> [] \<and> str db (redisJobsPaused s) = None \<and> under_cap db s"

definition fetch_typed :: "string \<Rightarrow> keyspace \<Rightarrow> sampleItem \<Rightarrow> bool" where
  "fetch_typed pool db s \<longleftrightarrow>
     list_type (kv db (redisJobs s)) \<and> list_type (kv db (redisJobsInProg s)) \<and>
     str_type (kv db (redisJobsPaused s)) \<and> num_type (kv db (redisJobsMaxConcurrency s)) \<and>
     num_type (kv db (redisJobsLock s)) \<and> in_i64 (num db (redisJobsLock s) + 1) \<and>
     hash_type (kv db (redisJobsLockInfo s)) \<and> hnum_ok (hsh db (redisJobsLockInfo s)) pool \<and>
     in_i64 (hnum (hsh db (redisJobsLockInfo s)) pool + 1) \<and>
     distinct [redisJobs s, redisJobsInProg s, redisJobsLock s, redisJobsLockInfo s]"

definition fetch_effect :: "string \<Rightarrow> sampleItem \<Rightarrow> keyspace \<Rightarrow> keyspace" where
  "fetch_effect pool s db =
     (let q = lst db (redisJobs s); h = hsh db (redisJobsLockInfo s) in
      upd (redisJobsInProg s) (vlist (last q # lst db (redisJobsInProg s)))
        (upd (redisJobs s) (vlist (butlast q))
          (upd (redisJobsLockInfo s) (vhash (hput pool (string_of_int (hnum h pool + 1)) h))
            (upd (redisJobsLock s) (vint (num db (redisJobsLock s) + 1)) db))))"

definition fetch_reply :: "sampleItem \<Rightarrow> keyspace \<Rightarrow> reply" where
  "fetch_reply s db = RArr [RBulk (last (lst db (redisJobs s))), RBulk (redisJobs s), RBulk (redisJobsInProg s)]"

context redis_server
begin

lemma haveJobs_effect:
  "list_type (kv db k) \<Longrightarrow> haveJobs R k db = (Inr (lst db k \<noteq> []), db)"
  by (simp add: haveJobs_def redis_laws act_simps)

lemma isPaused_effect:
  "str_type (kv db k) \<Longrightarrow> isPaused R k db = (Inr (str db k \<noteq> None), db)"
  by (simp add: isPaused_def redis_laws act_simps)

lemma tonumber_get: "tonumber (opt_bulk (str db k)) = str_num db k"
  by (simp add: str_num_def split: option.splits)

lemma canRun_effect:
  "str_type (kv db (redisJobsLock s)) \<Longrightarrow>
   canRun R (redisJobsLock s) (str_num db (redisJobsMaxConcurrency s)) db = (Inr (under_cap db s), db)"
  by (simp add: canRun_def redis_laws act_simps tonumber_get under_cap_def split: option.split)

lemma acquireLock_effect:
  assumes "num_type (kv db l)" "in_i64 (num db l + 1)" "hash_type (kv db i)" "hnum_ok (hsh db i) p"
    "in_i64 (hnum (hsh db i) p + 1)" "l \<noteq> i"
  shows "acquireLock R l i p db =
    (Inr (), upd i (vhash (hput p (string_of_int (hnum (hsh db i) p + 1)) (hsh db i)))
       (upd l (vint (num db l + 1)) db))"
  using assms by (simp add: acquireLock_def redis_laws act_simps obs_simps)

lemma fetch_take:
  assumes "fetch_typed pool db s" and "runnable db s"
  shows "redisLuaFetchJob R pool (sample_keys s @ rest) db = (Inr (fetch_reply s db), fetch_effect pool s db)"
  using assms
  by (simp add: sample_keys_def fetch_typed_def runnable_def redis_laws act_simps haveJobs_effect
      isPaused_effect canRun_effect tonumber_get acquireLock_effect obs_simps fetch_reply_def
      fetch_effect_def Let_def ebind_Inr [OF haveJobs_effect] ebind_Inr [OF isPaused_effect]
      ebind_Inr [OF canRun_effect] ebind_Inr [OF acquireLock_effect])

lemma fetch_skip:
  assumes "fetch_typed pool db s" and "\<not> runnable db s"
  shows "redisLuaFetchJob R pool (sample_keys s @ rest) db = redisLuaFetchJob R pool rest db"
  using assms
  by (auto simp: sample_keys_def fetch_typed_def runnable_def redis_laws act_simps tonumber_get
      ebind_Inr [OF haveJobs_effect] ebind_Inr [OF isPaused_effect] ebind_Inr [OF canRun_effect])

lemma fetch_script:
  assumes "\<forall>s\<in>set ss. fetch_typed pool db s"
  shows "redisLuaFetchJob R pool (concat (map sample_keys ss)) db =
    (case find (runnable db) ss of
       None \<Rightarrow> (Inr RNil, db)
     | Some s \<Rightarrow> (Inr (fetch_reply s db), fetch_effect pool s db))"
  using assms
proof (induction ss)
  case Nil
  then show ?case by (simp add: act_simps)
next
  case (Cons s ss)
  then show ?case by (cases "runnable db s") (simp_all add: fetch_take fetch_skip)
qed

end

section \<open>Re-enqueueing\<close>

definition requeue_keys :: "sampleItem \<Rightarrow> string list" where
  "requeue_keys s = [redisJobsInProg s, redisJobs s, redisJobsLock s, redisJobsLockInfo s]"

definition requeue_typed :: "string \<Rightarrow> keyspace \<Rightarrow> sampleItem \<Rightarrow> bool" where
  "requeue_typed pool db s \<longleftrightarrow>
     list_type (kv db (redisJobs s)) \<and> list_type (kv db (redisJobsInProg s)) \<and>
     num_type (kv db (redisJobsLock s)) \<and> in_i64 (num db (redisJobsLock s) - 1) \<and>
     hash_type (kv db (redisJobsLockInfo s)) \<and> hnum_ok (hsh db (redisJobsLockInfo s)) pool \<and>
     in_i64 (hnum (hsh db (redisJobsLockInfo s)) pool - 1) \<and>
     distinct [redisJobsLockInfo s, redisJobsLock s, redisJobsInProg s, redisJobs s]"

definition requeue_effect :: "string \<Rightarrow> sampleItem \<Rightarrow> keyspace \<Rightarrow> keyspace" where
  "requeue_effect pool s db =
     (let p = lst db (redisJobsInProg s); h = hsh db (redisJobsLockInfo s) in
      upd (redisJobsLockInfo s) (vhash (hput pool (string_of_int (hnum h pool - 1)) h))
        (upd (redisJobsLock s) (vint (num db (redisJobsLock s) - 1))
          (upd (redisJobs s) (vlist (last p # lst db (redisJobs s)))
            (upd (redisJobsInProg s) (vlist (butlast p)) db))))"

definition requeue_reply :: "sampleItem \<Rightarrow> keyspace \<Rightarrow> reply" where
  "requeue_reply s db =
     RArr [RBulk (last (lst db (redisJobsInProg s))), RBulk (redisJobsInProg s), RBulk (redisJobs s)]"

definition has_inprog :: "keyspace \<Rightarrow> sampleItem \<Rightarrow> bool" where
  "has_inprog db s \<longleftrightarrow> lst db (redisJobsInProg s) \<noteq> []"

context redis_server
begin

lemma releaseLock_effect:
  assumes "num_type (kv db l)" "in_i64 (num db l - 1)" "hash_type (kv db i)" "hnum_ok (hsh db i) p"
    "in_i64 (hnum (hsh db i) p - 1)" "i \<noteq> l"
  shows "releaseLock R l i p db =
    (Inr (), upd i (vhash (hput p (string_of_int (hnum (hsh db i) p - 1)) (hsh db i)))
       (upd l (vint (num db l - 1)) db))"
  using assms by (simp add: releaseLock_def redis_laws act_simps obs_simps)

lemma reenqueue_take:
  assumes "requeue_typed pool db s" and "has_inprog db s"
  shows "redisLuaReenqueueJob R pool (requeue_keys s @ rest) db =
    (Inr (requeue_reply s db), requeue_effect pool s db)"
  using assms
  by (simp add: requeue_keys_def requeue_typed_def has_inprog_def redis_laws act_simps
      ebind_Inr [OF releaseLock_effect] obs_simps requeue_reply_def requeue_effect_def Let_def)

lemma reenqueue_skip:
  assumes "requeue_typed pool db s" and "\<not> has_inprog db s"
  shows "redisLuaReenqueueJob R pool (requeue_keys s @ rest) db = redisLuaReenqueueJob R pool rest db"
  using assms by (simp add: requeue_keys_def requeue_typed_def has_inprog_def redis_laws act_simps)

lemma reenqueue_script:
  assumes "\<forall>s\<in>set ss. requeue_typed pool db s"
  shows "redisLuaReenqueueJob R pool (concat (map requeue_keys ss)) db =
    (case find (has_inprog db) ss of
       None \<Rightarrow> (Inr RNil, db)
     | Some s \<Rightarrow> (Inr (requeue_reply s db), requeue_effect pool s db))"
  using assms
proof (induction ss)
  case Nil
  then show ?case by (simp add: act_simps)
next
  case (Cons s ss)
  then show ?case by (cases "has_inprog db s") (simp_all add: reenqueue_take reenqueue_skip)
qed

end

section \<open>Stale locks\<close>

definition lock_keys :: "sampleItem \<Rightarrow> string list" where
  "lock_keys s = [redisJobsLock s, redisJobsLockInfo s]"

definition reap_typed :: "string \<Rightarrow> keyspace \<Rightarrow> sampleItem \<Rightarrow> bool" where
  "reap_typed pool db s \<longleftrightarrow>
     num_type (kv db (redisJobsLock s)) \<and> hash_type (kv db (redisJobsLockInfo s)) \<and>
     hnum_ok (hsh db (redisJobsLockInfo s)) pool \<and>
     (let n = hnum (hsh db (redisJobsLockInfo s)) pool
      in in_i64 (- n) \<and> in_i64 (num db (redisJobsLock s) - n))"

text \<open>
  The locks a dead pool holds are given back and its entry removed; a counter below zero is reset.
  The last argument is the keyspace, so that the effect on several items is a fold.
\<close>

definition reap_effect :: "string \<Rightarrow> sampleItem \<Rightarrow> keyspace \<Rightarrow> keyspace" where
  "reap_effect pool s db =
     (case hget db (redisJobsLockInfo s) pool of
        None \<Rightarrow> db
      | Some t \<Rightarrow>
          (case int_of_string t of
             None \<Rightarrow> db
           | Some n \<Rightarrow>
               (let left = num db (redisJobsLock s) - n;
                    db' = upd (redisJobsLockInfo s) (vhash (hdel pool (hsh db (redisJobsLockInfo s))))
                            (upd (redisJobsLock s) (vint left) db)
                in if left < 0 then set_ttl (redisJobsLock s) None (upd (redisJobsLock s) (vint 0) db')
                   else db')))"

lemma string_of_int_0: "string_of_int 0 = ''0''"
  by (simp add: string_of_int_def string_of_nat.simps digit_char_def)

lemma reap_effect_other:
  "k \<noteq> redisJobsLock s \<Longrightarrow> k \<noteq> redisJobsLockInfo s \<Longrightarrow> kv (reap_effect pool s db) k = kv db k"
  by (simp add: reap_effect_def Let_def obs_simps split: option.split)

lemma reap_typed_other:
  assumes "set (lock_keys s) \<inter> set (lock_keys s') = {}"
  shows "reap_typed pool (reap_effect pool s db) s' \<longleftrightarrow> reap_typed pool db s'"
  using assms by (simp add: reap_typed_def lock_keys_def reap_effect_other)

context redis_server
begin

lemma reap_step:
  assumes "reap_typed pool db s" and "redisJobsLock s \<noteq> redisJobsLockInfo s"
  shows "redisLuaReapStaleLocks R pool (lock_keys s @ rest) db =
    redisLuaReapStaleLocks R pool rest (reap_effect pool s db)"
proof (cases "hget db (redisJobsLockInfo s) pool")
  case None
  with assms show ?thesis by (simp add: reap_typed_def lock_keys_def redis_laws reap_effect_def)
next
  case (Some t)
  show ?thesis
  proof (cases "int_of_string t")
    case None
    with Some assms show ?thesis
      by (simp add: reap_typed_def lock_keys_def redis_laws reap_effect_def)
  next
    case n: (Some n)
    with Some have "hnum (hsh db (redisJobsLockInfo s)) pool = n" by (simp add: hnum_def)
    with Some n assms show ?thesis
      by (simp add: reap_typed_def lock_keys_def redis_laws reap_effect_def Let_def obs_simps
          act_simps string_of_int_0 vint_def)
  qed
qed

lemma reap_script:
  assumes "\<forall>s\<in>set ss. reap_typed pool db s" and "distinct (concat (map lock_keys ss))"
  shows "redisLuaReapStaleLocks R pool (concat (map lock_keys ss)) db = (Inr RNil, fold (reap_effect pool) ss db)"
  using assms
proof (induction ss arbitrary: db)
  case Nil
  then show ?case by (simp add: act_simps)
next
  case (Cons s ss)
  have "set (lock_keys s) \<inter> set (lock_keys s') = {}" if "s' \<in> set ss" for s'
    using Cons.prems(2) that by auto
  then have "\<forall>s'\<in>set ss. reap_typed pool (reap_effect pool s db) s'"
    using Cons.prems(1) reap_typed_other by simp
  moreover have "redisJobsLock s \<noteq> redisJobsLockInfo s"
    using Cons.prems(2) by (simp add: lock_keys_def)
  ultimately show ?case using Cons by (simp add: reap_step)
qed

end

section \<open>Due jobs\<close>

abbreviation zrem_key :: "string \<Rightarrow> string \<Rightarrow> keyspace \<Rightarrow> keyspace" where
  "zrem_key k m db \<equiv> upd k (vzset (zrem m (zst db k))) db"

abbreviation zadd_key :: "string \<Rightarrow> int \<Rightarrow> string \<Rightarrow> keyspace \<Rightarrow> keyspace" where
  "zadd_key k s m db \<equiv> upd k (vzset (zadd s m (zst db k))) db"

abbreviation lpush_key :: "string \<Rightarrow> string \<Rightarrow> keyspace \<Rightarrow> keyspace" where
  "lpush_key k v db \<equiv> upd k (vlist (v # lst db k)) db"

definition due :: "int \<Rightarrow> (int \<times> string) list \<Rightarrow> (int \<times> string) list" where
  "due now z = filter (\<lambda>x. fst x \<le> now) z"

lemma zrange_due: "zrange None (Some now) z = due now z"
  by (auto simp: zrange_def due_def intro: filter_cong)

lemma zrange_score: "zrange (Some s) (Some s) z = filter (\<lambda>x. fst x = s) z"
  by (auto simp: zrange_def intro: filter_cong)

context redis_server
begin

lemma move_due_none:
  assumes "zset_type (kv db zkey)" and "due now (zst db zkey) = []"
  shows "redisLuaZremLpushCmd R (zkey # dkey # queues) prefix now db = (Inr RNil, db)"
  using assms
  by (simp add: redisLuaZremLpushCmd_def redis_laws act_simps zrange_due zlimit_def limit_ok_def in_i64_def)

lemma move_due_first:
  assumes "zset_type (kv db zkey)" and "due now (zst db zkey) = (s, m) # ds"
    and "cjson_decode R m = Some j"
  shows "redisLuaZremLpushCmd R (zkey # dkey # queues) prefix now db =
    (case lua_concat prefix (jget ''name'' j) of
       None \<Rightarrow> efail ''attempt to concatenate field 'name' (a nil value)''
     | Some queue \<Rightarrow>
         if queue \<in> set (zkey # dkey # queues) then
           ebind (rcall R (LPUSH queue (cjson_encode R (jset ''t'' (json_int now) j)))) (\<lambda>_. eret (RBulk ''ok''))
         else
           ebind (rcall R (ZADD dkey now (cjson_encode R (unknown_job now j)))) (\<lambda>_. eret (RBulk ''dead'')))
      (zrem_key zkey m db)"
  using assms
  by (simp add: redisLuaZremLpushCmd_def redis_laws act_simps zrange_due zlimit_def limit_ok_def in_i64_def)

lemma move_due_known:
  assumes "zset_type (kv db zkey)" and "due now (zst db zkey) = (s, m) # ds"
    and "cjson_decode R m = Some j" and "lua_concat prefix (jget ''name'' j) = Some queue"
    and "queue \<in> set queues" and "queue \<noteq> zkey" and "list_type (kv db queue)"
  shows "redisLuaZremLpushCmd R (zkey # dkey # queues) prefix now db =
    (Inr (RBulk ''ok''), lpush_key queue (cjson_encode R (jset ''t'' (json_int now) j)) (zrem_key zkey m db))"
  using assms by (simp add: move_due_first redis_laws act_simps obs_simps)

lemma move_due_unknown:
  assumes "zset_type (kv db zkey)" and "due now (zst db zkey) = (s, m) # ds"
    and "cjson_decode R m = Some j" and "lua_concat prefix (jget ''name'' j) = Some queue"
    and "queue \<notin> set (zkey # dkey # queues)" and "zset_type (kv db dkey)" and "score_ok now"
  shows "redisLuaZremLpushCmd R (zkey # dkey # queues) prefix now db =
    (Inr (RBulk ''dead''), zadd_key dkey now (cjson_encode R (unknown_job now j)) (zrem_key zkey m db))"
  using assms by (simp add: move_due_first redis_laws act_simps obs_simps)

lemma move_due_nameless:
  assumes "zset_type (kv db zkey)" and "due now (zst db zkey) = (s, m) # ds"
    and "cjson_decode R m = Some j" and "jget ''name'' j = None"
  shows "redisLuaZremLpushCmd R (zkey # dkey # queues) prefix now db =
    (Inl ''attempt to concatenate field 'name' (a nil value)'', zrem_key zkey m db)"
  using assms by (simp add: move_due_first act_simps lua_concat_def)

end

section \<open>Deleting by hand\<close>

definition has_id :: "'w redis \<Rightarrow> string \<Rightarrow> string \<Rightarrow> bool" where
  "has_id R jobID m = (case cjson_decode R m of None \<Rightarrow> False | Some j \<Rightarrow> jget ''id'' j = Some (JStr jobID))"

lemma zrem_all:
  "zst (fold (zrem_key k) ms db) k = filter (\<lambda>x. snd x \<notin> set ms) (zst db k)"
  by (induction ms arbitrary: db) (auto simp: zrem_def obs_simps intro: filter_cong)

lemma zrem_all_other: "k' \<noteq> k \<Longrightarrow> kv (fold (zrem_key k) ms db) k' = kv db k'"
  by (induction ms arbitrary: db) (simp_all add: obs_simps)

context redis_server
begin

lemma delete_loop_effect:
  assumes "zset_type (kv db zkey)" and "\<forall>m\<in>set ms. cjson_decode R m \<noteq> None"
  shows "delete_loop R zkey jobID ms n b db =
    (let hits = filter (has_id R jobID) ms in
     (Inr (RArr [RInt (n + int (length hits)), RBulk (if hits = [] then b else last hits)]),
      fold (zrem_key zkey) hits db))"
  using assms
proof (induction ms arbitrary: db n b)
  case Nil
  then show ?case by (simp add: act_simps)
next
  case (Cons m ms)
  then obtain j where j: "cjson_decode R m = Some j" by auto
  show ?case
  proof (cases "jget ''id'' j = Some (JStr jobID)")
    case True
    with Cons j show ?thesis by (simp add: redis_laws obs_simps has_id_def Let_def)
  next
    case False
    with Cons j show ?thesis by (simp add: has_id_def Let_def)
  qed
qed

lemma delete_single_effect:
  assumes "zset_type (kv db zkey)"
    and "\<forall>x\<in>set (zst db zkey). fst x = score \<longrightarrow> cjson_decode R (snd x) \<noteq> None"
  shows "redisLuaDeleteSingleCmd R zkey score jobID db =
    (let hits = filter (has_id R jobID) (map snd (filter (\<lambda>x. fst x = score) (zst db zkey))) in
     (Inr (RArr [RInt (int (length hits)), RBulk (if hits = [] then [] else last hits)]),
      fold (zrem_key zkey) hits db))"
  using assms
  by (simp add: redisLuaDeleteSingleCmd_def redis_laws zrange_score zlimit_def limit_ok_def delete_loop_effect)

end

section \<open>Requeueing dead jobs\<close>

definition dead_typed :: "string list \<Rightarrow> keyspace \<Rightarrow> bool" where
  "dead_typed keys db \<longleftrightarrow> keys \<noteq> [] \<and> zset_type (kv db (hd keys)) \<and>
     (\<forall>q\<in>set (tl keys). list_type (kv db q) \<and> q \<noteq> hd keys)"

text \<open>The queue of a dead job, and what requeueing it does.\<close>

definition dead_queue :: "'w redis \<Rightarrow> string \<Rightarrow> string \<Rightarrow> string option" where
  "dead_queue R prefix m =
     (case cjson_decode R m of None \<Rightarrow> None | Some j \<Rightarrow> lua_concat prefix (jget ''name'' j))"

definition dead_ok :: "'w redis \<Rightarrow> string list \<Rightarrow> string \<Rightarrow> string \<Rightarrow> bool" where
  "dead_ok R keys prefix m \<longleftrightarrow> (\<exists>q. dead_queue R prefix m = Some q \<and> q \<noteq> hd keys)"

definition dead_known :: "'w redis \<Rightarrow> string list \<Rightarrow> string \<Rightarrow> string \<Rightarrow> bool" where
  "dead_known R keys prefix m = (case dead_queue R prefix m of None \<Rightarrow> False | Some q \<Rightarrow> q \<in> set (tl keys))"

definition revive_effect :: "'w redis \<Rightarrow> string list \<Rightarrow> string \<Rightarrow> int \<Rightarrow> string \<Rightarrow> keyspace \<Rightarrow> keyspace" where
  "revive_effect R keys prefix now m db =
     (let db' = zrem_key (hd keys) m db; j = the (cjson_decode R m); q = the (dead_queue R prefix m) in
      if q \<in> set (tl keys) then lpush_key q (cjson_encode R (revived now j)) db'
      else zadd_key (hd keys) (now + 5) (cjson_encode R (unknown_job now j)) db')"

lemma dead_typed_revive:
  "dead_typed keys db \<Longrightarrow> dead_typed keys (revive_effect R keys prefix now m db)"
  by (auto simp: dead_typed_def revive_effect_def Let_def obs_simps)

context redis_server
begin

lemma requeue_dead_effect:
  assumes "dead_typed keys db" and "dead_ok R keys prefix m" and "cjson_decode R m = Some j"
    and "score_ok (now + 5)"
  shows "requeue_dead R keys prefix now m j db =
    (Inr (if dead_known R keys prefix m then 1 else 0), revive_effect R keys prefix now m db)"
proof -
  obtain dkey queues where keys: "keys = dkey # queues"
    using assms(1) by (cases keys) (auto simp: dead_typed_def)
  moreover obtain q where "lua_concat prefix (jget ''name'' j) = Some q" "q \<noteq> dkey"
    using assms(2,3) keys by (auto simp: dead_ok_def dead_queue_def)
  ultimately show ?thesis using assms
    by (auto simp: requeue_dead_def dead_typed_def dead_known_def dead_queue_def revive_effect_def
        Let_def redis_laws act_simps obs_simps)
qed

lemma requeue_all_loop_effect:
  assumes "dead_typed keys db" and "\<forall>m\<in>set ms. dead_ok R keys prefix m" and "score_ok (now + 5)"
  shows "requeue_all_loop R keys prefix now ms n db =
    (Inr (RInt (n + int (length (filter (dead_known R keys prefix) ms)))),
     fold (revive_effect R keys prefix now) ms db)"
  using assms
proof (induction ms arbitrary: db n)
  case Nil
  then show ?case by (simp add: act_simps)
next
  case (Cons m ms)
  then obtain j where j: "cjson_decode R m = Some j"
    by (auto simp: dead_ok_def dead_queue_def split: option.splits)
  with Cons show ?case by (simp add: ebind_Inr [OF requeue_dead_effect] dead_typed_revive)
qed

lemma requeue_all_effect:
  assumes "dead_typed keys db" and "\<forall>x\<in>set (due now (zst db (hd keys))). dead_ok R keys prefix (snd x)"
    and "score_ok (now + 5)" and "in_i64 (int maxJobs)"
  shows "redisLuaRequeueAllDeadCmd R keys prefix now maxJobs db =
    (let ms = map snd (take maxJobs (due now (zst db (hd keys)))) in
     (Inr (RInt (int (length (filter (dead_known R keys prefix) ms)))),
      fold (revive_effect R keys prefix now) ms db))"
proof -
  obtain dkey queues where keys: "keys = dkey # queues"
    using assms(1) by (cases keys) (auto simp: dead_typed_def)
  moreover have "\<forall>m\<in>set (map snd (take maxJobs (due now (zst db dkey)))). dead_ok R keys prefix m"
    using assms(2) keys by (auto dest: in_set_takeD)
  moreover have "zset_type (kv db dkey)" using assms(1) keys by (simp add: dead_typed_def)
  ultimately show ?thesis
    using assms(3,4) requeue_all_loop_effect [OF assms(1), of "map snd (take maxJobs (due now (zst db dkey)))" prefix now 0]
    by (simp add: redisLuaRequeueAllDeadCmd_def redis_laws zrange_due zlimit_def limit_ok_def in_i64_def)
qed

end

text \<open>A batch of known jobs: each queue receives its jobs in order, and they leave the dead set.\<close>

lemma revive_all_known:
  assumes "\<forall>m\<in>set ms. dead_known R keys prefix m" and "dead_typed keys db"
  shows "zst (fold (revive_effect R keys prefix now) ms db) (hd keys) =
      filter (\<lambda>x. snd x \<notin> set ms) (zst db (hd keys))"
    and "q \<noteq> hd keys \<Longrightarrow> lst (fold (revive_effect R keys prefix now) ms db) q =
      rev (map (\<lambda>m. cjson_encode R (revived now (the (cjson_decode R m))))
        (filter (\<lambda>m. dead_queue R prefix m = Some q) ms)) @ lst db q"
proof -
  have step: "zst (revive_effect R keys prefix now m d) (hd keys) = zrem m (zst d (hd keys))"
    "q \<noteq> hd keys \<Longrightarrow> lst (revive_effect R keys prefix now m d) q =
       (if dead_queue R prefix m = Some q then [cjson_encode R (revived now (the (cjson_decode R m)))] else [])
       @ lst d q"
    if "dead_known R keys prefix m" "dead_typed keys d" for m d
    using that
    by (auto simp: dead_known_def revive_effect_def dead_typed_def Let_def obs_simps split: option.splits)
  show "zst (fold (revive_effect R keys prefix now) ms db) (hd keys) =
      filter (\<lambda>x. snd x \<notin> set ms) (zst db (hd keys))"
    using assms
    by (induction ms arbitrary: db) (auto simp: step dead_typed_revive zrem_def intro: filter_cong)
  show "lst (fold (revive_effect R keys prefix now) ms db) q =
      rev (map (\<lambda>m. cjson_encode R (revived now (the (cjson_decode R m))))
        (filter (\<lambda>m. dead_queue R prefix m = Some q) ms)) @ lst db q" if "q \<noteq> hd keys"
    using assms that by (induction ms arbitrary: db) (auto simp: step dead_typed_revive)
qed

section \<open>Unique jobs\<close>

abbreviation set_unique :: "string \<Rightarrow> string \<Rightarrow> keyspace \<Rightarrow> keyspace" where
  "set_unique k v db \<equiv> set_ttl k (Some unique_ttl) (upd k (Some (VStr v)) db)"

context redis_server
begin

lemma enqueue_unique_new:
  assumes "kv db uniq = None" and "list_type (kv db queue)" and "queue \<noteq> uniq"
  shows "redisLuaEnqueueUnique R queue uniq raw updated db =
    (Inr (RBulk ''ok''), lpush_key queue raw (set_unique uniq updated db))"
  using assms by (simp add: redisLuaEnqueueUnique_def redis_laws act_simps obs_simps)

lemma enqueue_unique_dup:
  assumes "kv db uniq \<noteq> None"
  shows "redisLuaEnqueueUnique R queue uniq raw updated db =
    (Inr (RBulk ''dup''), set_unique uniq updated db)"
  using assms by (simp add: redisLuaEnqueueUnique_def redis_laws act_simps)

lemma enqueue_unique_in_new:
  assumes "kv db uniq = None" and "zset_type (kv db zkey)" and "zkey \<noteq> uniq" and "score_ok runAt"
  shows "redisLuaEnqueueUniqueIn R zkey uniq raw updated runAt db =
    (Inr (RBulk ''ok''), zadd_key zkey runAt raw (set_unique uniq updated db))"
  using assms by (simp add: redisLuaEnqueueUniqueIn_def redis_laws act_simps obs_simps)

lemma enqueue_unique_in_dup:
  assumes "kv db uniq \<noteq> None"
  shows "redisLuaEnqueueUniqueIn R zkey uniq raw updated runAt db =
    (Inr (RBulk ''dup''), set_unique uniq updated db)"
  using assms by (simp add: redisLuaEnqueueUniqueIn_def redis_laws act_simps)

end

end
