(* ===== verification/Go_Text.thy ===== *)
theory Go_Text
  imports Json_Text
begin

text \<open>
  Text functions of Go's standard library that the client, the web UI, the embedded assets and the
  commands use: \<open>strconv\<close>'s numbers, their errors and quoting, and the lexical part of
  \<open>path/filepath\<close> on Unix.
\<close>

section \<open>Numbers\<close>

text \<open>\<open>strconv.ParseUint(s, 10, 0)\<close> and \<open>strconv.ParseInt(s, 10, 64)\<close>.\<close>

definition strconv_ParseUint :: "string \<Rightarrow> nat option" where
  "strconv_ParseUint s =
     (if s \<noteq> [] \<and> list_all is_digit s \<and> nat_of_digits s < 2 ^ 64 then Some (nat_of_digits s) else None)"

definition unsigned_part :: "string \<Rightarrow> string" where
  "unsigned_part s = (if s \<noteq> [] \<and> (hd s = CHR ''-'' \<or> hd s = CHR ''+'') then tl s else s)"

definition strconv_ParseInt :: "string \<Rightarrow> int option" where
  "strconv_ParseInt s =
     (let neg = (s \<noteq> [] \<and> hd s = CHR ''-'');
          t = unsigned_part s;
          n = (if neg then - int (nat_of_digits t) else int (nat_of_digits t)) in
      if t \<noteq> [] \<and> list_all is_digit t \<and> in_i64 n then Some n else None)"

text \<open>Why a number was rejected: digits only, so it is out of range, or anything else.\<close>

datatype num_err = ErrSyntax | ErrRange

definition num_reason :: "string \<Rightarrow> num_err" where
  "num_reason t = (if t \<noteq> [] \<and> list_all is_digit t then ErrRange else ErrSyntax)"

lemma ParseInt_string_of_int: "in_i64 n \<Longrightarrow> strconv_ParseInt (string_of_int n) = Some n"
proof (cases "n < 0")
  case False
  assume n: "in_i64 n"
  have "is_digit (hd (string_of_nat (nat n)))"
    using string_of_nat_digits [of "nat n"] string_of_nat_nonempty [of "nat n"] by (cases "string_of_nat (nat n)") auto
  then have "hd (string_of_nat (nat n)) \<noteq> CHR ''-''" "hd (string_of_nat (nat n)) \<noteq> CHR ''+''"
    by (auto simp: is_digit_def)
  with False n show ?thesis by (simp add: strconv_ParseInt_def unsigned_part_def string_of_int_def)
qed (simp add: strconv_ParseInt_def unsigned_part_def string_of_int_def)

lemma ParseUint_string_of_int: "n < 2 ^ 64 \<Longrightarrow> strconv_ParseUint (string_of_int (int n)) = Some n"
  by (simp add: strconv_ParseUint_def string_of_int_def)

section \<open>Quoting\<close>

text \<open>\<open>strconv.Quote\<close>, the verb \<open>%q\<close>. Bytes from 128 on belong to printable characters and are copied.\<close>

definition quote_char :: "char \<Rightarrow> string" where
  "quote_char c =
     (let n = (of_char c :: nat) in
      if n = 34 \<or> n = 92 then [CHR 0x5C, c]
      else if n = 7 then [CHR 0x5C, CHR ''a'']
      else if n = 8 then [CHR 0x5C, CHR ''b'']
      else if n = 12 then [CHR 0x5C, CHR ''f'']
      else if n = 10 then [CHR 0x5C, CHR ''n'']
      else if n = 13 then [CHR 0x5C, CHR ''r'']
      else if n = 9 then [CHR 0x5C, CHR ''t'']
      else if n = 11 then [CHR 0x5C, CHR ''v'']
      else if n < 32 \<or> n = 127 then [CHR 0x5C, CHR ''x'', hex_digit (n div 16), hex_digit (n mod 16)]
      else [c])"

definition strconv_Quote :: "string \<Rightarrow> string" where
  "strconv_Quote s = CHR 0x22 # concat (map quote_char s) @ [CHR 0x22]"

text \<open>The text of a \<open>strconv.NumError\<close>.\<close>

definition reason_text :: "num_err \<Rightarrow> string" where
  "reason_text r = (case r of ErrSyntax \<Rightarrow> ''invalid syntax'' | ErrRange \<Rightarrow> ''value out of range'')"

definition num_error_text :: "string \<Rightarrow> string \<Rightarrow> num_err \<Rightarrow> string" where
  "num_error_text fn num r = ''strconv.'' @ fn @ '': parsing '' @ strconv_Quote num @ '': '' @ reason_text r"

section \<open>Paths\<close>

text \<open>\<open>filepath.Clean\<close>: the components in order, with \<open>stack\<close> the ones kept so far, the last one first.\<close>

fun clean_steps :: "bool \<Rightarrow> string list \<Rightarrow> string list \<Rightarrow> string list" where
  "clean_steps rooted stack [] = rev stack"
| "clean_steps rooted stack (p # ps) =
     (if p = [] \<or> p = ''.'' then clean_steps rooted stack ps
      else if p = ''..'' then
        (if stack \<noteq> [] \<and> hd stack \<noteq> ''..'' then clean_steps rooted (tl stack) ps
         else if rooted then clean_steps rooted stack ps
         else clean_steps rooted (p # stack) ps)
      else clean_steps rooted (p # stack) ps)"

definition filepath_Clean :: "string \<Rightarrow> string" where
  "filepath_Clean path =
     (let rooted = (path \<noteq> [] \<and> hd path = CHR ''/'');
          out = strings_Join (clean_steps rooted [] (strings_Split path CHR ''/'')) CHR ''/'' in
      if rooted then CHR ''/'' # out else if out = [] then ''.'' else out)"

text \<open>\<open>filepath.Join\<close> ignores empty elements; the result for none is empty.\<close>

definition filepath_Join :: "string list \<Rightarrow> string" where
  "filepath_Join elems =
     (let es = filter (\<lambda>e. e \<noteq> []) elems in
      if es = [] then [] else filepath_Clean (strings_Join es CHR ''/''))"

text \<open>\<open>filepath.Dir\<close>: everything up to and including the last separator, cleaned.\<close>

definition filepath_Dir :: "string \<Rightarrow> string" where
  "filepath_Dir path = filepath_Clean (rev (dropWhile (\<lambda>c. c \<noteq> CHR ''/'') (rev path)))"

end
