(* ===== verification/Connection.thy ===== *)
theory Connection
  imports Script_Effects Go_Text
begin

text \<open>
  How the Go code talks to Redis: single commands, scripts, \<open>MULTI\<close> blocks and pipelines, over a
  connection that may fail. The second half is a small calculus for runs on a connection that is
  up: \<open>returns \<alpha> m x r y\<close> says that the action \<open>m\<close>, started in any state that looks like \<open>x\<close>,
  yields the result \<open>r\<close> in a state that looks like \<open>y\<close>.
\<close>

section \<open>Requests\<close>

text \<open>The errors the Go functions return; \<open>GoPanic\<close> is a panic that nobody recovers from.\<close>

datatype go_err =
    RedisErr rerr
  | MarshalErr
  | UnmarshalErr
  | ErrReplicationFailed
  | ErrNotDeleted
  | ErrNotRetried
  | NumError string string num_err
  | Errorf string
  | GoPanic string

definition is_panic :: "go_err + 'a \<Rightarrow> bool" where
  "is_panic r = (case r of Inl (GoPanic _) \<Rightarrow> True | _ \<Rightarrow> False)"

type_synonym ('w, 'a) go = "('w, go_err, 'a) act"

definition lift_err :: "rerr + 'a \<Rightarrow> go_err + 'a" where
  "lift_err r = (case r of Inl e \<Rightarrow> Inl (RedisErr e) | Inr a \<Rightarrow> Inr a)"

definition exec_go :: "'w redis \<Rightarrow> script \<Rightarrow> ('w, reply) go" where
  "exec_go R f = (\<lambda>w. case exec R f w of (r, w') \<Rightarrow> (lift_err r, w'))"

definition conn_Do :: "'w redis \<Rightarrow> cmd \<Rightarrow> ('w, reply) go" where
  "conn_Do R c = exec_go R (call R c)"

definition script_Do :: "'w redis \<Rightarrow> reply lua \<Rightarrow> ('w, reply) go" where
  "script_Do R m = exec_go R (run_script m)"

text \<open>
  \<open>MULTI ... EXEC\<close>: the commands run one after the other without interruption; one that fails does
  not stop the others.
\<close>

fun run_multi :: "'w redis \<Rightarrow> cmd list \<Rightarrow> keyspace \<Rightarrow> reply list \<times> keyspace" where
  "run_multi R [] db = ([], db)"
| "run_multi R (c # cs) db =
     (case call R c db of (r, db') \<Rightarrow> (case run_multi R cs db' of (rs, db'') \<Rightarrow> (r # rs, db'')))"

definition multi_Do :: "'w redis \<Rightarrow> cmd list \<Rightarrow> ('w, reply) go" where
  "multi_Do R cs = exec_go R (\<lambda>db. case run_multi R cs db of (rs, db') \<Rightarrow> (RArr rs, db'))"

text \<open>
  A pipeline (\<open>Send ... Flush ... Receive\<close>): every request is sent before the first reply is
  looked at, so a failing one does not keep the later ones from running.
\<close>

fun pipeline :: "'w redis \<Rightarrow> script list \<Rightarrow> 'w \<Rightarrow> (go_err + reply) list \<times> 'w" where
  "pipeline R [] w = ([], w)"
| "pipeline R (f # fs) w =
     (case exec_go R f w of (r, w') \<Rightarrow> (case pipeline R fs w' of (rs, w'') \<Rightarrow> (r # rs, w'')))"

text \<open>Applying a reply helper of the client library.\<close>

definition conv :: "('r \<Rightarrow> rerr + 'a) \<Rightarrow> 'r \<Rightarrow> ('w, 'a) go" where
  "conv h r = (\<lambda>w. (lift_err (h r), w))"

definition received :: "go_err + 'a \<Rightarrow> ('w, 'a) go" where
  "received r = (\<lambda>w. (r, w))"

text \<open>Running a part of a component's state, and changing the error of an action.\<close>

definition on_world :: "('w, 'e, 'a) act \<Rightarrow> ('s \<times> 'w, 'e, 'a) act" where
  "on_world m = (\<lambda>(s, w). case m w of (r, w') \<Rightarrow> (r, (s, w')))"

definition map_err :: "('e \<Rightarrow> 'f) \<Rightarrow> ('s, 'e, 'a) act \<Rightarrow> ('s, 'f, 'a) act" where
  "map_err h m = (\<lambda>s. case m s of (Inl e, s') \<Rightarrow> (Inl (h e), s') | (Inr a, s') \<Rightarrow> (Inr a, s'))"

definition logged :: "('s, 'e, 'a) act \<Rightarrow> 's \<Rightarrow> 's" where
  "logged m s = snd (m s)"

section \<open>What any run does\<close>

context redis_conn
begin

lemma exec_go_once: "exec_go R f w = (r, w') \<Longrightarrow> db w' = db w \<or> db w' = snd (f (db w))"
proof (cases "exec R f w")
  case (Pair x w1)
  moreover assume "exec_go R f w = (r, w')"
  ultimately have "exec R f w = (x, w')" by (simp add: exec_go_def)
  then show "db w' = db w \<or> db w' = snd (f (db w))"
    by (cases x) (auto dest: exec_error exec_ok)
qed

lemma exec_go_done: "exec_go R f w = (Inr r, w') \<Longrightarrow> f (db w) = (r, db w') \<and> \<not> is_err r"
  using exec_ok [of f w r w'] by (auto simp: exec_go_def lift_err_def split: prod.splits sum.splits)

end

section \<open>Runs on a connection that is up\<close>

text \<open>The replies to a sequence of requests that nothing interrupts.\<close>

fun run_all :: "script list \<Rightarrow> keyspace \<Rightarrow> reply list \<times> keyspace" where
  "run_all [] d = ([], d)"
| "run_all (f # fs) d = (case f d of (r, d') \<Rightarrow> (case run_all fs d' of (rs, d'') \<Rightarrow> (r # rs, d'')))"

lemma run_all_append:
  "run_all (fs @ gs) d =
     (case run_all fs d of (rs, d') \<Rightarrow> (case run_all gs d' of (rs', d'') \<Rightarrow> (rs @ rs', d'')))"
  by (induction fs arbitrary: d) (auto split: prod.splits)

lemma run_all_seq:
  "run_all fs d = (rs, d') \<Longrightarrow> run_all gs d' = (rs', d'') \<Longrightarrow> run_all (fs @ gs) d = (rs @ rs', d'')"
  by (simp add: run_all_append)

definition returns ::
    "('s \<Rightarrow> 'x option) \<Rightarrow> ('s, 'e, 'a) act \<Rightarrow> 'x \<Rightarrow> 'e + 'a \<Rightarrow> 'x \<Rightarrow> bool" where
  "returns \<alpha> m x r y \<longleftrightarrow> (\<forall>s. \<alpha> s = Some x \<longrightarrow> (\<exists>s'. m s = (r, s') \<and> \<alpha> s' = Some y))"

text \<open>What a world looks like, and what a component's state together with a world looks like.\<close>

definition view :: "('w \<Rightarrow> keyspace) \<Rightarrow> ('w \<Rightarrow> bool) \<Rightarrow> 'w \<Rightarrow> keyspace option" where
  "view db up w = (if up w then Some (db w) else None)"

definition view2 :: "('w \<Rightarrow> keyspace) \<Rightarrow> ('w \<Rightarrow> bool) \<Rightarrow> 's \<times> 'w \<Rightarrow> ('s \<times> keyspace) option" where
  "view2 db up = (\<lambda>(s, w). if up w then Some (s, db w) else None)"

lemma returnsD: "returns \<alpha> m x r y \<Longrightarrow> \<alpha> s = Some x \<Longrightarrow> \<exists>s'. m s = (r, s') \<and> \<alpha> s' = Some y"
  by (simp add: returns_def)

lemma returns_eret: "returns \<alpha> (eret a) x (Inr a) x"
  by (simp add: returns_def act_simps)

lemma returns_efail: "returns \<alpha> (efail e) x (Inl e) x"
  by (simp add: returns_def act_simps)

lemma returns_bind:
  "returns \<alpha> m x (Inr a) y \<Longrightarrow> returns \<alpha> (f a) y r z \<Longrightarrow> returns \<alpha> (ebind m f) x r z"
  unfolding returns_def ebind_def by (metis (no_types, lifting) old.prod.case sum.simps(6))

lemma returns_bind_fail: "returns \<alpha> m x (Inl e) y \<Longrightarrow> returns \<alpha> (ebind m f) x (Inl e) y"
  unfolding returns_def ebind_def by fastforce

lemma returns_try: "returns \<alpha> m x r y \<Longrightarrow> returns \<alpha> (etry m) x (Inr r) y"
  unfolding returns_def etry_def by (metis (no_types, lifting) old.prod.case)

lemma returns_map_err:
  "returns \<alpha> m x r y \<Longrightarrow> returns \<alpha> (map_err h m) x (case r of Inl e \<Rightarrow> Inl (h e) | Inr a \<Rightarrow> Inr a) y"
  unfolding returns_def map_err_def by (fastforce split: sum.splits)

lemma returns_on_world:
  "returns (view db up) m d r d' \<Longrightarrow> returns (view2 db up) (on_world m) (s, d) r (s, d')"
  unfolding returns_def view_def view2_def on_world_def by (fastforce split: if_splits)

lemma returns2D:
  assumes "returns (view2 db up) m (e, d) r (e', d')" and "up w" and "db w = d"
  shows "\<exists>w'. m (e, w) = (r, (e', w')) \<and> db w' = d' \<and> up w'"
  using assms unfolding returns_def view2_def by (fastforce split: if_splits)

lemma returns_state:
  "returns (view2 db up) (F e) (e, d) r y \<Longrightarrow> returns (view2 db up) (\<lambda>(e, w). F e (e, w)) (e, d) r y"
  unfolding returns_def view2_def by (auto split: if_splits)

lemma returns_conv: "h r = Inr a \<Longrightarrow> returns \<alpha> (conv h r) x (Inr a) x"
  by (simp add: returns_def conv_def lift_err_def)

lemma returns_conv_fail: "h r = Inl e \<Longrightarrow> returns \<alpha> (conv h r) x (Inl (RedisErr e)) x"
  by (simp add: returns_def conv_def lift_err_def)

lemma run_script_Inr: "m d = (Inr r, d') \<Longrightarrow> run_script m d = (r, d')"
  by (simp add: run_script_def)

lemma run_script_Inl: "m d = (Inl e, d') \<Longrightarrow> run_script m d = (RErr e, d')"
  by (simp add: run_script_def)

context redis_conn
begin

lemma returns_exec:
  assumes "f d = (r, d')"
  shows "returns (view db up) (exec_go R f) d (lift_err (answer r)) d'"
proof -
  have "\<exists>w'. exec_go R f w = (lift_err (answer r), w') \<and> view db up w' = Some d'"
    if "view db up w = Some d" for w
  proof -
    from that have "up w" "db w = d" by (auto simp: view_def split: if_splits)
    with assms exec_up [of w f r d'] show ?thesis by (auto simp: exec_go_def view_def)
  qed
  then show ?thesis by (simp add: returns_def)
qed

lemma lift_answer [simp]: "\<not> is_err r \<Longrightarrow> lift_err (answer r) = Inr r"
  by (cases r) (simp_all add: lift_err_def answer_def is_err_def)

lemma returns_Do:
  "call R c d = (r, d') \<Longrightarrow> \<not> is_err r \<Longrightarrow> returns (view db up) (conn_Do R c) d (Inr r) d'"
  using returns_exec [of "call R c" d r d'] by (simp add: conn_Do_def)

lemma returns_script:
  "m d = (Inr r, d') \<Longrightarrow> \<not> is_err r \<Longrightarrow> returns (view db up) (script_Do R m) d (Inr r) d'"
  using returns_exec [of "run_script m" d r d'] by (simp add: script_Do_def run_script_Inr)

lemma returns_script_fail:
  "m d = (Inl e, d') \<Longrightarrow> returns (view db up) (script_Do R m) d (Inl (RedisErr (ServerErr e))) d'"
  using returns_exec [of "run_script m" d "RErr e" d']
  by (simp add: script_Do_def run_script_Inl lift_err_def answer_def)

lemma returns_multi:
  "run_multi R cs d = (rs, d') \<Longrightarrow> returns (view db up) (multi_Do R cs) d (Inr (RArr rs)) d'"
  using returns_exec [of "\<lambda>db. case run_multi R cs db of (rs, db') \<Rightarrow> (RArr rs, db')" d "RArr rs" d']
  by (simp add: multi_Do_def)

lemma pipeline_up:
  assumes "view db up w = Some d" and "run_all fs d = (rs, d')"
  shows "\<exists>w'. pipeline R fs w = (map (\<lambda>r. lift_err (answer r)) rs, w') \<and> view db up w' = Some d'"
  using assms
proof (induction fs arbitrary: w d rs)
  case (Cons f fs)
  obtain r d1 rs' where f: "f d = (r, d1)" and fs: "run_all fs d1 = (rs', d')" and rs: "rs = r # rs'"
    using Cons.prems(2) by (auto split: prod.splits)
  obtain w1 where "exec_go R f w = (lift_err (answer r), w1)" "view db up w1 = Some d1"
    using returnsD [OF returns_exec [of f d r d1, OF f] Cons.prems(1)] by auto
  with Cons.IH [OF _ fs] rs show ?case by fastforce
qed simp

text \<open>The same at a given world.\<close>

lemma returns_up:
  "returns (view db up) m (db w) r d \<Longrightarrow> up w \<Longrightarrow> \<exists>w'. m w = (r, w') \<and> up w' \<and> db w' = d"
  by (auto simp: returns_def view_def split: if_splits)

lemma Do_up:
  assumes "up w" and "call R c (db w) = (r, d)" and "\<not> is_err r"
  shows "\<exists>w'. conn_Do R c w = (Inr r, w') \<and> up w' \<and> db w' = d"
  using returns_up [OF returns_Do [OF assms(2,3)] assms(1)] .

lemma script_up:
  assumes "up w" and "m (db w) = (Inr r, d)" and "\<not> is_err r"
  shows "\<exists>w'. script_Do R m w = (Inr r, w') \<and> up w' \<and> db w' = d"
  using returns_up [OF returns_script [where m = m and d = "db w", OF assms(2,3)] assms(1)] .

lemma pipe_up:
  assumes "up w" and "run_all fs (db w) = (rs, d)"
  shows "\<exists>w'. pipeline R fs w = (map (\<lambda>r. lift_err (answer r)) rs, w') \<and> up w' \<and> db w' = d"
  using pipeline_up [of w "db w" fs rs d] assms by (auto simp: view_def split: if_splits)

lemma conv_up: "h r = Inr a \<Longrightarrow> conv h r w = (Inr a, w)"
  by (simp add: conv_def lift_err_def)

text \<open>A pipeline whose replies nobody reads.\<close>

lemma pipeline_sent:
  assumes "up w" and "run_all fs (db w) = (rs, d)"
  shows "up (snd (pipeline R fs w)) \<and> db (snd (pipeline R fs w)) = d"
  using pipeline_up [of w "db w" fs rs d] assms by (auto simp: view_def split: if_splits)

end

section \<open>The server behind the connection\<close>

locale redis_link = redis_server R + redis_conn R db up
  for R :: "'w redis" and db :: "'w \<Rightarrow> keyspace" and up :: "'w \<Rightarrow> bool"

interpretation mem_link: redis_link mem_redis mem_db mem_up
  by unfold_locales

text \<open>A server whose scripts also handle JSON.\<close>

locale redis_site = redis_link R db up + lua_cjson R
  for R :: "'w redis" and db :: "'w \<Rightarrow> keyspace" and up :: "'w \<Rightarrow> bool"

interpretation mem_site: redis_site mem_redis mem_db mem_up
  by unfold_locales

end
