(* ===== verification/Observer.thy ===== *)
theory Observer
  imports Connection
begin

text \<open>
  \<open>observer.go\<close> and \<open>Job.Checkin\<close>: what a worker is doing, for humans. A worker sends observations
  over a channel; the observer keeps the current one and writes it to a Redis hash. The channel is
  the list of observations sent, in order.
\<close>

section \<open>Observations\<close>

datatype observationKind = observationKindStarted | observationKindDone | observationKindCheckin

record observation =
  okind :: observationKind
  ojobName :: string
  ojobID :: string
  startedAt :: int
  arguments :: go_args
  oerr :: "string option"
  checkin :: string
  checkinAt :: int

definition observeStarted :: "int \<Rightarrow> string \<Rightarrow> string \<Rightarrow> go_args \<Rightarrow> observation" where
  "observeStarted now jobName jobID args =
     \<lparr>okind = observationKindStarted, ojobName = jobName, ojobID = jobID, startedAt = now, arguments = args,
       oerr = None, checkin = [], checkinAt = 0\<rparr>"

definition observeDone :: "string \<Rightarrow> string \<Rightarrow> string option \<Rightarrow> observation" where
  "observeDone jobName jobID err =
     \<lparr>okind = observationKindDone, ojobName = jobName, ojobID = jobID, startedAt = 0, arguments = None,
       oerr = err, checkin = [], checkinAt = 0\<rparr>"

definition observeCheckin :: "int \<Rightarrow> string \<Rightarrow> string \<Rightarrow> string \<Rightarrow> observation" where
  "observeCheckin now jobName jobID msg =
     \<lparr>okind = observationKindCheckin, ojobName = jobName, ojobID = jobID, startedAt = 0, arguments = None,
       oerr = None, checkin = msg, checkinAt = now\<rparr>"

text \<open>\<open>Job.Checkin\<close>: the observations it sends.\<close>

definition Checkin :: "int \<Rightarrow> string \<Rightarrow> job \<Rightarrow> observation list" where
  "Checkin now msg j = (case jobObserver j of None \<Rightarrow> [] | Some _ \<Rightarrow> [observeCheckin now (Name j) (ID j) msg])"

section \<open>The observer\<close>

record observer =
  oNamespace :: string
  oWorkerID :: string
  currentStartedObservation :: "observation option"
  version :: int
  lastWrittenVersion :: int

definition newObserver :: "string \<Rightarrow> string \<Rightarrow> observer" where
  "newObserver ns workerID =
     \<lparr>oNamespace = ns, oWorkerID = workerID, currentStartedObservation = None, version = 0, lastWrittenVersion = 0\<rparr>"

text \<open>The text of the arguments; \<open>None\<close> is the error of \<open>json.Marshal\<close>.\<close>

definition args_text :: "go_args \<Rightarrow> string option" where
  "args_text a =
     (case a of
        None \<Rightarrow> Some []
      | Some m \<Rightarrow> if m = [] then Some [] else map_option json_print (go_marshal (GMap m)))"

definition status_fields :: "observation \<Rightarrow> string \<Rightarrow> (string \<times> string) list" where
  "status_fields obv argsJSON =
     [(''job_name'', ojobName obv), (''job_id'', ojobID obv), (''started_at'', string_of_int (startedAt obv)),
      (''args'', argsJSON)] @
     (if checkin obv \<noteq> [] \<and> 0 < checkinAt obv
      then [(''checkin'', checkin obv), (''checkin_at'', string_of_int (checkinAt obv))] else [])"

text \<open>
  The replies to the pipeline of the second branch are never received; a failing \<open>Flush\<close> is only
  logged.
\<close>

definition writeStatus :: "'w redis \<Rightarrow> observer \<Rightarrow> observation option \<Rightarrow> ('w, unit) go" where
  "writeStatus R ob obv =
     (let key = redisKeyWorkerObservation (oNamespace ob) (oWorkerID ob) in
      case obv of
        None \<Rightarrow> ebind (conn_Do R (DEL key)) (\<lambda>_. eret ())
      | Some v \<Rightarrow>
          (case args_text (arguments v) of
             None \<Rightarrow> efail MarshalErr
           | Some argsJSON \<Rightarrow>
               (\<lambda>w. (Inr (), snd (pipeline R
                  [call R (HMSET key (status_fields v argsJSON)), call R (EXPIRE key (60 * 60 * 24))] w)))))"

text \<open>One observation.\<close>

definition observe :: "observation \<Rightarrow> observer \<Rightarrow> observer" where
  "observe obv ob =
     (let cur = (case okind obv of
                   observationKindStarted \<Rightarrow> Some obv
                 | observationKindDone \<Rightarrow> None
                 | observationKindCheckin \<Rightarrow>
                     (case currentStartedObservation ob of
                        None \<Rightarrow> None
                      | Some c \<Rightarrow>
                          if ojobID obv = ojobID c then Some (c\<lparr>checkin := checkin obv, checkinAt := checkinAt obv\<rparr>)
                          else Some c))
      in ob\<lparr>currentStartedObservation := cur, version := wrap_i64 (version ob + 1)\<rparr>)"

definition obs_process :: "'w redis \<Rightarrow> observation \<Rightarrow> observer \<times> 'w \<Rightarrow> observer \<times> 'w" where
  "obs_process R obv = (\<lambda>(ob, w).
     let ob' = observe obv ob in
     if version ob' = 1 then
       (ob'\<lparr>lastWrittenVersion := version ob'\<rparr>, logged (writeStatus R ob' (currentStartedObservation ob')) w)
     else (ob', w))"

text \<open>The branches of the loop: a tick, and a drain of what the channel holds.\<close>

definition obs_tick :: "'w redis \<Rightarrow> observer \<times> 'w \<Rightarrow> observer \<times> 'w" where
  "obs_tick R = (\<lambda>(ob, w).
     if lastWrittenVersion ob \<noteq> version ob then
       (ob\<lparr>lastWrittenVersion := version ob\<rparr>, logged (writeStatus R ob (currentStartedObservation ob)) w)
     else (ob, w))"

definition obs_drain :: "'w redis \<Rightarrow> observation list \<Rightarrow> observer \<times> 'w \<Rightarrow> observer \<times> 'w" where
  "obs_drain R obvs s =
     (case fold (obs_process R) obvs s of (ob, w) \<Rightarrow> (ob, logged (writeStatus R ob (currentStartedObservation ob)) w))"

section \<open>What is written\<close>

definition status_effect :: "observer \<Rightarrow> observation option \<Rightarrow> keyspace \<Rightarrow> keyspace" where
  "status_effect ob obv d =
     (let key = redisKeyWorkerObservation (oNamespace ob) (oWorkerID ob) in
      case obv of
        None \<Rightarrow> upd key None d
      | Some v \<Rightarrow>
          (case args_text (arguments v) of
             None \<Rightarrow> d
           | Some t \<Rightarrow> set_ttl key (Some 86400) (upd key (vhash (hset_all (hsh d key) (status_fields v t))) d)))"

lemma status_hash_type:
  "hash_type (kv d (redisKeyWorkerObservation (oNamespace ob) (oWorkerID ob))) \<Longrightarrow>
   hash_type (kv (status_effect ob obv d) (redisKeyWorkerObservation (oNamespace ob) (oWorkerID ob)))"
  by (simp add: status_effect_def obs_simps Let_def split: option.split)

context redis_link
begin

lemma writeStatus_up:
  assumes "up w" and "hash_type (kv (db w) (redisKeyWorkerObservation (oNamespace ob) (oWorkerID ob)))"
  shows "up (logged (writeStatus R ob obv) w) \<and> db (logged (writeStatus R ob obv) w) = status_effect ob obv (db w)"
proof (cases obv)
  case None
  let ?key = "redisKeyWorkerObservation (oNamespace ob) (oWorkerID ob)"
  have v: "view db up w = Some (db w)" using assms(1) by (simp add: view_def)
  have "returns (view db up) (conn_Do R (DEL ?key)) (db w)
      (Inr (RInt (if kv (db w) ?key = None then 0 else 1))) (upd ?key None (db w))"
    by (rule returns_Do) (simp_all add: del)
  from returnsD [OF this v] None show ?thesis
    by (auto simp: logged_def writeStatus_def status_effect_def act_simps view_def Let_def split: if_splits)
next
  case (Some o1)
  let ?key = "redisKeyWorkerObservation (oNamespace ob) (oWorkerID ob)"
  show ?thesis
  proof (cases "args_text (arguments o1)")
    case None
    with Some assms(1) show ?thesis
      by (simp add: logged_def writeStatus_def status_effect_def act_simps Let_def)
  next
    case t: (Some t)
    have ne: "hset_all (hsh (db w) ?key) (status_fields o1 t) \<noteq> []"
      by (rule hset_all_nonempty) (simp add: status_fields_def)
    have "run_all [call R (HMSET ?key (status_fields o1 t)), call R (EXPIRE ?key (60 * 60 * 24))] (db w) =
        ([RStatus ''OK'', RInt 1], status_effect ob obv (db w))"
      using hmset [OF assms(2)] ne Some t
      by (simp add: expire obs_simps status_effect_def vhash_def Let_def)
    from pipeline_sent [OF assms(1) this] Some t show ?thesis
      by (simp add: logged_def writeStatus_def Let_def)
  qed
qed

end

end
