(* ===== verification/Job_Types.thy ===== *)
theory Job_Types
  imports Job
begin

text \<open>
  The options of a job type (\<open>worker_pool.go\<close>), the default backoff (\<open>worker.go\<close>), and the
  middleware chain around a handler (\<open>run.go\<close>).
\<close>

section \<open>Options\<close>

text \<open>The unsigned options are naturals below \<open>2 ^ 64\<close>. \<open>Backoff = None\<close> is a nil function.\<close>

record jobOptions =
  Priority :: nat
  MaxFails :: nat
  SkipDead :: bool
  MaxConcurrency :: nat
  Backoff :: "(job \<Rightarrow> int) option"

text \<open>\<open>Inl\<close> is the panic.\<close>

definition applyDefaultsAndValidate :: "jobOptions \<Rightarrow> string + jobOptions" where
  "applyDefaultsAndValidate jobOpts =
     (let o1 = (if Priority jobOpts = 0 then jobOpts\<lparr>Priority := 1\<rparr> else jobOpts);
          o2 = (if MaxFails o1 = 0 then o1\<lparr>MaxFails := 4\<rparr> else o1) in
      if Priority o2 > 100000 then Inl ''work: JobOptions.Priority must be between 1 and 100000''
      else Inr o2)"

text \<open>\<open>rnd\<close> is the number \<open>rand.Int64N(30)\<close> returns; the arithmetic is that of \<open>int64\<close>.\<close>

definition defaultBackoffCalculator :: "int \<Rightarrow> job \<Rightarrow> int" where
  "defaultBackoffCalculator rnd j =
     (let fails = Fails j in wrap_i64 (fails * fails * fails * fails + 15 + rnd * (fails + 1)))"

section \<open>Handlers and middleware\<close>

text \<open>What running user code ends with: an error or nil, or a panic.\<close>

datatype run_outcome = Returned "string option" | Panicked string

text \<open>
  A handler is what one run of it does to its context and its job. A middleware may call \<open>next\<close>
  any number of times, look at what it returns (a panic that it recovers from included) and go on.
\<close>

type_synonym 'c handler = "'c \<times> job \<Rightarrow> run_outcome \<times> 'c \<times> job"

datatype 'c mw_run =
    MwReturn run_outcome "'c \<times> job"
  | MwNext "'c \<times> job" "run_outcome \<times> 'c \<times> job \<Rightarrow> 'c mw_run"

type_synonym 'c middleware = "'c \<times> job \<Rightarrow> 'c mw_run"

record 'c jobType =
  JTName :: string
  JobOptions :: jobOptions
  Handler :: "'c handler"

definition calcBackoff :: "int \<Rightarrow> 'c jobType \<Rightarrow> job \<Rightarrow> int" where
  "calcBackoff rnd jt j =
     (case Backoff (JobOptions jt) of None \<Rightarrow> defaultBackoffCalculator rnd j | Some f \<Rightarrow> f j)"

text \<open>
  \<open>next\<close> shares the counter \<open>currentMiddleware\<close> with all its calls: a second call goes on from where
  the first one got to. The fuel of \<open>next_fn\<close> is the number of middlewares that may still be
  entered; \<open>next_fn_fuel\<close> below shows that it never runs out.
\<close>

primrec run_mw ::
    "(nat \<times> 'c \<times> job \<Rightarrow> run_outcome \<times> nat \<times> 'c \<times> job) \<Rightarrow> 'c mw_run \<Rightarrow> nat \<Rightarrow> run_outcome \<times> nat \<times> 'c \<times> job" where
  "run_mw nxt (MwReturn r s) = (\<lambda>i. (r, i, s))"
| "run_mw nxt (MwNext s k) = (\<lambda>i. case nxt (i, s) of (r, i', s') \<Rightarrow> run_mw nxt (k (r, s')) i')"

fun next_fn ::
    "'c middleware list \<Rightarrow> 'c handler \<Rightarrow> nat \<Rightarrow> nat \<times> 'c \<times> job \<Rightarrow> run_outcome \<times> nat \<times> 'c \<times> job" where
  "next_fn mws h 0 (i, s) = (case h s of (r, s') \<Rightarrow> (r, i, s'))"
| "next_fn mws h (Suc k) (i, s) =
     (if i < length mws then run_mw (next_fn mws h k) ((mws ! i) s) (Suc i)
      else (case h s of (r, s') \<Rightarrow> (r, i, s')))"

text \<open>\<open>runJob\<close>: a panic becomes the error that the job failed with. The context starts as \<open>ctx\<close>.\<close>

definition runJob :: "'c \<Rightarrow> 'c middleware list \<Rightarrow> 'c jobType \<Rightarrow> job \<Rightarrow> string option \<times> job" where
  "runJob ctx mws jt j =
     (case next_fn mws (Handler jt) (length mws) (0, ctx, j) of
        (r, i, c, j') \<Rightarrow> (case r of Returned err \<Rightarrow> err | Panicked msg \<Rightarrow> Some msg, j'))"

lemma run_mw_counter:
  assumes "\<And>i s r i' s'. nxt (i, s) = (r, i', s') \<Longrightarrow> i \<le> i'" and "run_mw nxt m i = (r, i', s')"
  shows "i \<le> i'"
  using assms(2)
proof (induction m arbitrary: i)
  case (MwNext s k)
  obtain r1 i1 s1 where n: "nxt (i, s) = (r1, i1, s1)" by (cases "nxt (i, s)")
  with MwNext have "i1 \<le> i'" by auto
  with assms(1) [OF n] show ?case by simp
qed simp

lemma next_fn_counter: "next_fn mws h k (i, s) = (r, i', s') \<Longrightarrow> i \<le> i'"
proof (induction k arbitrary: i s r i' s')
  case (Suc k)
  show ?case
  proof (cases "i < length mws")
    case True
    with Suc.prems have "run_mw (next_fn mws h k) ((mws ! i) s) (Suc i) = (r, i', s')" by simp
    with Suc.IH have "Suc i \<le> i'" by (rule run_mw_counter)
    then show ?thesis by simp
  qed (use Suc.prems in \<open>auto split: prod.splits\<close>)
qed (auto split: prod.splits)

lemma run_mw_cong:
  assumes "\<And>i s. n \<le> i \<Longrightarrow> f (i, s) = g (i, s)" and "\<And>i s r i' s'. f (i, s) = (r, i', s') \<Longrightarrow> i \<le> i'"
    and "n \<le> i"
  shows "run_mw f m i = run_mw g m i"
  using assms(3)
proof (induction m arbitrary: i)
  case (MwNext s k)
  obtain r1 i1 s1 where f: "f (i, s) = (r1, i1, s1)" by (cases "f (i, s)")
  then have "g (i, s) = (r1, i1, s1)" using assms(1) MwNext.prems by simp
  moreover have "n \<le> i1" using assms(2) [OF f] MwNext.prems by simp
  ultimately show ?case using f MwNext.IH by simp
qed simp

lemma next_fn_fuel: "length mws - i \<le> k \<Longrightarrow> next_fn mws h (k + m) (i, s) = next_fn mws h k (i, s)"
proof (induction k arbitrary: i s m)
  case 0
  then show ?case by (cases m) simp_all
next
  case (Suc k)
  have "run_mw (next_fn mws h (k + m)) x (Suc i) = run_mw (next_fn mws h k) x (Suc i)" for x
  proof (rule run_mw_cong [where n = "Suc i"])
    show "next_fn mws h (k + m) (j, t) = next_fn mws h k (j, t)" if "Suc i \<le> j" for j t
      using that Suc.prems by (intro Suc.IH) simp
  qed (erule next_fn_counter, simp)
  then show ?case by (simp only: add_Suc next_fn.simps)
qed

text \<open>A middleware that calls \<open>next\<close> once and returns what it returned.\<close>

definition transparent :: "'c middleware \<Rightarrow> bool" where
  "transparent mw \<longleftrightarrow> (\<forall>s. mw s = MwNext s (\<lambda>(r, s'). MwReturn r s'))"

lemma next_fn_transparent:
  "\<forall>mw\<in>set mws. transparent mw \<Longrightarrow> i + k = length mws \<Longrightarrow>
   next_fn mws h k (i, s) = (case h s of (r, s') \<Rightarrow> (r, length mws, s'))"
proof (induction k arbitrary: i s)
  case (Suc k)
  have i: "i < length mws" "transparent (mws ! i)" using Suc.prems by auto
  have mw: "(mws ! i) s = MwNext s (\<lambda>(r, s'). MwReturn r s')"
    using i(2) unfolding transparent_def by blast
  have "next_fn mws h (Suc k) (i, s) = next_fn mws h k (Suc i, s)"
    using i(1) by (simp add: mw split: prod.split)
  also have "\<dots> = (case h s of (r, s') \<Rightarrow> (r, length mws, s'))"
    by (rule Suc.IH) (use Suc.prems in auto)
  finally show ?case .
qed simp

section \<open>What the chain does\<close>

text \<open>The recursion of \<open>next\<close> is bounded by the number of middlewares, whatever the middlewares do:
  with any more fuel the run is the same, so a run never stops for lack of it.\<close>

theorem middleware_chain_bounded:
  "next_fn mws h (length mws + extra) (0, s) = next_fn mws h (length mws) (0, s)"
  by (rule next_fn_fuel) simp


definition panicking :: "unit jobType" where
  "panicking = \<lparr>JTName = ''a'', JobOptions = \<lparr>Priority = 1, MaxFails = 4, SkipDead = False, MaxConcurrency = 0, Backoff = None\<rparr>,
     Handler = (\<lambda>s. (Panicked ''boom'', s))\<rparr>"


end
