(* ===== verification/Worker.thy ===== *)
theory Worker
  imports Observer Job_Types
begin

text \<open>
  \<open>worker.go\<close>: fetching a job, running it and deciding what becomes of it, and the loop that does
  so. A Go map is an association list whose order is the one in which \<open>range\<close> happens to visit it.
  Clock readings and random numbers are arguments.
\<close>

section \<open>The worker\<close>

record 'c worker =
  workerID :: string
  poolID :: string
  wNamespace :: string
  jobTypes :: "(string \<times> 'c jobType) list"
  sleepBackoffs :: "int list"
  wMiddleware :: "'c middleware list"
  contextZero :: 'c
  sampler :: prioritySampler

definition sleepBackoffsInMilliseconds :: "int list" where
  "sleepBackoffsInMilliseconds = [0, 10, 100, 1000, 5000]"

text \<open>The keys of a job type as the sampler holds them.\<close>

definition sample_of :: "string \<Rightarrow> string \<Rightarrow> string \<Rightarrow> nat \<Rightarrow> sampleItem" where
  "sample_of ns pool name prio =
     \<lparr>priority = prio, redisJobs = redisKeyJobs ns name, redisJobsInProg = redisKeyJobsInProgress ns pool name,
       redisJobsPaused = redisKeyJobsPaused ns name, redisJobsLock = redisKeyJobsLock ns name,
       redisJobsLockInfo = redisKeyJobsLockInfo ns name,
       redisJobsMaxConcurrency = redisKeyJobsConcurrency ns name\<rparr>"

definition jt_priority :: "'c jobType \<Rightarrow> nat" where
  "jt_priority jt = Priority (JobOptions jt)"

definition updateMiddlewareAndJobTypes ::
    "'c middleware list \<Rightarrow> (string \<times> 'c jobType) list \<Rightarrow> 'c worker \<Rightarrow> 'c worker" where
  "updateMiddlewareAndJobTypes mws jts wk =
     wk\<lparr>wMiddleware := mws,
       sampler := foldl (\<lambda>s (k, jt). sampler_add (sample_of (wNamespace wk) (poolID wk) (JTName jt) (jt_priority jt)) s)
                    empty_sampler jts,
       jobTypes := jts\<rparr>"

definition newWorker ::
    "string \<Rightarrow> string \<Rightarrow> string \<Rightarrow> 'c \<Rightarrow> 'c middleware list \<Rightarrow> (string \<times> 'c jobType) list \<Rightarrow> int list \<Rightarrow> 'c worker" where
  "newWorker ident ns pool ctx mws jts backoffs =
     updateMiddlewareAndJobTypes mws jts
       \<lparr>workerID = ident, poolID = pool, wNamespace = ns, jobTypes = [],
         sleepBackoffs = (if backoffs = [] then sleepBackoffsInMilliseconds else backoffs),
         wMiddleware = [], contextZero = ctx, sampler = empty_sampler\<rparr>"

section \<open>Fetching\<close>

definition fetched_job :: "reply list \<Rightarrow> ('w, job option) go" where
  "fetched_job values =
     (if length values \<noteq> 3 then efail (Errorf ''need 3 elements back'')
      else
        (case values ! 0 of
           RBulk raw \<Rightarrow>
             (case values ! 1 of
                RBulk from \<Rightarrow>
                  (case values ! 2 of
                     RBulk inprog \<Rightarrow>
                       (case newJob raw from inprog of None \<Rightarrow> efail UnmarshalErr | Some j \<Rightarrow> eret (Some j))
                   | _ \<Rightarrow> efail (Errorf ''response in prog not bytes''))
              | _ \<Rightarrow> efail (Errorf ''response queue not bytes''))
         | _ \<Rightarrow> efail (Errorf ''response msg not bytes'')))"

text \<open>\<open>None\<close> is a nil job with a nil error.\<close>

definition fetchJob :: "'w redis \<Rightarrow> (nat \<Rightarrow> nat \<Rightarrow> nat) \<Rightarrow> ('c worker \<times> 'w, job option) go" where
  "fetchJob R rnd = (\<lambda>(wk, w).
     case sample rnd (sampler wk) of
       None \<Rightarrow> (Inl (GoPanic ''invalid argument to UintN''), (wk, w))
     | Some s \<Rightarrow>
         on_world
           (ebind (etry (ebind (script_Do R (redisLuaFetchJob R (poolID wk) (concat (map sample_keys (samples s)))))
                           (conv (redis_Values R)))) (\<lambda>res.
              case res of
                Inl err \<Rightarrow> if err = RedisErr ErrNil then eret None else efail err
              | Inr values \<Rightarrow> fetched_job values)) (wk\<lparr>sampler := s\<rparr>, w))"

section \<open>Processing\<close>

text \<open>\<open>redis.Bytes\<close> takes the replies that \<open>redis.String\<close> takes. Every error is logged.\<close>

definition getAndDeleteUniqueJob :: "'w redis \<Rightarrow> 'c worker \<Rightarrow> job \<Rightarrow> ('w, go_err, job option) act" where
  "getAndDeleteUniqueJob R wk j =
     (case (if UniqueKey j \<noteq> [] then Some (UniqueKey j) else redisKeyUniqueJob (wNamespace wk) (Name j) (Args j)) of
        None \<Rightarrow> eret None
      | Some uniqueKey \<Rightarrow>
          ebind (etry (ebind (conn_Do R (GET uniqueKey)) (conv (redis_String R)))) (\<lambda>r.
            case r of
              Inl _ \<Rightarrow> eret None
            | Inr raw \<Rightarrow>
                ebind (etry (conn_Do R (DEL uniqueKey))) (\<lambda>d.
                  case d of
                    Inl _ \<Rightarrow> eret None
                  | Inr _ \<Rightarrow> if raw = ''1'' then eret None else eret (newJob raw (dequeuedFrom j) (inProgQueue j)))))"

text \<open>A \<open>terminateOp\<close> is the list of commands it adds to the transaction.\<close>

definition terminateOnly :: "cmd list" where
  "terminateOnly = []"

definition terminateAndRetry :: "int \<Rightarrow> int \<Rightarrow> string \<Rightarrow> 'c jobType \<Rightarrow> job \<Rightarrow> cmd list" where
  "terminateAndRetry now rnd ns jt j =
     (case serialize j of
        None \<Rightarrow> terminateOnly
      | Some raw \<Rightarrow> [ZADD (redisKeyRetry ns) (wrap_i64 (now + calcBackoff rnd jt j)) raw])"

definition terminateAndDead :: "int \<Rightarrow> string \<Rightarrow> job \<Rightarrow> cmd list" where
  "terminateAndDead now ns j =
     (case serialize j of None \<Rightarrow> terminateOnly | Some raw \<Rightarrow> [ZADD (redisKeyDead ns) now raw])"

definition jobFate :: "int \<Rightarrow> int \<Rightarrow> string \<Rightarrow> 'c jobType option \<Rightarrow> job \<Rightarrow> cmd list" where
  "jobFate now rnd ns jt j =
     (case jt of
        None \<Rightarrow> terminateAndDead now ns j
      | Some t \<Rightarrow>
          (let failsRemaining = wrap_i64 (wrap_i64 (int (MaxFails (JobOptions t))) - Fails j) in
           if 0 < failsRemaining then terminateAndRetry now rnd ns t j
           else if SkipDead (JobOptions t) then terminateOnly
           else terminateAndDead now ns j))"

definition removeJobFromInProgress :: "'w redis \<Rightarrow> 'c worker \<Rightarrow> job \<Rightarrow> cmd list \<Rightarrow> string \<Rightarrow> ('w, unit) go" where
  "removeJobFromInProgress R wk j fate dequeuedRawJSON =
     ebind (etry (multi_Do R
       ([LREM (inProgQueue j) dequeuedRawJSON,
         DECR (redisKeyJobsLock (wNamespace wk) (Name j)),
         HINCRBY (redisKeyJobsLockInfo (wNamespace wk) (Name j)) (poolID wk) (- 1)] @ fate)) :: ('w, go_err, go_err + reply) act) (\<lambda>_.
     eret ())"

text \<open>
  Running the job: its error, the job as the handler leaves it and the observations sent. The
  clock reading is that of \<open>observeStarted\<close>.
\<close>

definition perform :: "int \<Rightarrow> 'c worker \<Rightarrow> job \<Rightarrow> string option \<times> job \<times> observation list" where
  "perform now wk j =
     (case map_of (jobTypes wk) (Name j) of
        None \<Rightarrow> (Some ''stray job: no handler'', j, [])
      | Some jt \<Rightarrow>
          (case runJob (contextZero wk) (wMiddleware wk) jt (j\<lparr>jobObserver := Some (workerID wk)\<rparr>) of (err, j') \<Rightarrow>
             (err, j', [observeStarted now (Name j) (ID j) (Args j), observeDone (Name j') (ID j') err])))"

text \<open>The last three clock readings and the random number are those of \<open>failed\<close> and of the fate.\<close>

definition processJob ::
    "'w redis \<Rightarrow> int \<Rightarrow> int \<Rightarrow> int \<Rightarrow> int \<Rightarrow> 'c worker \<Rightarrow> job \<Rightarrow> (observation list \<times> 'w, unit) go" where
  "processJob R now now_failed now_fate rnd wk j =
     ebind (on_world (if Unique j then getAndDeleteUniqueJob R wk j else eret None)) (\<lambda>updated.
       let j1 = (case updated of None \<Rightarrow> j | Some u \<Rightarrow> u) in
       case perform now wk j1 of (err, j2, obvs) \<Rightarrow>
         (case err of
            None \<Rightarrow>
              (\<lambda>(obs, w). on_world (removeJobFromInProgress R wk j2 terminateOnly (rawJSON j)) (obs @ obvs, w))
          | Some msg \<Rightarrow>
              (let j3 = failed msg now_failed j2;
                   fate = jobFate now_fate rnd (wNamespace wk) (map_of (jobTypes wk) (Name j1)) j3 in
               (\<lambda>(obs, w). on_world (removeJobFromInProgress R wk j3 fate (rawJSON j)) (obs @ obvs, w)))))"

section \<open>The loop\<close>

text \<open>
  The state of the loop: whether a drain was asked for, the number of fetches in a row that found
  nothing, the delay in milliseconds after which the timer fires, and the acknowledgements sent.
\<close>

record loop_state =
  drained :: bool
  consequtiveNoJobs :: int
  timer :: int
  drainAcks :: nat
  stopped :: bool

datatype loop_event = StopRequested | DrainRequested | TimerFired

definition loop_init :: loop_state where
  "loop_init = \<lparr>drained = False, consequtiveNoJobs = 0, timer = 0, drainAcks = 0, stopped = False\<rparr>"

text \<open>What the result of a fetch does to the loop. \<open>None\<close> is the panic of an index out of range.\<close>

definition after_fetch :: "int list \<Rightarrow> go_err + job option \<Rightarrow> loop_state \<Rightarrow> loop_state option" where
  "after_fetch backoffs r l =
     (case r of
        Inl _ \<Rightarrow> Some (l\<lparr>timer := 10\<rparr>)
      | Inr (Some _) \<Rightarrow> Some (l\<lparr>consequtiveNoJobs := 0, timer := 0\<rparr>)
      | Inr None \<Rightarrow>
          (let l1 = (if drained l then l\<lparr>drainAcks := Suc (drainAcks l), drained := False\<rparr> else l);
               n = wrap_i64 (consequtiveNoJobs l + 1);
               idx = (if int (length backoffs) \<le> n then int (length backoffs) - 1 else n) in
           if 0 \<le> idx \<and> idx < int (length backoffs)
           then Some (l1\<lparr>consequtiveNoJobs := n, timer := backoffs ! nat idx\<rparr>)
           else None))"

text \<open>One round of the \<open>select\<close>. The numbers are those of the fetch and of the job it finds.\<close>

definition loop_step ::
    "'w redis \<Rightarrow> (nat \<Rightarrow> nat \<Rightarrow> nat) \<Rightarrow> int \<times> int \<times> int \<times> int \<Rightarrow> loop_event \<Rightarrow>
     loop_state \<times> 'c worker \<times> observation list \<times> 'w \<Rightarrow>
     (loop_state \<times> 'c worker \<times> observation list \<times> 'w) option" where
  "loop_step R rnd nums ev = (\<lambda>(l, wk, obs, w).
     case ev of
       StopRequested \<Rightarrow> Some (l\<lparr>stopped := True\<rparr>, wk, obs, w)
     | DrainRequested \<Rightarrow> Some (l\<lparr>drained := True, timer := 0\<rparr>, wk, obs, w)
     | TimerFired \<Rightarrow>
         (case fetchJob R rnd (wk, w) of (r, (wk', w')) \<Rightarrow>
            if is_panic r then None
            else
              (case after_fetch (sleepBackoffs wk') r l of
                 None \<Rightarrow> None
               | Some l' \<Rightarrow>
                   (case r of
                      Inr (Some j) \<Rightarrow>
                        (case nums of (now, now_failed, now_fate, rnd_backoff) \<Rightarrow>
                           (case processJob R now now_failed now_fate rnd_backoff wk' j (obs, w') of (_, (obs', w'')) \<Rightarrow>
                              Some (l', wk', obs', w'')))
                    | _ \<Rightarrow> Some (l', wk', obs, w')))))"

end
