(* ===== verification/Requeuer.thy ===== *)
theory Requeuer
  imports Connection
begin

text \<open>
  \<open>requeuer.go\<close>: one requeuer moves the retries that are due, another the scheduled jobs. A round
  calls the script until it finds nothing more to move.
\<close>

section \<open>The requeuer\<close>

record requeuer =
  rNamespace :: string
  redisRequeueKeys :: "string list"
  redisRequeuePrefix :: string

definition newRequeuer :: "string \<Rightarrow> string \<Rightarrow> string list \<Rightarrow> requeuer" where
  "newRequeuer ns requeueKey jobNames =
     \<lparr>rNamespace = ns, redisRequeueKeys = [requeueKey, redisKeyDead ns] @ map (redisKeyJobs ns) jobNames,
       redisRequeuePrefix = redisKeyJobsPrefix ns\<rparr>"

text \<open>\<open>process\<close>: whether there may be more to do. Errors are logged.\<close>

definition process :: "'w redis \<Rightarrow> requeuer \<Rightarrow> int \<Rightarrow> 'w \<Rightarrow> bool \<times> 'w" where
  "process R rq now w =
     (case ebind (script_Do R (redisLuaZremLpushCmd R (redisRequeueKeys rq) (redisRequeuePrefix rq) now))
             (conv (redis_String R)) w of
        (Inl _, w') \<Rightarrow> (False, w')
      | (Inr res, w') \<Rightarrow> (res = ''dead'' \<or> res = ''ok'', w'))"

text \<open>
  The loop \<open>for r.process() { }\<close>. It ends when there is nothing left to move, which other clients
  may keep from happening, so it is a partial function. \<open>now k\<close> is the clock in round \<open>k\<close>.
\<close>

partial_function (option) process_all :: "'w redis \<Rightarrow> requeuer \<Rightarrow> (nat \<Rightarrow> int) \<Rightarrow> nat \<Rightarrow> 'w \<Rightarrow> 'w option" where
  "process_all R rq now k w =
     (case process R rq (now k) w of (again, w') \<Rightarrow>
        if again then process_all R rq now (Suc k) w' else Some w')"

text \<open>The branches of the loop: a stop, and a drain or a tick that run the rounds.\<close>

datatype requeuer_event = RStop | RDrain | RTick

definition requeuer_step :: "'w redis \<Rightarrow> requeuer \<Rightarrow> (nat \<Rightarrow> int) \<Rightarrow> requeuer_event \<Rightarrow> nat \<times> 'w \<Rightarrow> (nat \<times> 'w) option" where
  "requeuer_step R rq now ev = (\<lambda>(acks, w).
     case ev of
       RStop \<Rightarrow> Some (Suc acks, w)
     | RDrain \<Rightarrow> map_option (Pair (Suc acks)) (process_all R rq now 0 w)
     | RTick \<Rightarrow> map_option (Pair acks) (process_all R rq now 0 w))"

end
