(* ===== verification/Dead_Pool_Reaper.thy ===== *)
theory Dead_Pool_Reaper
  imports Connection
begin

text \<open>
  \<open>dead_pool_reaper.go\<close>: finding worker pools that stopped sending heartbeats, putting the jobs they
  had in progress back into their queues and giving back the locks they held.
\<close>

section \<open>The reaper\<close>

record deadPoolReaper =
  dNamespace :: string
  deadTime :: int
  curJobTypes :: "string list"

text \<open>\<open>deadTime\<close> and the period are in nanoseconds.\<close>

definition default_deadTime :: int where
  "default_deadTime = 10 * 1000000000"

definition reapPeriod :: int where
  "reapPeriod = 10 * 60 * 1000000000"

definition reapJitterSecs :: int where
  "reapJitterSecs = 30"

definition newDeadPoolReaper :: "string \<Rightarrow> string list \<Rightarrow> deadPoolReaper" where
  "newDeadPoolReaper ns names = \<lparr>dNamespace = ns, deadTime = default_deadTime, curJobTypes = names\<rparr>"

section \<open>Cleaning up one pool\<close>

definition stale_keys :: "string \<Rightarrow> string list \<Rightarrow> string list" where
  "stale_keys ns names = concat (map (\<lambda>n. [redisKeyJobsLock ns n, redisKeyJobsLockInfo ns n]) names)"

definition cleanStaleLockInfo :: "'w redis \<Rightarrow> deadPoolReaper \<Rightarrow> string \<Rightarrow> string list \<Rightarrow> ('w, unit) go" where
  "cleanStaleLockInfo R rp pool names =
     ebind (script_Do R (redisLuaReapStaleLocks R pool (stale_keys (dNamespace rp) names))) (\<lambda>_. eret ())"

definition inprogress_keys :: "string \<Rightarrow> string \<Rightarrow> string list \<Rightarrow> string list" where
  "inprogress_keys ns pool names =
     concat (map (\<lambda>n. [redisKeyJobsInProgress ns pool n, redisKeyJobs ns n, redisKeyJobsLock ns n,
                       redisKeyJobsLockInfo ns n]) names)"

text \<open>
  The loop keeps moving jobs until all queues are empty. It need not end if other clients keep
  filling them: \<open>None\<close> is not ending.
\<close>

partial_function (option) requeueInProgressJobs ::
    "'w redis \<Rightarrow> deadPoolReaper \<Rightarrow> string \<Rightarrow> string list \<Rightarrow> 'w \<Rightarrow> ((go_err + unit) \<times> 'w) option" where
  "requeueInProgressJobs R rp pool names w =
     (case ebind (script_Do R (redisLuaReenqueueJob R pool (inprogress_keys (dNamespace rp) pool names)))
             (conv (redis_Values R)) w of
        (r, w') \<Rightarrow>
          (case r of
             Inl err \<Rightarrow> if err = RedisErr ErrNil then Some (Inr (), w') else Some (Inl err, w')
           | Inr values \<Rightarrow>
               if length values \<noteq> 3 then Some (Inl (Errorf ''need 3 elements back''), w')
               else requeueInProgressJobs R rp pool names w'))"

section \<open>Finding dead pools\<close>

text \<open>
  \<open>now\<close> is the time in nanoseconds since the epoch when the pool is looked at. \<open>None\<close>: the pool is
  not dead; \<open>Some names\<close>: it is, with the job types of its heartbeat (none if that is gone).
\<close>

definition checkPool :: "'w redis \<Rightarrow> deadPoolReaper \<Rightarrow> int \<Rightarrow> string \<Rightarrow> ('w, string list option) go" where
  "checkPool R rp now pool =
     (let heartbeatKey = redisKeyHeartbeat (dNamespace rp) pool in
      ebind (etry (ebind (conn_Do R (HGET heartbeatKey ''heartbeat_at'')) (conv (redis_Int64 R)))) (\<lambda>r.
        case r of
          Inl err \<Rightarrow> if err = RedisErr ErrNil then eret (Some []) else efail err
        | Inr heartbeatAt \<Rightarrow>
            if now < heartbeatAt * 1000000000 + deadTime rp then eret None
            else
              ebind (etry (ebind (conn_Do R (HGET heartbeatKey ''job_names'')) (conv (redis_String R)))) (\<lambda>s.
                case s of
                  Inl err \<Rightarrow> if err = RedisErr ErrNil then eret None else efail err
                | Inr names \<Rightarrow> eret (Some (strings_Split names CHR '','')))))"

fun checkPools :: "'w redis \<Rightarrow> deadPoolReaper \<Rightarrow> (string \<times> int) list \<Rightarrow> ('w, (string \<times> string list) list) go" where
  "checkPools R rp [] = eret []"
| "checkPools R rp ((pool, now) # ps) =
     ebind (checkPool R rp now pool) (\<lambda>r.
     ebind (checkPools R rp ps) (\<lambda>rest.
     eret (case r of None \<Rightarrow> rest | Some names \<Rightarrow> (pool, names) # rest)))"

text \<open>\<open>clock\<close> gives the time at which each pool is looked at.\<close>

definition findDeadPools :: "'w redis \<Rightarrow> deadPoolReaper \<Rightarrow> (string \<Rightarrow> int) \<Rightarrow> ('w, (string \<times> string list) list) go" where
  "findDeadPools R rp clock =
     ebind (conn_Do R (SMEMBERS (redisKeyWorkerPools (dNamespace rp)))) (\<lambda>r.
     ebind (conv (redis_Strings R) r) (\<lambda>pools.
     checkPools R rp (map (\<lambda>p. (p, clock p)) pools)))"

section \<open>Reaping\<close>

text \<open>The body of the loop over the dead pools.\<close>

definition reapPool :: "'w redis \<Rightarrow> deadPoolReaper \<Rightarrow> string \<Rightarrow> string list \<Rightarrow> 'w \<Rightarrow> ((go_err + unit) \<times> 'w) option" where
  "reapPool R rp pool names w =
     (let finish = (\<lambda>lockNames.
            ebind (conn_Do R (SREM (redisKeyWorkerPools (dNamespace rp)) pool)) (\<lambda>_.
            cleanStaleLockInfo R rp pool lockNames)) in
      if names = [] then Some (finish (curJobTypes rp) w)
      else
        (case requeueInProgressJobs R rp pool names w of
           None \<Rightarrow> None
         | Some (Inl err, w') \<Rightarrow> Some (Inl err, w')
         | Some (Inr _, w') \<Rightarrow>
             Some (ebind (conn_Do R (DEL (redisKeyHeartbeat (dNamespace rp) pool))) (\<lambda>_. finish names) w')))"

fun reapPools :: "'w redis \<Rightarrow> deadPoolReaper \<Rightarrow> (string \<times> string list) list \<Rightarrow> 'w \<Rightarrow> ((go_err + unit) \<times> 'w) option" where
  "reapPools R rp [] w = Some (Inr (), w)"
| "reapPools R rp ((pool, names) # ps) w =
     (case reapPool R rp pool names w of
        None \<Rightarrow> None
      | Some (Inl err, w') \<Rightarrow> Some (Inl err, w')
      | Some (Inr _, w') \<Rightarrow> reapPools R rp ps w')"

text \<open>\<open>range\<close> over the map of dead pools visits them in some order, here that of \<open>findDeadPools\<close>.\<close>

definition reap :: "'w redis \<Rightarrow> deadPoolReaper \<Rightarrow> (string \<Rightarrow> int) \<Rightarrow> 'w \<Rightarrow> ((go_err + unit) \<times> 'w) option" where
  "reap R rp clock w =
     (case findDeadPools R rp clock w of
        (Inl err, w') \<Rightarrow> Some (Inl err, w')
      | (Inr pools, w') \<Rightarrow> reapPools R rp pools w')"

text \<open>
  The loop: the timer is set to \<open>deadTime\<close> first and to the period plus a jitter of \<open>rnd\<close> seconds
  before every reap.
\<close>

definition reaper_tick ::
    "'w redis \<Rightarrow> deadPoolReaper \<Rightarrow> (string \<Rightarrow> int) \<Rightarrow> int \<Rightarrow> int \<times> 'w \<Rightarrow> (int \<times> 'w) option" where
  "reaper_tick R rp clock rnd = (\<lambda>(timer, w).
     map_option (\<lambda>x. (reapPeriod + rnd * 1000000000, snd x)) (reap R rp clock w))"

end
