(* ===== verification/Heartbeater.thy ===== *)
theory Heartbeater
  imports Connection
begin

text \<open>
  \<open>heartbeater.go\<close>: a worker pool announces itself in the set of pools and keeps a hash with its
  configuration and the time of its last heartbeat.
\<close>

section \<open>The heartbeater\<close>

record workerPoolHeartbeater =
  hPoolID :: string
  hNamespace :: string
  hBeatPeriod :: int
  hConcurrency :: nat
  hJobNames :: string
  hStartedAt :: int
  hPid :: int
  hHostname :: string
  hWorkerIDs :: string

text \<open>In nanoseconds.\<close>

definition beatPeriod :: int where
  "beatPeriod = 5 * 1000000000"

text \<open>\<open>names\<close> are the keys of the map of job types; \<open>host = None\<close> is a failing \<open>os.Hostname\<close>.\<close>

definition newWorkerPoolHeartbeater ::
    "string \<Rightarrow> string \<Rightarrow> string list \<Rightarrow> nat \<Rightarrow> string list \<Rightarrow> int \<Rightarrow> string option \<Rightarrow> workerPoolHeartbeater" where
  "newWorkerPoolHeartbeater ns pool names concurrency wids pid host =
     \<lparr>hPoolID = pool, hNamespace = ns, hBeatPeriod = beatPeriod, hConcurrency = concurrency,
       hJobNames = strings_Join (sort names) CHR '','', hStartedAt = 0, hPid = pid,
       hHostname = (case host of None \<Rightarrow> ''hostname_errored'' | Some h \<Rightarrow> h),
       hWorkerIDs = strings_Join (sort wids) CHR '',''\<rparr>"

definition heartbeat_fields :: "workerPoolHeartbeater \<Rightarrow> int \<Rightarrow> (string \<times> string) list" where
  "heartbeat_fields h now =
     [(''heartbeat_at'', string_of_int now), (''started_at'', string_of_int (hStartedAt h)),
      (''job_names'', hJobNames h), (''concurrency'', string_of_int (int (hConcurrency h))),
      (''worker_ids'', hWorkerIDs h), (''host'', hHostname h), (''pid'', string_of_int (hPid h))]"

text \<open>Both operations send two commands and read no reply; a failing \<open>Flush\<close> is logged.\<close>

definition heartbeat :: "'w redis \<Rightarrow> workerPoolHeartbeater \<Rightarrow> int \<Rightarrow> 'w \<Rightarrow> 'w" where
  "heartbeat R h now w = snd (pipeline R
     [call R (SADD (redisKeyWorkerPools (hNamespace h)) [hPoolID h]),
      call R (HMSET (redisKeyHeartbeat (hNamespace h) (hPoolID h)) (heartbeat_fields h now))] w)"

definition removeHeartbeat :: "'w redis \<Rightarrow> workerPoolHeartbeater \<Rightarrow> 'w \<Rightarrow> 'w" where
  "removeHeartbeat R h w = snd (pipeline R
     [call R (SREM (redisKeyWorkerPools (hNamespace h)) (hPoolID h)),
      call R (DEL (redisKeyHeartbeat (hNamespace h) (hPoolID h)))] w)"

text \<open>The loop: what it does when it starts, and its branches. The clock readings are arguments.\<close>

definition hb_start :: "'w redis \<Rightarrow> int \<Rightarrow> int \<Rightarrow> workerPoolHeartbeater \<times> 'w \<Rightarrow> workerPoolHeartbeater \<times> 'w" where
  "hb_start R now now' = (\<lambda>(h, w). let h' = h\<lparr>hStartedAt := now\<rparr> in (h', heartbeat R h' now' w))"

datatype hb_event = HStop | HTick int

definition hb_step :: "'w redis \<Rightarrow> hb_event \<Rightarrow> workerPoolHeartbeater \<times> 'w \<Rightarrow> workerPoolHeartbeater \<times> 'w" where
  "hb_step R ev = (\<lambda>(h, w). (h, case ev of HStop \<Rightarrow> removeHeartbeat R h w | HTick now \<Rightarrow> heartbeat R h now w))"

section \<open>What is written\<close>

definition heartbeat_effect :: "workerPoolHeartbeater \<Rightarrow> int \<Rightarrow> keyspace \<Rightarrow> keyspace" where
  "heartbeat_effect h now d =
     (let pools = redisKeyWorkerPools (hNamespace h); key = redisKeyHeartbeat (hNamespace h) (hPoolID h) in
      upd key (vhash (hset_all (hsh d key) (heartbeat_fields h now)))
        (upd pools (vset (insert (hPoolID h) (smem d pools))) d))"

definition removed_effect :: "workerPoolHeartbeater \<Rightarrow> keyspace \<Rightarrow> keyspace" where
  "removed_effect h d =
     (let pools = redisKeyWorkerPools (hNamespace h) in
      upd (redisKeyHeartbeat (hNamespace h) (hPoolID h)) None (upd pools (vset (smem d pools - {hPoolID h})) d))"

lemma heartbeat_key_other: "redisKeyHeartbeat ns p \<noteq> redisKeyWorkerPools ns"
  by (simp add: key_defs)

text \<open>A heartbeat replaces the fields of the one before.\<close>

lemma heartbeat_field:
  "hget (heartbeat_effect h now d) (redisKeyHeartbeat (hNamespace h) (hPoolID h)) f =
     (case map_of (heartbeat_fields h now) f of
        None \<Rightarrow> hget d (redisKeyHeartbeat (hNamespace h) (hPoolID h)) f
      | Some v \<Rightarrow> Some v)"
  by (simp add: heartbeat_effect_def Let_def obs_simps map_of_hset_all heartbeat_fields_def)

context redis_link
begin

lemma heartbeat_up:
  assumes "up w" and "set_type (kv (db w) (redisKeyWorkerPools (hNamespace h)))"
    and "hash_type (kv (db w) (redisKeyHeartbeat (hNamespace h) (hPoolID h)))"
  shows "up (heartbeat R h now w) \<and> db (heartbeat R h now w) = heartbeat_effect h now (db w)"
proof -
  let ?pools = "redisKeyWorkerPools (hNamespace h)" and ?key = "redisKeyHeartbeat (hNamespace h) (hPoolID h)"
  let ?d = "upd ?pools (vset (insert (hPoolID h) (smem (db w) ?pools))) (db w)"
  have "\<exists>n. call R (SADD ?pools [hPoolID h]) (db w) = (RInt n, ?d)"
    using sadd [OF assms(2), of "[hPoolID h]"] by simp
  then obtain n where "call R (SADD ?pools [hPoolID h]) (db w) = (RInt n, ?d)" by (elim exE)
  moreover have "hash_type (kv ?d ?key)" "hsh ?d ?key = hsh (db w) ?key"
    using assms(3) by (simp_all add: obs_simps heartbeat_key_other)
  ultimately have "run_all [call R (SADD ?pools [hPoolID h]), call R (HMSET ?key (heartbeat_fields h now))] (db w) =
      ([RInt n, RStatus ''OK''], heartbeat_effect h now (db w))"
    using hmset [of ?d ?key "heartbeat_fields h now"]
    by (simp add: heartbeat_effect_def Let_def)
  then show ?thesis using pipeline_sent [OF assms(1)] unfolding heartbeat_def by blast
qed

lemma removeHeartbeat_up:
  assumes "up w" and "set_type (kv (db w) (redisKeyWorkerPools (hNamespace h)))"
  shows "up (removeHeartbeat R h w) \<and> db (removeHeartbeat R h w) = removed_effect h (db w)"
proof -
  let ?pools = "redisKeyWorkerPools (hNamespace h)" and ?key = "redisKeyHeartbeat (hNamespace h) (hPoolID h)"
  obtain n where "call R (SREM ?pools (hPoolID h)) (db w) =
      (RInt n, upd ?pools (vset (smem (db w) ?pools - {hPoolID h})) (db w))"
    using srem [OF assms(2)] by blast
  then have "\<exists>m. run_all [call R (SREM ?pools (hPoolID h)), call R (DEL ?key)] (db w) =
      ([RInt n, RInt m], removed_effect h (db w))"
    by (simp add: del removed_effect_def Let_def)
  then show ?thesis using pipeline_sent [OF assms(1)] unfolding removeHeartbeat_def by blast
qed

end

end
