(* ===== verification/Periodic_Enqueuer.thy ===== *)
theory Periodic_Enqueuer
  imports Connection
begin

text \<open>
  \<open>periodic_enqueuer.go\<close>: every couple of minutes each worker pool schedules the instances of the
  periodic jobs that fall into the next four minutes. The instances of a job are the same text in
  every pool, so however many pools do so there is one of each.
\<close>

section \<open>The periodic enqueuer\<close>

text \<open>
  \<open>schedule\<close> is the method \<open>Next\<close> of the cron library: the next activation after a time, in whole
  seconds since the epoch.
\<close>

record periodicJob =
  pjName :: string
  pjSpec :: string
  schedule :: "int \<Rightarrow> int"

record periodicEnqueuer =
  peNamespace :: string
  periodicJobs :: "periodicJob list"

text \<open>In nanoseconds.\<close>

definition periodicEnqueuerSleep :: int where
  "periodicEnqueuerSleep = 2 * (60 * 1000000000)"

definition periodicEnqueuerHorizon :: int where
  "periodicEnqueuerHorizon = 4 * (60 * 1000000000)"

definition newPeriodicEnqueuer :: "string \<Rightarrow> periodicJob list \<Rightarrow> periodicEnqueuer" where
  "newPeriodicEnqueuer ns jobs = \<lparr>peNamespace = ns, periodicJobs = jobs\<rparr>"

definition makeUniquePeriodicID :: "string \<Rightarrow> string \<Rightarrow> int \<Rightarrow> string" where
  "makeUniquePeriodicID name spec epoch =
     ''periodic:'' @ name @ '':'' @ spec @ '':'' @ string_of_int epoch"

definition periodic_instance :: "periodicJob \<Rightarrow> int \<Rightarrow> job" where
  "periodic_instance pj epoch =
     zero_job\<lparr>Name := pjName pj, ID := makeUniquePeriodicID (pjName pj) (pjSpec pj) epoch,
       EnqueuedAt := epoch, Args := None\<rparr>"

text \<open>
  The inner loop, from the activation \<open>t\<close> on. It ends because times pass the horizon, which is up to
  the schedule: \<open>None\<close> is not ending.
\<close>

partial_function (option) enqueue_times ::
    "'w redis \<Rightarrow> string \<Rightarrow> periodicJob \<Rightarrow> int \<Rightarrow> int \<Rightarrow> 'w \<Rightarrow> ((go_err + unit) \<times> 'w) option" where
  "enqueue_times R ns pj horizon t w =
     (if \<not> t < horizon then Some (Inr (), w)
      else
        (case serialize (periodic_instance pj t) of
           None \<Rightarrow> Some (Inl MarshalErr, w)
         | Some raw \<Rightarrow>
             (case conn_Do R (ZADD (redisKeyScheduled ns) t raw) w of (r, w') \<Rightarrow>
                (case r of
                   Inl err \<Rightarrow> Some (Inl err, w')
                 | Inr _ \<Rightarrow> enqueue_times R ns pj horizon (schedule pj t) w'))))"

fun enqueue_jobs ::
    "'w redis \<Rightarrow> string \<Rightarrow> int \<Rightarrow> int \<Rightarrow> periodicJob list \<Rightarrow> 'w \<Rightarrow> ((go_err + unit) \<times> 'w) option" where
  "enqueue_jobs R ns now horizon [] w = Some (Inr (), w)"
| "enqueue_jobs R ns now horizon (pj # pjs) w =
     (case enqueue_times R ns pj horizon (schedule pj now) w of
        None \<Rightarrow> None
      | Some (Inl err, w') \<Rightarrow> Some (Inl err, w')
      | Some (Inr _, w') \<Rightarrow> enqueue_jobs R ns now horizon pjs w')"

definition enqueue :: "'w redis \<Rightarrow> periodicEnqueuer \<Rightarrow> int \<Rightarrow> 'w \<Rightarrow> ((go_err + unit) \<times> 'w) option" where
  "enqueue R pe now w =
     (let horizon = now + periodicEnqueuerHorizon div 1000000000 in
      case enqueue_jobs R (peNamespace pe) now horizon (periodicJobs pe) w of
        None \<Rightarrow> None
      | Some (Inl err, w') \<Rightarrow> Some (Inl err, w')
      | Some (Inr _, w') \<Rightarrow>
          Some (ebind (conn_Do R (SET (redisKeyLastPeriodicEnqueue (peNamespace pe)) (string_of_int now)))
                  (\<lambda>_. eret ()) w'))"

text \<open>The sleep divided by \<open>time.Minute\<close> is subtracted from a number of seconds.\<close>

definition shouldEnqueue :: "'w redis \<Rightarrow> periodicEnqueuer \<Rightarrow> int \<Rightarrow> 'w \<Rightarrow> bool \<times> 'w" where
  "shouldEnqueue R pe now w =
     (case ebind (conn_Do R (GET (redisKeyLastPeriodicEnqueue (peNamespace pe)))) (conv (redis_Int64 R)) w of
        (Inl _, w') \<Rightarrow> (True, w')
      | (Inr lastEnqueue, w') \<Rightarrow> (lastEnqueue < wrap_i64 (now - periodicEnqueuerSleep div (60 * 1000000000)), w'))"

text \<open>
  What the loop does when it starts and whenever its timer fires; \<open>rnd\<close> is the jitter in seconds,
  and the two clock readings are those of \<open>shouldEnqueue\<close> and \<open>enqueue\<close>.
\<close>

definition pe_tick :: "'w redis \<Rightarrow> periodicEnqueuer \<Rightarrow> int \<Rightarrow> int \<Rightarrow> int \<Rightarrow> 'w \<Rightarrow> (int \<times> 'w) option" where
  "pe_tick R pe rnd now now' w =
     (let timer = periodicEnqueuerSleep + rnd * 1000000000 in
      case shouldEnqueue R pe now w of (should, w') \<Rightarrow>
        if should then map_option (\<lambda>x. (timer, snd x)) (enqueue R pe now' w') else Some (timer, w'))"

section \<open>Schedules\<close>

text \<open>
  What the cron library documents of a schedule that can be satisfied: the next activation is later
  than the given time, and there is none in between.
\<close>

definition schedule_ok :: "(int \<Rightarrow> int) \<Rightarrow> bool" where
  "schedule_ok next \<longleftrightarrow> (\<forall>t. t < next t) \<and> (\<forall>t u. t \<le> u \<longrightarrow> u < next t \<longrightarrow> next u = next t)"

text \<open>The activations strictly between two times.\<close>

definition activations :: "(int \<Rightarrow> int) \<Rightarrow> int \<Rightarrow> int \<Rightarrow> int list" where
  "activations next lo hi = filter (\<lambda>t. next (t - 1) = t) [lo + 1..hi - 1]"

lemma activations_step:
  assumes "schedule_ok next"
  shows "activations next lo hi = (if next lo < hi then next lo # activations next (next lo) hi else [])"
proof -
  have later: "lo < next lo" using assms by (simp add: schedule_ok_def)
  have same: "next u = next lo" if "lo \<le> u" "u < next lo" for u
    using assms that unfolding schedule_ok_def by blast
  have "next (t - 1) \<noteq> t" if "lo + 1 \<le> t" "t < next lo" for t
    using same [of "t - 1"] that by simp
  then have none: "filter (\<lambda>t. next (t - 1) = t) [lo + 1..k] = []" if "k < next lo" for k
    using that by (simp add: filter_empty_conv)
  show ?thesis
  proof (cases "next lo < hi")
    case True
    have "next (next lo - 1) = next lo" using same [of "next lo - 1"] later by simp
    with True later none [of "next lo - 1"] show ?thesis
      by (simp add: activations_def upto_split3 [of "lo + 1" "next lo" "hi - 1"])
  next
    case False
    with none [of "hi - 1"] show ?thesis by (simp add: activations_def)
  qed
qed

lemma activations_bounds: "t \<in> set (activations next lo hi) \<Longrightarrow> lo < t \<and> t < hi"
  by (auto simp: activations_def)

section \<open>What is scheduled\<close>

definition instance_text :: "periodicJob \<Rightarrow> int \<Rightarrow> string" where
  "instance_text pj t = the (serialize (periodic_instance pj t))"

lemma serialize_instance: "in_i64 t \<Longrightarrow> serialize (periodic_instance pj t) = Some (instance_text pj t)"
  using serialize_Some [of "periodic_instance pj t"]
  by (auto simp: instance_text_def job_wf_def periodic_instance_def zero_job_def in_i64_def)

lemma newJob_instance:
  assumes "in_i64 t"
  shows "newJob (instance_text pj t) from inprog =
    Some (reread (instance_text pj t) from inprog (periodic_instance pj t))"
  using assms serialize_instance [OF assms, of pj]
  by (intro newJob_serialize) (auto simp: job_wf_def periodic_instance_def zero_job_def in_i64_def)

text \<open>The text of an instance tells its job and its time.\<close>

lemma instance_text_inject:
  assumes "in_i64 t" and "in_i64 u" and "instance_text pj t = instance_text qj u"
  shows "t = u \<and> pjName pj = pjName qj"
proof -
  have "reread (instance_text pj t) [] [] (periodic_instance pj t) = reread (instance_text pj t) [] [] (periodic_instance qj u)"
    using newJob_instance [OF assms(1), of pj "[]" "[]"] newJob_instance [OF assms(2), of qj "[]" "[]"] assms(3) by simp
  from arg_cong [OF this, of EnqueuedAt] arg_cong [OF this, of Name] show ?thesis
    by (simp add: reread_def periodic_instance_def)
qed

definition planned :: "periodicJob list \<Rightarrow> int \<Rightarrow> int \<Rightarrow> (int \<times> string) list" where
  "planned pjs lo hi = concat (map (\<lambda>pj. map (\<lambda>t. (t, instance_text pj t)) (activations (schedule pj) lo hi)) pjs)"

definition zadd_all :: "string \<Rightarrow> (int \<times> string) list \<Rightarrow> keyspace \<Rightarrow> keyspace" where
  "zadd_all k xs d = fold (\<lambda>(s, m). zadd_key k s m) xs d"

lemma zadd_all_simps [simp]:
  "zadd_all k [] d = d" "zadd_all k ((s, m) # xs) d = zadd_all k xs (zadd_key k s m d)"
  "zadd_all k (xs @ ys) d = zadd_all k ys (zadd_all k xs d)"
  by (simp_all add: zadd_all_def)

lemma zadd_all_type: "zset_type (kv d k) \<Longrightarrow> zset_type (kv (zadd_all k xs d) k)"
  by (induction xs arbitrary: d) (auto simp: obs_simps)

lemma zadd_all_zst: "zst (zadd_all k xs d) k = fold (\<lambda>(s, m). zadd s m) xs (zst d k)"
  by (induction xs arbitrary: d) (auto simp: obs_simps)

lemma zadd_all_other: "k' \<noteq> k \<Longrightarrow> kv (zadd_all k xs d) k' = kv d k'"
  by (induction xs arbitrary: d) (auto simp: obs_simps)

definition safe_time :: "int \<Rightarrow> bool" where
  "safe_time now \<longleftrightarrow> 0 \<le> now \<and> now < 2 ^ 52"

context redis_link
begin

lemma zadd_up:
  assumes "up w" and "zset_type (kv (db w) k)" and "score_ok s"
  shows "\<exists>r w'. conn_Do R (ZADD k s m) w = (Inr r, w') \<and> up w' \<and> db w' = zadd_key k s m (db w)"
proof -
  obtain n where "call R (ZADD k s m) (db w) = (RInt n, zadd_key k s m (db w))"
    using zadd [OF assms(2,3)] by blast
  from returnsD [OF returns_Do [OF this], of w] assms(1) show ?thesis
    by (auto simp: view_def split: if_splits)
qed

lemma enqueue_times_up:
  assumes "schedule_ok (schedule pj)" and "0 \<le> lo" and "hi < 2 ^ 53"
    and "up w" and "zset_type (kv (db w) (redisKeyScheduled ns))"
  shows "\<exists>w'. enqueue_times R ns pj hi (schedule pj lo) w = Some (Inr (), w') \<and> up w' \<and>
    db w' = zadd_all (redisKeyScheduled ns) (map (\<lambda>t. (t, instance_text pj t)) (activations (schedule pj) lo hi)) (db w)"
  using assms(2,4,5)
proof (induction "nat (hi - lo)" arbitrary: lo w rule: less_induct)
  case less
  let ?t = "schedule pj lo" and ?k = "redisKeyScheduled ns"
  have later: "lo < ?t" using assms(1) by (simp add: schedule_ok_def)
  show ?case
  proof (cases "?t < hi")
    case False
    with less.prems show ?thesis
      by (subst enqueue_times.simps) (simp add: activations_step [OF assms(1), of lo])
  next
    case True
    then have ok: "score_ok ?t" "in_i64 ?t"
      using later less.prems(1) assms(3) by (auto simp: score_ok_def in_i64_def)
    from zadd_up [OF less.prems(2,3) ok(1)] obtain r w1 where
      w1: "conn_Do R (ZADD ?k ?t (instance_text pj ?t)) w = (Inr r, w1)" "up w1"
      "db w1 = zadd_key ?k ?t (instance_text pj ?t) (db w)" by blast
    from less.hyps [of ?t w1] w1(2,3) later True less.prems(1) obtain w' where
      "enqueue_times R ns pj hi (schedule pj ?t) w1 = Some (Inr (), w')" "up w'"
      "db w' = zadd_all ?k (map (\<lambda>t. (t, instance_text pj t)) (activations (schedule pj) ?t hi)) (db w1)"
      by (auto simp: obs_simps)
    with True w1 ok(2) show ?thesis
      by (subst enqueue_times.simps) (simp add: serialize_instance activations_step [OF assms(1), of lo])
  qed
qed

lemma enqueue_jobs_up:
  assumes "\<forall>pj\<in>set pjs. schedule_ok (schedule pj)" and "0 \<le> now" and "hi < 2 ^ 53"
    and "up w" and "zset_type (kv (db w) (redisKeyScheduled ns))"
  shows "\<exists>w'. enqueue_jobs R ns now hi pjs w = Some (Inr (), w') \<and> up w' \<and>
    db w' = zadd_all (redisKeyScheduled ns) (planned pjs now hi) (db w)"
  using assms(1,4,5)
proof (induction pjs arbitrary: w)
  case (Cons pj pjs)
  let ?xs = "map (\<lambda>t. (t, instance_text pj t)) (activations (schedule pj) now hi)"
  from enqueue_times_up [of pj now hi w ns] Cons.prems assms(2,3) obtain w1 where
    w1: "enqueue_times R ns pj hi (schedule pj now) w = Some (Inr (), w1)" "up w1"
    "db w1 = zadd_all (redisKeyScheduled ns) ?xs (db w)" by auto
  then have "zset_type (kv (db w1) (redisKeyScheduled ns))" using Cons.prems(3) by (simp add: zadd_all_type)
  with Cons.IH [of w1] Cons.prems(1) w1 show ?case by (auto simp: planned_def)
qed (simp add: planned_def)

lemma periodic_up:
  assumes "\<forall>pj\<in>set (periodicJobs pe). schedule_ok (schedule pj)" and "safe_time now"
    and "up w" and "zset_type (kv (db w) (redisKeyScheduled (peNamespace pe)))"
  shows "\<exists>w'. enqueue R pe now w = Some (Inr (), w') \<and> up w' \<and>
    zst (db w') (redisKeyScheduled (peNamespace pe)) =
      fold (\<lambda>(s, m). zadd s m) (planned (periodicJobs pe) now (now + 240)) (zst (db w) (redisKeyScheduled (peNamespace pe))) \<and>
    str (db w') (redisKeyLastPeriodicEnqueue (peNamespace pe)) = Some (string_of_int now) \<and>
    zset_type (kv (db w') (redisKeyScheduled (peNamespace pe)))"
proof -
  let ?k = "redisKeyScheduled (peNamespace pe)" and ?l = "redisKeyLastPeriodicEnqueue (peNamespace pe)"
  have kl: "?k \<noteq> ?l" by (simp add: key_defs)
  from enqueue_jobs_up [OF assms(1) _ _ assms(3,4), of now "now + 240"] assms(2) obtain w1 where
    w1: "enqueue_jobs R (peNamespace pe) now (now + 240) (periodicJobs pe) w = Some (Inr (), w1)" "up w1"
    "db w1 = zadd_all ?k (planned (periodicJobs pe) now (now + 240)) (db w)"
    by (auto simp: safe_time_def)
  let ?d = "set_ttl ?l None (upd ?l (Some (VStr (string_of_int now))) (db w1))"
  from returnsD [OF returns_Do [OF set, of ?l "string_of_int now" "db w1"], of w1] w1(2) obtain w' where
    "conn_Do R (SET ?l (string_of_int now)) w1 = (Inr (RStatus ''OK''), w')" "up w'" "db w' = ?d"
    by (auto simp: view_def split: if_splits)
  with w1 assms(4) kl show ?thesis
    by (auto simp: enqueue_def periodicEnqueuerHorizon_def Let_def act_simps obs_simps zadd_all_zst zadd_all_type)
qed

text \<open>
  For a specification that nothing satisfies the library returns the zero time, which is before
  every horizon: the loop never ends.
\<close>

lemma enqueue_times_diverges:
  assumes "\<forall>t. schedule pj t = t0" and "t0 < hi" and "score_ok t0"
    and "up w" and "zset_type (kv (db w) (redisKeyScheduled ns))"
  shows "enqueue_times R ns pj hi t0 w = None"
proof -
  let ?k = "redisKeyScheduled ns"
  let ?P = "\<lambda>R' ns' pj' hi' t w _. \<not> (R' = R \<and> ns' = ns \<and> pj' = pj \<and> hi' = hi \<and> t = t0 \<and> up w \<and> zset_type (kv (db w) ?k))"
  have "?P R' ns' pj' hi' t w y" if "enqueue_times R' ns' pj' hi' t w = Some y" for R' ns' pj' hi' t w y
    using _ that
  proof (rule enqueue_times.raw_induct [where P = ?P])
    fix f R' ns' pj' hi' t w y
    assume IH: "\<And>R' ns' pj' hi' t w y. f R' ns' pj' hi' t w = Some y \<Longrightarrow> ?P R' ns' pj' hi' t w y"
      and step: "(if \<not> t < hi' then Some (Inr (), w)
        else case serialize (periodic_instance pj' t) of
          None \<Rightarrow> Some (Inl MarshalErr, w)
        | Some raw \<Rightarrow> (case conn_Do R' (ZADD (redisKeyScheduled ns') t raw) w of (r, w') \<Rightarrow>
            (case r of Inl err \<Rightarrow> Some (Inl err, w') | Inr _ \<Rightarrow> f R' ns' pj' hi' (schedule pj' t) w'))) = Some y"
    show "?P R' ns' pj' hi' t w y"
    proof
      assume a: "R' = R \<and> ns' = ns \<and> pj' = pj \<and> hi' = hi \<and> t = t0 \<and> up w \<and> zset_type (kv (db w) ?k)"
      with zadd_up [of w ?k t0 "instance_text pj t0"] assms(3) obtain r w1 where
        w1: "conn_Do R (ZADD ?k t0 (instance_text pj t0)) w = (Inr r, w1)" "up w1"
        "db w1 = zadd_key ?k t0 (instance_text pj t0) (db w)" by blast
      have "in_i64 t0" using assms(3) by (auto simp: score_ok_def in_i64_def)
      with step a w1(1) assms(1,2) have "f R ns pj hi t0 w1 = Some y" by (simp add: serialize_instance)
      from IH [OF this] w1(2,3) show False by (simp add: obs_simps)
    qed
  qed
  with assms(4,5) show ?thesis by (cases "enqueue_times R ns pj hi t0 w") blast+
qed

end

section \<open>One of each\<close>

definition zset_wf :: "(int \<times> string) list \<Rightarrow> bool" where
  "zset_wf z \<longleftrightarrow> sorted z \<and> distinct (map snd z)"

lemma set_zadd: "set (zadd s m z) = insert (s, m) {x \<in> set z. snd x \<noteq> m}"
  by (auto simp: zadd_def set_insort_key)

lemma distinct_map_snd_filter: "distinct (map snd z) \<Longrightarrow> distinct (map snd (filter P z))"
  by (simp add: distinct_map inj_on_def)

lemma distinct_snd_insort:
  "distinct (map snd (insort x z)) \<longleftrightarrow> snd x \<notin> snd ` set z \<and> distinct (map snd z)"
proof -
  have "mset (map snd (insort x z)) = mset (map snd (x # z))" by simp
  then have "distinct (map snd (insort x z)) = distinct (map snd (x # z))" by (rule mset_eq_imp_distinct_iff)
  then show ?thesis by simp
qed

lemma zset_wf_zadd: "zset_wf z \<Longrightarrow> zset_wf (zadd s m z)"
  unfolding zset_wf_def zadd_def
  using sorted_filter [where f = id and P = "\<lambda>x. snd x \<noteq> m" and xs = z]
  by (auto simp: sorted_insort distinct_snd_insort distinct_map_snd_filter)

lemma zset_wf_unique: "zset_wf z \<Longrightarrow> zset_wf z' \<Longrightarrow> set z = set z' \<Longrightarrow> z = z'"
  by (auto simp: zset_wf_def distinct_map intro: sorted_distinct_set_unique)

lemma zadd_fold:
  assumes "zset_wf z" and "\<forall>x\<in>set xs. \<forall>y\<in>set xs. snd x = snd y \<longrightarrow> x = y"
  shows "zset_wf (fold (\<lambda>(s, m). zadd s m) xs z) \<and>
    set (fold (\<lambda>(s, m). zadd s m) xs z) = set xs \<union> {x \<in> set z. snd x \<notin> snd ` set xs}"
  using assms
proof (induction xs arbitrary: z)
  case (Cons x xs)
  obtain s m where x: "x = (s, m)" by (cases x)
  have "zset_wf (zadd s m z)" using Cons.prems(1) by (rule zset_wf_zadd)
  with Cons.IH [of "zadd s m z"] Cons.prems(2) have
    IH: "zset_wf (fold (\<lambda>(s, m). zadd s m) xs (zadd s m z))"
    "set (fold (\<lambda>(s, m). zadd s m) xs (zadd s m z)) = set xs \<union> {x \<in> set (zadd s m z). snd x \<notin> snd ` set xs}"
    by auto
  have "set xs \<union> {y \<in> insert (s, m) {x \<in> set z. snd x \<noteq> m}. snd y \<notin> snd ` set xs} =
      set (x # xs) \<union> {y \<in> set z. snd y \<notin> snd ` set (x # xs)}"
  proof -
    have same: "s' = s" if "(s', m) \<in> set xs" for s' using that Cons.prems(2) x by force
    show ?thesis
    proof (cases "m \<in> snd ` set xs")
      case True
      then have "(s, m) \<in> set xs" using same by auto
      with True x show ?thesis by (auto simp: image_iff)
    next
      case False
      with x show ?thesis by (auto simp: image_iff)
    qed
  qed
  then show ?case using IH unfolding set_zadd x fold_simps prod.case by (intro conjI) (assumption, simp)
qed simp

lemma planned_texts:
  assumes "0 \<le> lo" and "hi < 2 ^ 53" and "x \<in> set (planned pjs lo hi)" and "y \<in> set (planned pjs' lo' hi')"
    and "0 \<le> lo'" and "hi' < 2 ^ 53" and "snd x = snd y"
  shows "x = y"
proof -
  from assms(3) obtain pj t where x: "x = (t, instance_text pj t)" "t \<in> set (activations (schedule pj) lo hi)"
    by (auto simp: planned_def)
  from assms(4) obtain qj u where y: "y = (u, instance_text qj u)" "u \<in> set (activations (schedule qj) lo' hi')"
    by (auto simp: planned_def)
  have "in_i64 t" "in_i64 u"
    using activations_bounds [OF x(2)] activations_bounds [OF y(2)] assms(1,2,5,6) by (auto simp: in_i64_def)
  then have "t = u" using instance_text_inject [of t u pj qj] x(1) y(1) assms(7) by simp
  with x(1) y(1) assms(7) show ?thesis by simp
qed

section \<open>What the periodic enqueuers of several pools do\<close>


definition every_minute :: periodicEnqueuer where
  "every_minute = \<lparr>peNamespace = ''w'', periodicJobs = [\<lparr>pjName = ''a'', pjSpec = ''0 * * * * *'', schedule = (\<lambda>t. (t div 60 + 1) * 60)\<rparr>]\<rparr>"

lemma every_minute_ok: "schedule_ok (\<lambda>t. (t div 60 + 1) * 60)"
  unfolding schedule_ok_def by auto


text \<open>C39: for a specification that no time satisfies, for which the cron library returns the zero time, the
  loop over the instances never ends.\<close>

theorem unsatisfiable_spec_diverges:
  assumes "redis_link R db up" and "\<forall>t. schedule pj t = - 62135596800" and "0 \<le> hi" and "up w"
    and "zset_type (kv (db w) (redisKeyScheduled ns))"
  shows "enqueue_times R ns pj hi (schedule pj now) w = None"
  using redis_link.enqueue_times_diverges [OF assms(1,2) _ _ assms(4,5), of hi] assms(2,3) by (simp add: score_ok_def)

theorem unsatisfiable_spec_diverges_witness:
  "enqueue_times mem_redis ''w'' \<lparr>pjName = ''a'', pjSpec = ''0 0 0 30 2 *'', schedule = (\<lambda>_. - 62135596800)\<rparr> 240 (- 62135596800)
     \<lparr>mem_db = empty_keyspace, mem_faults = []\<rparr> = None"
  using unsatisfiable_spec_diverges [OF mem_link.redis_link_axioms,
      of "\<lparr>pjName = ''a'', pjSpec = ''0 0 0 30 2 *'', schedule = (\<lambda>_. - 62135596800)\<rparr>" 240 "\<lparr>mem_db = empty_keyspace, mem_faults = []\<rparr>" "''w''" 0]
  by (simp add: mem_up_def empty_keyspace_def)

end
