(* ===== verification/Go_Types.thy ===== *)
theory Go_Types
  imports Job_Types
begin

text \<open>
  The reflection that \<open>worker_pool.go\<close> does on handlers and middleware: which function types are
  accepted, the message for those that are not, and how an accepted function is called by
  \<open>run.go\<close>.
\<close>

section \<open>Types\<close>

text \<open>
  Structs and interfaces by their name with package; functions with the name of their type, if it
  has one, and whether the last parameter is variadic.
\<close>

datatype go_type =
    TBasic string
  | TStruct string
  | TInterface string
  | TPtr go_type
  | TSlice go_type
  | TFunc "string option" "go_type list" "go_type list" bool

definition type_error :: go_type where
  "type_error = TInterface ''error''"

definition type_Job :: go_type where
  "type_Job = TPtr (TStruct ''work.Job'')"

definition type_Next :: go_type where
  "type_Next = TFunc (Some ''work.NextMiddlewareFunc'') [] [type_error] False"

text \<open>\<open>Type.String\<close>.\<close>

fun comma_join :: "string list \<Rightarrow> string" where
  "comma_join [] = []"
| "comma_join [s] = s"
| "comma_join (s # t # ts) = s @ '', '' @ comma_join (t # ts)"

definition variadic_text :: "bool \<Rightarrow> string list \<Rightarrow> string list" where
  "variadic_text v ins = (if v \<and> ins \<noteq> [] then butlast ins @ [''...'' @ drop 2 (last ins)] else ins)"

fun type_String :: "go_type \<Rightarrow> string" where
  "type_String (TBasic n) = n"
| "type_String (TStruct n) = n"
| "type_String (TInterface n) = n"
| "type_String (TPtr t) = ''*'' @ type_String t"
| "type_String (TSlice t) = ''[]'' @ type_String t"
| "type_String (TFunc name ins outs v) =
     (case name of
        Some n \<Rightarrow> n
      | None \<Rightarrow>
          ''func('' @ comma_join (variadic_text v (map type_String ins)) @ '')'' @
          (case outs of
             [] \<Rightarrow> []
           | [t] \<Rightarrow> '' '' @ type_String t
           | _ \<Rightarrow> '' ('' @ comma_join (map type_String outs) @ '')''))"

section \<open>Validation\<close>

definition isValidHandlerType :: "go_type \<Rightarrow> go_type \<Rightarrow> bool" where
  "isValidHandlerType ctxType fnType =
     (case fnType of
        TFunc name ins outs v \<Rightarrow>
          if length outs \<noteq> 1 then False
          else if outs ! 0 \<noteq> type_error then False
          else if length ins = 1 then ins ! 0 = type_Job
          else if length ins = 2 then (if ins ! 0 \<noteq> TPtr ctxType then False else ins ! 1 = type_Job)
          else False
      | _ \<Rightarrow> False)"

definition isValidMiddlewareType :: "go_type \<Rightarrow> go_type \<Rightarrow> bool" where
  "isValidMiddlewareType ctxType fnType =
     (case fnType of
        TFunc name ins outs v \<Rightarrow>
          if length outs \<noteq> 1 then False
          else if outs ! 0 \<noteq> type_error then False
          else if length ins = 2 then (if ins ! 0 \<noteq> type_Job then False else ins ! 1 = type_Next)
          else if length ins = 3 then
            (if ins ! 0 \<noteq> TPtr ctxType then False else if ins ! 1 \<noteq> type_Job then False else ins ! 2 = type_Next)
          else False
      | _ \<Rightarrow> False)"

definition newline :: string where
  "newline = [CHR 0x0A]"

definition instructiveMessage :: "go_type \<Rightarrow> string \<Rightarrow> string \<Rightarrow> string \<Rightarrow> go_type \<Rightarrow> string" where
  "instructiveMessage fnType addingType yourType args ctxType =
     (let splitted = strings_Split (type_String ctxType) CHR ''.'';
          ctxString = (if length splitted \<le> 1 then splitted ! 0 else splitted ! 1) in
      newline @ replicate 120 CHR ''*'' @ newline @
      ''* You are adding '' @ addingType @ '' to a worker pool with context type '' @ [CHR 0x27] @ ctxString @ [CHR 0x27] @ newline @
      ''*'' @ newline @ ''*'' @ newline @
      ''* Your '' @ yourType @ '' function can have one of these signatures:'' @ newline @
      ''*'' @ newline @
      ''* // If you don't need context:'' @ newline @
      ''* func YourFunctionName('' @ args @ '') error'' @ newline @
      ''*'' @ newline @
      ''* // If you want your '' @ yourType @ '' to accept a context:'' @ newline @
      ''* func (c *'' @ ctxString @ '') YourFunctionName('' @ args @ '') error  // or,'' @ newline @
      ''* func YourFunctionName(c *'' @ ctxString @ '', '' @ args @ '') error'' @ newline @
      ''*'' @ newline @
      ''* Unfortunately, your function has this signature: '' @ type_String fnType @ newline @
      ''*'' @ newline @
      replicate 120 CHR ''*'' @ newline)"

text \<open>The validations: \<open>Inl\<close> is the panic.\<close>

definition validateContextType :: "go_type \<Rightarrow> string + unit" where
  "validateContextType ctxType =
     (case ctxType of TStruct _ \<Rightarrow> Inr () | _ \<Rightarrow> Inl ''work: Context needs to be a struct type'')"

definition validateHandlerType :: "go_type \<Rightarrow> go_type \<Rightarrow> string + unit" where
  "validateHandlerType ctxType fnType =
     (if isValidHandlerType ctxType fnType then Inr ()
      else Inl (instructiveMessage fnType ''a handler'' ''handler'' ''job *work.Job'' ctxType))"

definition validateMiddlewareType :: "go_type \<Rightarrow> go_type \<Rightarrow> string + unit" where
  "validateMiddlewareType ctxType fnType =
     (if isValidMiddlewareType ctxType fnType then Inr ()
      else Inl (instructiveMessage fnType ''middleware'' ''middleware'' ''job *work.Job, next NextMiddlewareFunc'' ctxType))"

section \<open>Calling what was accepted\<close>

text \<open>A function value: its type and what a call of it does.\<close>

record 'f go_func =
  FnType :: go_type
  FnBody :: 'f

text \<open>The type assertions: a type with a name is not the unnamed one.\<close>

definition is_generic_handler :: "go_type \<Rightarrow> bool" where
  "is_generic_handler t \<longleftrightarrow> t = TFunc None [type_Job] [type_error] False"

definition is_generic_middleware :: "go_type \<Rightarrow> bool" where
  "is_generic_middleware t \<longleftrightarrow> t = TFunc None [type_Job, type_Next] [type_error] False"

definition num_in :: "go_type \<Rightarrow> nat" where
  "num_in t = (case t of TFunc _ ins _ _ \<Rightarrow> length ins | _ \<Rightarrow> 0)"

text \<open>
  \<open>runJob\<close> calls a generic function directly and any other through \<open>Value.Call\<close> with the context as
  a first argument, which panics if the function takes no context.
\<close>

definition call_handler :: "'c handler go_func \<Rightarrow> 'c handler" where
  "call_handler fn =
     (if is_generic_handler (FnType fn) \<or> num_in (FnType fn) = 2 then FnBody fn
      else (\<lambda>s. (Panicked ''reflect: Call with too many input arguments'', s)))"

definition call_middleware :: "'c middleware go_func \<Rightarrow> 'c middleware" where
  "call_middleware fn =
     (if is_generic_middleware (FnType fn) \<or> num_in (FnType fn) = 3 then FnBody fn
      else (\<lambda>s. MwReturn (Panicked ''reflect: Call with too many input arguments'') s))"

section \<open>What validation gives\<close>

lemma length_1: "length xs = Suc 0 \<longleftrightarrow> (\<exists>a. xs = [a])"
  by (auto simp: length_Suc_conv)

lemma length_2: "length xs = 2 \<longleftrightarrow> (\<exists>a b. xs = [a, b])"
  by (auto simp: numeral_2_eq_2 length_Suc_conv)

lemma length_3: "length xs = 3 \<longleftrightarrow> (\<exists>a b c. xs = [a, b, c])"
  by (auto simp: numeral_3_eq_3 length_Suc_conv)

lemma valid_handler_iff:
  "isValidHandlerType ctx t \<longleftrightarrow>
     (\<exists>name v. t = TFunc name [type_Job] [type_error] v \<or> t = TFunc name [TPtr ctx, type_Job] [type_error] v)"
  by (cases t) (auto simp: isValidHandlerType_def length_1 length_2 split: if_splits)

lemma valid_middleware_iff:
  "isValidMiddlewareType ctx t \<longleftrightarrow>
     (\<exists>name v. t = TFunc name [type_Job, type_Next] [type_error] v \<or>
               t = TFunc name [TPtr ctx, type_Job, type_Next] [type_error] v)"
  by (cases t) (auto simp: isValidMiddlewareType_def length_1 length_2 length_3 split: if_splits)

text \<open>An accepted handler is called as it should, unless its type is a named or variadic one without a context.\<close>

lemma call_handler_valid:
  assumes "isValidHandlerType ctx (FnType fn)"
  shows "call_handler fn = FnBody fn \<or>
    (\<exists>name v. FnType fn = TFunc name [type_Job] [type_error] v \<and> (name \<noteq> None \<or> v))"
proof -
  obtain name v where "FnType fn = TFunc name [type_Job] [type_error] v \<or>
      FnType fn = TFunc name [TPtr ctx, type_Job] [type_error] v"
    using assms by (auto simp: valid_handler_iff)
  then show ?thesis
  proof
    assume t: "FnType fn = TFunc name [type_Job] [type_error] v"
    show ?thesis
    proof (cases "name = None \<and> \<not> v")
      case True
      with t show ?thesis by (simp add: call_handler_def is_generic_handler_def)
    next
      case False
      with t show ?thesis by auto
    qed
  qed (simp add: call_handler_def num_in_def)
qed

end
