(* ===== verification/Worker_Pool.thy ===== *)
theory Worker_Pool
  imports Worker Requeuer Dead_Pool_Reaper Heartbeater Periodic_Enqueuer Go_Types
begin

text \<open>
  \<open>worker_pool.go\<close>: the pool that owns the workers and the background processes. Registering jobs and
  middleware, starting and stopping, and what is written to Redis on the way. The goroutines a pool
  starts are the step functions of the other components.
\<close>

section \<open>The pool\<close>

record 'c workerPool =
  workerPoolID :: string
  concurrency :: nat
  wpNamespace :: string
  wpSleepBackoffs :: "int list"
  contextType :: go_type
  wpContextZero :: 'c
  wpJobTypes :: "(string \<times> 'c jobType) list"
  wpMiddleware :: "'c middleware list"
  started :: bool
  wpPeriodicJobs :: "periodicJob list"
  workers :: "'c worker list"
  heartbeater :: "workerPoolHeartbeater option"
  retrier :: "requeuer option"
  scheduler :: "requeuer option"
  deadPoolReaper :: "deadPoolReaper option"
  periodicEnqueuer :: "periodicEnqueuer option"

text \<open>
  \<open>ident\<close> and \<open>idents\<close> are the identifiers of the pool and its workers; \<open>conns = False\<close> is a nil
  pool of connections. \<open>Inl\<close> is a panic, here and below.
\<close>

definition NewWorkerPoolWithOptions ::
    "string \<Rightarrow> string list \<Rightarrow> go_type \<Rightarrow> 'c \<Rightarrow> nat \<Rightarrow> string \<Rightarrow> bool \<Rightarrow> int list \<Rightarrow> string + 'c workerPool" where
  "NewWorkerPoolWithOptions ident idents ctxType ctx n ns conns backoffs =
     (if \<not> conns then Inl ''NewWorkerPool needs a non-nil *redis.Pool''
      else
        (case validateContextType ctxType of
           Inl msg \<Rightarrow> Inl msg
         | Inr _ \<Rightarrow>
             Inr \<lparr>workerPoolID = ident, concurrency = n, wpNamespace = ns, wpSleepBackoffs = backoffs,
               contextType = ctxType, wpContextZero = ctx, wpJobTypes = [], wpMiddleware = [], started = False,
               wpPeriodicJobs = [], workers = map (\<lambda>i. newWorker (idents ! i) ns ident ctx [] [] backoffs) [0..<n],
               heartbeater = None, retrier = None, scheduler = None, deadPoolReaper = None, periodicEnqueuer = None\<rparr>))"

definition NewWorkerPool ::
    "string \<Rightarrow> string list \<Rightarrow> go_type \<Rightarrow> 'c \<Rightarrow> nat \<Rightarrow> string \<Rightarrow> bool \<Rightarrow> string + 'c workerPool" where
  "NewWorkerPool ident idents ctxType ctx n ns conns = NewWorkerPoolWithOptions ident idents ctxType ctx n ns conns []"

text \<open>The loop that hands the current middleware and job types to every worker.\<close>

definition update_workers :: "'c workerPool \<Rightarrow> 'c workerPool" where
  "update_workers wp = wp\<lparr>workers := map (updateMiddlewareAndJobTypes (wpMiddleware wp) (wpJobTypes wp)) (workers wp)\<rparr>"

definition Middleware :: "'c middleware go_func \<Rightarrow> 'c workerPool \<Rightarrow> string + 'c workerPool" where
  "Middleware fn wp =
     (case validateMiddlewareType (contextType wp) (FnType fn) of
        Inl msg \<Rightarrow> Inl msg
      | Inr _ \<Rightarrow> Inr (update_workers (wp\<lparr>wpMiddleware := wpMiddleware wp @ [call_middleware fn]\<rparr>)))"

text \<open>Writing to a map: the entry of the key is replaced, or added.\<close>

definition put_type :: "string \<Rightarrow> 'c jobType \<Rightarrow> (string \<times> 'c jobType) list \<Rightarrow> (string \<times> 'c jobType) list" where
  "put_type name jt jts = (name, jt) # filter (\<lambda>x. fst x \<noteq> name) jts"

definition JobWithOptions :: "string \<Rightarrow> jobOptions \<Rightarrow> 'c handler go_func \<Rightarrow> 'c workerPool \<Rightarrow> string + 'c workerPool" where
  "JobWithOptions name jobOpts fn wp =
     (case applyDefaultsAndValidate jobOpts of
        Inl msg \<Rightarrow> Inl msg
      | Inr opts \<Rightarrow>
          (case validateHandlerType (contextType wp) (FnType fn) of
             Inl msg \<Rightarrow> Inl msg
           | Inr _ \<Rightarrow>
               Inr (update_workers
                 (wp\<lparr>wpJobTypes := put_type name \<lparr>JTName = name, JobOptions = opts, Handler = call_handler fn\<rparr> (wpJobTypes wp)\<rparr>))))"

definition default_options :: jobOptions where
  "default_options = \<lparr>Priority = 0, MaxFails = 0, SkipDead = False, MaxConcurrency = 0, Backoff = None\<rparr>"

definition Job_register :: "string \<Rightarrow> 'c handler go_func \<Rightarrow> 'c workerPool \<Rightarrow> string + 'c workerPool" where
  "Job_register name fn wp = JobWithOptions name default_options fn wp"

text \<open>\<open>parse\<close> is the cron parser, with \<open>Inl\<close> its error.\<close>

definition PeriodicallyEnqueue ::
    "(string \<Rightarrow> string + (int \<Rightarrow> int)) \<Rightarrow> string \<Rightarrow> string \<Rightarrow> 'c workerPool \<Rightarrow> string + 'c workerPool" where
  "PeriodicallyEnqueue parse spec jobName wp =
     (case parse spec of
        Inl err \<Rightarrow> Inl err
      | Inr sched \<Rightarrow>
          Inr (wp\<lparr>wpPeriodicJobs := wpPeriodicJobs wp @ [\<lparr>pjName = jobName, pjSpec = spec, schedule = sched\<rparr>]\<rparr>))"

definition Started :: "'c workerPool \<Rightarrow> bool" where
  "Started wp = started wp"

section \<open>What is written when a pool starts\<close>

text \<open>Errors are logged and the loop goes on.\<close>

definition writeConcurrencyControlsToRedis :: "'w redis \<Rightarrow> 'c workerPool \<Rightarrow> 'w \<Rightarrow> 'w" where
  "writeConcurrencyControlsToRedis R wp w =
     (if wpJobTypes wp = [] then w
      else fold (\<lambda>(jobName, jt). logged (conn_Do R
             (SET (redisKeyJobsConcurrency (wpNamespace wp) jobName) (string_of_int (int (MaxConcurrency (JobOptions jt)))))))
           (wpJobTypes wp) w)"

definition writeKnownJobsToRedis :: "'w redis \<Rightarrow> 'c workerPool \<Rightarrow> 'w \<Rightarrow> 'w" where
  "writeKnownJobsToRedis R wp w =
     (if wpJobTypes wp = [] then w
      else logged (conn_Do R (SADD (redisKeyKnownJobs (wpNamespace wp)) (map fst (wpJobTypes wp)))) w)"

definition workerIDs :: "'c workerPool \<Rightarrow> string list" where
  "workerIDs wp = sort (map workerID (workers wp))"

definition startRequeuers :: "'c workerPool \<Rightarrow> 'c workerPool" where
  "startRequeuers wp =
     (let jobNames = map fst (wpJobTypes wp); ns = wpNamespace wp in
      wp\<lparr>retrier := Some (newRequeuer ns (redisKeyRetry ns) jobNames),
        scheduler := Some (newRequeuer ns (redisKeyScheduled ns) jobNames),
        deadPoolReaper := Some (newDeadPoolReaper ns jobNames)\<rparr>)"

text \<open>
  \<open>Start\<close>. The known jobs are written by a goroutine; here it runs where it is started. \<open>pid\<close> and
  \<open>host\<close> are those of the process.
\<close>

definition Start :: "'w redis \<Rightarrow> int \<Rightarrow> string option \<Rightarrow> 'c workerPool \<times> 'w \<Rightarrow> 'c workerPool \<times> 'w" where
  "Start R pid host = (\<lambda>(wp, w).
     if started wp then (wp, w)
     else
       (let wp1 = wp\<lparr>started := True\<rparr>;
            w1 = writeConcurrencyControlsToRedis R wp1 w;
            w2 = writeKnownJobsToRedis R wp1 w1;
            wp2 = wp1\<lparr>heartbeater := Some (newWorkerPoolHeartbeater (wpNamespace wp1) (workerPoolID wp1)
                       (map fst (wpJobTypes wp1)) (concurrency wp1) (workerIDs wp1) pid host)\<rparr>;
            wp3 = startRequeuers wp2 in
        (wp3\<lparr>periodicEnqueuer := Some (newPeriodicEnqueuer (wpNamespace wp3) (wpPeriodicJobs wp3))\<rparr>, w2)))"

section \<open>Stopping\<close>

text \<open>
  \<open>Stop\<close>, from the point where all workers have stopped. What the workers left in progress goes
  back to the queues, the pool's locks are released and its heartbeat is removed. \<open>None\<close>: the loop
  of \<open>requeueInProgressJobs\<close> does not end.
\<close>

definition Stop :: "'w redis \<Rightarrow> 'c workerPool \<times> 'w \<Rightarrow> ('c workerPool \<times> 'w) option" where
  "Stop R = (\<lambda>(wp, w).
     if \<not> started wp then Some (wp, w)
     else
       (case (deadPoolReaper wp, heartbeater wp) of
          (Some rp, Some h) \<Rightarrow>
            (let names = map fst (wpJobTypes wp) in
             case requeueInProgressJobs R rp (workerPoolID wp) names w of
               None \<Rightarrow> None
             | Some (_, w1) \<Rightarrow>
                 Some (wp\<lparr>started := False\<rparr>,
                   removeHeartbeat R h (logged (cleanStaleLockInfo R rp (workerPoolID wp) names) w1)))
        | _ \<Rightarrow> None))"

section \<open>Draining\<close>

text \<open>
  \<open>Drain\<close> asks the loop of every worker to drain and returns when each of them has acknowledged it:
  the requests, and the condition under which it returns, given the loops when it was called.
\<close>

definition Drain_requests :: "loop_state list \<Rightarrow> loop_state list" where
  "Drain_requests ls = map (\<lambda>l. l\<lparr>drained := True, timer := 0\<rparr>) ls"

definition Drain_returns :: "loop_state list \<Rightarrow> loop_state list \<Rightarrow> bool" where
  "Drain_returns ls ls' \<longleftrightarrow> list_all2 (\<lambda>l l'. drainAcks l' = Suc (drainAcks l)) ls ls'"

section \<open>The pool's invariant\<close>

text \<open>
  Every worker of a pool has the pool's namespace, identifier, job types and middleware, a sampler
  with one item of positive priority per job type, and backoffs to sleep; there are as many as the
  concurrency says.
\<close>

definition types_ok :: "(string \<times> 'c jobType) list \<Rightarrow> bool" where
  "types_ok jts \<longleftrightarrow> distinct (map fst jts) \<and>
     (\<forall>(k, jt)\<in>set jts. JTName jt = k \<and> 1 \<le> jt_priority jt \<and> jt_priority jt \<le> 100000 \<and> 1 \<le> MaxFails (JobOptions jt))"

definition sampler_items :: "string \<Rightarrow> string \<Rightarrow> (string \<times> 'c jobType) list \<Rightarrow> sampleItem list" where
  "sampler_items ns pool jts = map (\<lambda>(k, jt). sample_of ns pool (JTName jt) (jt_priority jt)) jts"

definition worker_ok :: "'c workerPool \<Rightarrow> 'c worker \<Rightarrow> bool" where
  "worker_ok wp wk \<longleftrightarrow>
     wNamespace wk = wpNamespace wp \<and> poolID wk = workerPoolID wp \<and> jobTypes wk = wpJobTypes wp \<and>
     wMiddleware wk = wpMiddleware wp \<and> sleepBackoffs wk \<noteq> [] \<and> sampler_inv (sampler wk) \<and>
     samples (sampler wk) = sampler_items (wpNamespace wp) (workerPoolID wp) (wpJobTypes wp)"

definition pool_inv :: "'c workerPool \<Rightarrow> bool" where
  "pool_inv wp \<longleftrightarrow> length (workers wp) = concurrency wp \<and> types_ok (wpJobTypes wp) \<and> (\<forall>wk\<in>set (workers wp). worker_ok wp wk)"

lemma sampler_fold:
  "foldl (\<lambda>s (k, jt). sampler_add (sample_of ns pool (JTName jt) (jt_priority jt)) s) s0 jts =
     s0\<lparr>samples := samples s0 @ sampler_items ns pool jts,
       prioSum := prioSum s0 + total_priority (sampler_items ns pool jts)\<rparr>"
  by (induction jts arbitrary: s0) (auto simp: sampler_items_def sampler_add_def total_priority_def sample_of_def)

lemma update_worker_ok:
  assumes "types_ok (wpJobTypes wp)" and "wNamespace wk = wpNamespace wp" and "poolID wk = workerPoolID wp"
    and "sleepBackoffs wk \<noteq> []"
  shows "worker_ok wp (updateMiddlewareAndJobTypes (wpMiddleware wp) (wpJobTypes wp) wk)"
proof -
  let ?xs = "sampler_items (wpNamespace wp) (workerPoolID wp) (wpJobTypes wp)"
  have "\<forall>x\<in>set ?xs. 0 < priority x"
    using assms(1) by (auto simp: types_ok_def sampler_items_def sample_of_def)
  then show ?thesis
    using assms by (simp add: worker_ok_def updateMiddlewareAndJobTypes_def sampler_fold sampler_inv_def empty_sampler_def)
qed

lemma pool_inv_update:
  assumes "types_ok (wpJobTypes wp)" and "length (workers wp) = concurrency wp"
    and "\<forall>wk\<in>set (workers wp). wNamespace wk = wpNamespace wp \<and> poolID wk = workerPoolID wp \<and> sleepBackoffs wk \<noteq> []"
  shows "pool_inv (update_workers wp)"
proof -
  have ok: "worker_ok wp' = worker_ok wp" if "wp' = update_workers wp" for wp'
    using that by (simp add: fun_eq_iff worker_ok_def update_workers_def)
  show ?thesis
    using assms update_worker_ok [of wp] by (simp add: pool_inv_def ok) (simp add: update_workers_def)
qed

lemma pool_inv_new:
  assumes "NewWorkerPoolWithOptions ident idents ctxType ctx n ns conns backoffs = Inr wp"
  shows "pool_inv wp"
proof -
  have wp: "workers wp = map (\<lambda>i. newWorker (idents ! i) ns ident ctx [] [] backoffs) [0..<n]" "concurrency wp = n"
    "wpNamespace wp = ns" "workerPoolID wp = ident" "wpJobTypes wp = []" "wpMiddleware wp = []"
    using assms by (auto simp: NewWorkerPoolWithOptions_def split: if_splits sum.splits)
  have "worker_ok wp (newWorker i ns ident ctx [] [] backoffs)" for i
    unfolding newWorker_def using wp update_worker_ok [of wp] by (simp add: types_ok_def sleepBackoffsInMilliseconds_def)
  with wp show ?thesis by (auto simp: pool_inv_def types_ok_def)
qed

lemma applied_options:
  "applyDefaultsAndValidate jobOpts = Inr opts \<Longrightarrow>
   1 \<le> Priority opts \<and> Priority opts \<le> 100000 \<and> 1 \<le> MaxFails opts"
  by (auto simp: applyDefaultsAndValidate_def Let_def split: if_splits)

lemma types_ok_put:
  assumes "types_ok jts" and "applyDefaultsAndValidate jobOpts = Inr opts"
  shows "types_ok (put_type name \<lparr>JTName = name, JobOptions = opts, Handler = h\<rparr> jts)"
  using assms applied_options [OF assms(2)]
  by (auto simp: types_ok_def put_type_def jt_priority_def distinct_map_filter)

lemma workers_of_pool:
  "pool_inv wp \<Longrightarrow> \<forall>wk\<in>set (workers wp). wNamespace wk = wpNamespace wp \<and> poolID wk = workerPoolID wp \<and> sleepBackoffs wk \<noteq> []"
  by (simp add: pool_inv_def worker_ok_def)

lemma pool_inv_Middleware:
  assumes "pool_inv wp" and "Middleware fn wp = Inr wp'"
  shows "pool_inv wp'"
proof -
  have wp': "wp' = update_workers (wp\<lparr>wpMiddleware := wpMiddleware wp @ [call_middleware fn]\<rparr>)"
    using assms(2) by (auto simp: Middleware_def split: sum.splits)
  show ?thesis unfolding wp'
    using assms(1) workers_of_pool [OF assms(1)] by (intro pool_inv_update) (simp_all add: pool_inv_def)
qed

lemma pool_inv_Job:
  assumes "pool_inv wp" and "JobWithOptions name jobOpts fn wp = Inr wp'"
  shows "pool_inv wp'"
proof -
  obtain opts where opts: "applyDefaultsAndValidate jobOpts = Inr opts" and
    wp': "wp' = update_workers (wp\<lparr>wpJobTypes := put_type name \<lparr>JTName = name, JobOptions = opts, Handler = call_handler fn\<rparr> (wpJobTypes wp)\<rparr>)"
    using assms(2) by (auto simp: JobWithOptions_def split: sum.splits)
  show ?thesis unfolding wp'
    using assms(1) workers_of_pool [OF assms(1)]
    by (intro pool_inv_update) (simp_all add: pool_inv_def types_ok_put [OF _ opts])
qed

lemma pool_inv_fields:
  assumes "pool_inv wp" and "workers wp' = workers wp" and "concurrency wp' = concurrency wp"
    and "wpJobTypes wp' = wpJobTypes wp" and "wpNamespace wp' = wpNamespace wp"
    and "workerPoolID wp' = workerPoolID wp" and "wpMiddleware wp' = wpMiddleware wp"
  shows "pool_inv wp'"
  using assms by (simp add: pool_inv_def worker_ok_def)

lemma pool_inv_Periodic: "pool_inv wp \<Longrightarrow> PeriodicallyEnqueue parse spec n wp = Inr wp' \<Longrightarrow> pool_inv wp'"
  by (auto simp: PeriodicallyEnqueue_def split: sum.splits elim!: pool_inv_fields)

lemma pool_inv_Start: "pool_inv wp \<Longrightarrow> Start R pid host (wp, w) = (wp', w') \<Longrightarrow> pool_inv wp'"
  by (auto simp: Start_def startRequeuers_def Let_def split: if_splits elim!: pool_inv_fields)

lemma pool_inv_Stop: "pool_inv wp \<Longrightarrow> Stop R (wp, w) = Some (wp', w') \<Longrightarrow> pool_inv wp'"
  by (auto simp: Stop_def Let_def split: if_splits option.splits elim!: pool_inv_fields)

end
