(* ===== verification/Worker_Facts.thy ===== *)
theory Worker_Facts
  imports Worker
begin

text \<open>
  What a worker does to Redis on a connection that is up: which job a fetch takes, how a job ends,
  when it is retried and when it dies. The loop never panics, however the connection behaves.
\<close>

section \<open>Fetching\<close>

lemma sample_inv:
  assumes "sampler_inv s" and "\<forall>i n. 0 < n \<longrightarrow> rnd i n < n"
  shows "\<exists>s'. sample rnd s = Some s' \<and> mset (samples s') = mset (samples s) \<and> sampler_inv s'"
proof -
  obtain ys where ys: "sample_loop rnd (length (samples s)) (samples s) (prioSum s) 0 = Some ys"
    using sample_loop_no_panic [of rnd "prioSum s" 0 "samples s" "length (samples s)"] assms
    by (auto simp: sampler_inv_def)
  then have perm: "mset ys = mset (samples s)"
    using sample_loop_perm [of rnd "length (samples s)" "samples s" "prioSum s" 0 ys] by simp
  then have "sampler_inv (s\<lparr>samples := ys\<rparr>)"
    using assms(1) total_priority_mset [OF perm] mset_eq_setD [OF perm] by (simp add: sampler_inv_def)
  with ys perm show ?thesis by (simp add: sample_def)
qed

text \<open>What the result of the script is turned into.\<close>

definition fetch_result :: "keyspace \<Rightarrow> sampleItem \<Rightarrow> go_err + job option" where
  "fetch_result db s =
     (case newJob (last (lst db (redisJobs s))) (redisJobs s) (redisJobsInProg s) of
        None \<Rightarrow> Inl UnmarshalErr
      | Some j \<Rightarrow> Inr (Some j))"

definition fetch_outcome :: "string \<Rightarrow> sampleItem list \<Rightarrow> keyspace \<Rightarrow> (go_err + job option) \<times> keyspace" where
  "fetch_outcome pool ss db =
     (case find (runnable db) ss of
        None \<Rightarrow> (Inr None, db)
      | Some s \<Rightarrow> (fetch_result db s, fetch_effect pool s db))"

lemma fetched_reply:
  "fetched_job [RBulk raw, RBulk from, RBulk inprog] w =
     (case newJob raw from inprog of None \<Rightarrow> (Inl UnmarshalErr, w) | Some j \<Rightarrow> (Inr (Some j), w))"
  by (simp add: fetched_job_def act_simps split: option.split)

context redis_link
begin

lemma fetch_request_up:
  assumes "up w" and "\<forall>s\<in>set ss. fetch_typed pool (db w) s"
  shows "\<exists>w'. ebind (etry (ebind (script_Do R (redisLuaFetchJob R pool (concat (map sample_keys ss)))) (conv (redis_Values R)))) (\<lambda>res.
      case res of
        Inl err \<Rightarrow> if err = RedisErr ErrNil then eret None else efail err
      | Inr values \<Rightarrow> fetched_job values) w = (fst (fetch_outcome pool ss (db w)), w') \<and>
    up w' \<and> db w' = snd (fetch_outcome pool ss (db w))"
proof -
  let ?m = "redisLuaFetchJob R pool (concat (map sample_keys ss))"
  have v: "view db up w = Some (db w)" using assms(1) by (simp add: view_def)
  note script = fetch_script [OF assms(2)]
  show ?thesis
  proof (cases "find (runnable (db w)) ss")
    case None
    then have "?m (db w) = (Inr RNil, db w)" using script by simp
    from returnsD [OF returns_script [where m = ?m, OF this] v] obtain w' where
      "script_Do R ?m w = (Inr RNil, w')" "view db up w' = Some (db w)" by auto
    with None show ?thesis
      by (auto simp: fetch_outcome_def act_simps conv_def Values_nil lift_err_def view_def split: if_splits)
  next
    case (Some s)
    then have "?m (db w) = (Inr (fetch_reply s (db w)), fetch_effect pool s (db w))" using script by simp
    from returnsD [OF returns_script [where m = ?m, OF this] v] obtain w' where
      "script_Do R ?m w = (Inr (fetch_reply s (db w)), w')" "view db up w' = Some (fetch_effect pool s (db w))"
      by (auto simp: fetch_reply_def)
    with Some show ?thesis
      by (auto simp: fetch_outcome_def fetch_result_def act_simps conv_def fetch_reply_def Values_arr lift_err_def
          fetched_reply view_def split: if_splits option.split)
  qed
qed

lemma fetchJob_up:
  assumes "up w" and "sampler_inv (sampler wk)" and "\<forall>i n. 0 < n \<longrightarrow> rnd i n < n"
    and "\<forall>s\<in>set (samples (sampler wk)). fetch_typed (poolID wk) (db w) s"
  shows "\<exists>s w'. sample rnd (sampler wk) = Some s \<and> mset (samples s) = mset (samples (sampler wk)) \<and>
    fetchJob R rnd (wk, w) = (fst (fetch_outcome (poolID wk) (samples s) (db w)), (wk\<lparr>sampler := s\<rparr>, w')) \<and>
    up w' \<and> db w' = snd (fetch_outcome (poolID wk) (samples s) (db w))"
proof -
  obtain s where s: "sample rnd (sampler wk) = Some s" "mset (samples s) = mset (samples (sampler wk))"
    using sample_inv [OF assms(2,3)] by blast
  then have "\<forall>x\<in>set (samples s). fetch_typed (poolID wk) (db w) x"
    using assms(4) mset_eq_setD [OF s(2)] by simp
  from fetch_request_up [OF assms(1) this] s show ?thesis
    by (auto simp: fetchJob_def on_world_def)
qed

end

section \<open>Finishing a job\<close>

definition finish_effect :: "string \<Rightarrow> string \<Rightarrow> string \<Rightarrow> string \<Rightarrow> string \<Rightarrow> keyspace \<Rightarrow> keyspace" where
  "finish_effect pool inprog lock info raw db =
     (let h = hsh db info in
      upd info (vhash (hput pool (string_of_int (hnum h pool - 1)) h))
        (upd lock (vint (num db lock - 1)) (upd inprog (vlist (remove1 raw (lst db inprog))) db)))"

definition finish_typed :: "string \<Rightarrow> string \<Rightarrow> string \<Rightarrow> string \<Rightarrow> keyspace \<Rightarrow> bool" where
  "finish_typed pool inprog lock info db \<longleftrightarrow>
     list_type (kv db inprog) \<and> num_type (kv db lock) \<and> in_i64 (num db lock - 1) \<and> hash_type (kv db info) \<and>
     hnum_ok (hsh db info) pool \<and> in_i64 (hnum (hsh db info) pool - 1) \<and> distinct [info, lock, inprog]"

text \<open>A fate is at most one command that adds to a sorted set.\<close>

fun fate_effect :: "cmd list \<Rightarrow> keyspace \<Rightarrow> keyspace" where
  "fate_effect [ZADD k s m] db = zadd_key k s m db"
| "fate_effect _ db = db"

fun fate_typed :: "cmd list \<Rightarrow> keyspace \<Rightarrow> bool" where
  "fate_typed [ZADD k s m] db = (zset_type (kv db k) \<and> score_ok s)"
| "fate_typed fate db = (fate = [])"

lemma run_multi_append:
  "run_multi R (cs @ ds) db =
     (case run_multi R cs db of (rs, db') \<Rightarrow> (case run_multi R ds db' of (rs', db'') \<Rightarrow> (rs @ rs', db'')))"
  by (induction cs arbitrary: db) (auto split: prod.splits)

context redis_server
begin

lemma finish_multi:
  assumes "finish_typed pool inprog lock info d"
  shows "\<exists>rs. run_multi R [LREM inprog raw, DECR lock, HINCRBY info pool (- 1)] d =
    (rs, finish_effect pool inprog lock info raw d)"
proof -
  have neq: "info \<noteq> lock" "lock \<noteq> inprog" "info \<noteq> inprog" using assms by (auto simp: finish_typed_def)
  let ?d1 = "upd inprog (vlist (remove1 raw (lst d inprog))) d"
  let ?d2 = "upd lock (vint (num d lock - 1)) ?d1"
  have "call R (LREM inprog raw) d = (RInt (if raw \<in> set (lst d inprog) then 1 else 0), ?d1)"
    using assms by (simp add: lrem finish_typed_def)
  moreover have "call R (DECR lock) ?d1 = (RInt (num d lock - 1), ?d2)"
    using assms neq decr [of ?d1 lock] by (simp add: finish_typed_def obs_simps)
  moreover have "call R (HINCRBY info pool (- 1)) ?d2 =
      (RInt (hnum (hsh d info) pool - 1), finish_effect pool inprog lock info raw d)"
    using assms neq hincrby [of ?d2 info pool "- 1"] by (simp add: finish_typed_def obs_simps finish_effect_def Let_def)
  ultimately show ?thesis by simp
qed

lemma fate_multi:
  assumes "fate_typed fate d"
  shows "\<exists>rs. run_multi R fate d = (rs, fate_effect fate d)"
  using assms
proof (cases "(fate, d)" rule: fate_typed.cases)
  case (1 k s m db)
  with assms zadd [of d k s m] show ?thesis by auto
qed simp_all

end

context redis_link
begin

lemma removeJobFromInProgress_up:
  assumes "up w" and "finish_typed (poolID wk) (inProgQueue j) (redisKeyJobsLock (wNamespace wk) (Name j))
      (redisKeyJobsLockInfo (wNamespace wk) (Name j)) (db w)"
    and "d = finish_effect (poolID wk) (inProgQueue j) (redisKeyJobsLock (wNamespace wk) (Name j))
      (redisKeyJobsLockInfo (wNamespace wk) (Name j)) raw (db w)" and "fate_typed fate d"
  shows "\<exists>w'. removeJobFromInProgress R wk j fate raw w = (Inr (), w') \<and> up w' \<and> db w' = fate_effect fate d"
proof -
  let ?cs = "[LREM (inProgQueue j) raw, DECR (redisKeyJobsLock (wNamespace wk) (Name j)),
    HINCRBY (redisKeyJobsLockInfo (wNamespace wk) (Name j)) (poolID wk) (- 1)]"
  obtain rs1 rs2 where "run_multi R ?cs (db w) = (rs1, d)" "run_multi R fate d = (rs2, fate_effect fate d)"
    using finish_multi [OF assms(2), of raw] fate_multi [OF assms(4)] assms(3) by blast
  then have "run_multi R (?cs @ fate) (db w) = (rs1 @ rs2, fate_effect fate d)"
    by (subst run_multi_append) simp
  from returnsD [OF returns_multi [OF this], of w] assms(1) show ?thesis
    by (auto simp: removeJobFromInProgress_def act_simps view_def split: if_splits)
qed

end

section \<open>Processing\<close>

text \<open>The fate of a job after it ran with the given error.\<close>

definition fate_of :: "int \<Rightarrow> int \<Rightarrow> int \<Rightarrow> 'c worker \<Rightarrow> job \<Rightarrow> string option \<Rightarrow> job \<Rightarrow> job \<times> cmd list" where
  "fate_of now_failed now_fate rnd wk j1 err j2 =
     (case err of
        None \<Rightarrow> (j2, terminateOnly)
      | Some msg \<Rightarrow>
          (failed msg now_failed j2,
           jobFate now_fate rnd (wNamespace wk) (map_of (jobTypes wk) (Name j1)) (failed msg now_failed j2)))"

lemma failed_fields [simp]:
  "Name (failed msg now j) = Name j" "inProgQueue (failed msg now j) = inProgQueue j" "rawJSON (failed msg now j) = rawJSON j"
  "ID (failed msg now j) = ID j" "LastErr (failed msg now j) = msg" "FailedAt (failed msg now j) = now"
  by (simp_all add: failed_def)

context redis_link
begin

lemma processJob_up:
  assumes "up w" and "\<not> Unique j" and "perform now wk j = (err, j2, obvs)"
    and "fate_of now_failed now_fate rnd wk j err j2 = (j3, fate)"
    and "finish_typed (poolID wk) (inProgQueue j2) (redisKeyJobsLock (wNamespace wk) (Name j2))
      (redisKeyJobsLockInfo (wNamespace wk) (Name j2)) (db w)"
    and "d = finish_effect (poolID wk) (inProgQueue j2) (redisKeyJobsLock (wNamespace wk) (Name j2))
      (redisKeyJobsLockInfo (wNamespace wk) (Name j2)) (rawJSON j) (db w)" and "fate_typed fate d"
  shows "\<exists>w'. processJob R now now_failed now_fate rnd wk j (obs, w) = (Inr (), (obs @ obvs, w')) \<and>
    up w' \<and> db w' = fate_effect fate d"
proof (cases err)
  case None
  then have j3: "j3 = j2" "fate = terminateOnly" using assms(4) by (simp_all add: fate_of_def)
  from removeJobFromInProgress_up [OF assms(1,5,6,7)] None j3 assms(2,3) show ?thesis
    by (auto simp: processJob_def act_simps on_world_def)
next
  case (Some msg)
  then have j3: "j3 = failed msg now_failed j2"
    "fate = jobFate now_fate rnd (wNamespace wk) (map_of (jobTypes wk) (Name j)) j3"
    using assms(4) by (auto simp: fate_of_def)
  have "finish_typed (poolID wk) (inProgQueue j3) (redisKeyJobsLock (wNamespace wk) (Name j3))
      (redisKeyJobsLockInfo (wNamespace wk) (Name j3)) (db w)"
    "d = finish_effect (poolID wk) (inProgQueue j3) (redisKeyJobsLock (wNamespace wk) (Name j3))
      (redisKeyJobsLockInfo (wNamespace wk) (Name j3)) (rawJSON j) (db w)"
    using assms(5,6) j3(1) by simp_all
  from removeJobFromInProgress_up [OF assms(1) this assms(7)] Some j3 assms(2,3) show ?thesis
    by (auto simp: processJob_def act_simps on_world_def Let_def)
qed

text \<open>The payload of a unique job replaces it, and its key is gone before it runs.\<close>

lemma getAndDeleteUniqueJob_up:
  assumes "up w" and "UniqueKey j = uk" and "uk \<noteq> []" and "kv (db w) uk = Some (VStr raw)"
  shows "\<exists>w'. getAndDeleteUniqueJob R wk j w =
      (Inr (if raw = ''1'' then None else newJob raw (dequeuedFrom j) (inProgQueue j)), w') \<and>
    up w' \<and> db w' = upd uk None (db w)"
proof -
  have v: "view db up w = Some (db w)" using assms(1) by (simp add: view_def)
  have "call R (GET uk) (db w) = (RBulk raw, db w)" using assms(4) get [of "db w" uk] by simp
  from returnsD [OF returns_Do [OF this] v] obtain w1 where
    w1: "conn_Do R (GET uk) w = (Inr (RBulk raw), w1)" "view db up w1 = Some (db w)" by auto
  have "call R (DEL uk) (db w) = (RInt 1, upd uk None (db w))" using assms(4) by (simp add: del)
  from returnsD [OF returns_Do [OF this] w1(2)] obtain w2 where
    "conn_Do R (DEL uk) w1 = (Inr (RInt 1), w2)" "view db up w2 = Some (upd uk None (db w))" by auto
  with w1 assms(2,3) show ?thesis
    by (auto simp: getAndDeleteUniqueJob_def act_simps conv_def String_bulk lift_err_def view_def split: if_splits)
qed

end

section \<open>Retry or death\<close>

lemma jobFate_retry:
  assumes "jt = Some t" and "MaxFails (JobOptions t) < 2 ^ 63" and "0 \<le> Fails j" and "Fails j < int (MaxFails (JobOptions t))"
    and "serialize j = Some raw"
  shows "jobFate now rnd ns jt j = [ZADD (redisKeyRetry ns) (wrap_i64 (now + calcBackoff rnd t j)) raw]"
proof -
  have "wrap_i64 (int (MaxFails (JobOptions t))) = int (MaxFails (JobOptions t))"
    using assms(2) by (intro wrap_i64_id) (simp add: in_i64_def)
  moreover have "wrap_i64 (int (MaxFails (JobOptions t)) - Fails j) = int (MaxFails (JobOptions t)) - Fails j"
    using assms(2-4) by (intro wrap_i64_id) (simp add: in_i64_def)
  ultimately show ?thesis using assms by (simp add: jobFate_def terminateAndRetry_def)
qed

lemma jobFate_exhausted:
  assumes "jt = Some t" and "MaxFails (JobOptions t) < 2 ^ 63" and "int (MaxFails (JobOptions t)) \<le> Fails j" and "in_i64 (Fails j)"
    and "serialize j = Some raw"
  shows "jobFate now rnd ns jt j = (if SkipDead (JobOptions t) then [] else [ZADD (redisKeyDead ns) now raw])"
proof -
  have "wrap_i64 (int (MaxFails (JobOptions t))) = int (MaxFails (JobOptions t))"
    using assms(2) by (intro wrap_i64_id) (simp add: in_i64_def)
  moreover have "wrap_i64 (int (MaxFails (JobOptions t)) - Fails j) = int (MaxFails (JobOptions t)) - Fails j"
    using assms(2-4) by (intro wrap_i64_id) (simp add: in_i64_def)
  ultimately show ?thesis using assms by (simp add: jobFate_def terminateOnly_def terminateAndDead_def)
qed

lemma jobFate_stray: "serialize j = Some raw \<Longrightarrow> jobFate now rnd ns None j = [ZADD (redisKeyDead ns) now raw]"
  by (simp add: jobFate_def terminateAndDead_def)

text \<open>A job that cannot be serialized again is dropped.\<close>

lemma jobFate_dropped: "serialize j = None \<Longrightarrow> jobFate now rnd ns jt j = []"
  by (simp add: jobFate_def terminateAndRetry_def terminateAndDead_def terminateOnly_def split: option.split)

section \<open>The default backoff\<close>

lemma backoff_bounds:
  assumes "0 \<le> Fails j" and "Fails j \<le> 55108" and "0 \<le> rnd" and "rnd < 30"
  shows "Fails j ^ 4 + 15 \<le> defaultBackoffCalculator rnd j \<and>
    defaultBackoffCalculator rnd j \<le> Fails j ^ 4 + 15 + 29 * (Fails j + 1)"
proof -
  let ?f = "Fails j"
  have p: "?f * ?f * ?f * ?f = ?f ^ 4" by (simp add: power4_eq_xxxx)
  have up: "?f ^ 4 \<le> 55108 ^ 4" using assms(1,2) by (intro power_mono) auto
  have r: "0 \<le> rnd * (?f + 1)" "rnd * (?f + 1) \<le> 29 * (?f + 1)"
    using assms mult_right_mono [of rnd 29 "?f + 1"] by auto
  have "0 \<le> ?f ^ 4" using assms(1) by simp
  with up r assms(2) have "in_i64 (?f ^ 4 + 15 + rnd * (?f + 1))" by (simp add: in_i64_def)
  then have "defaultBackoffCalculator rnd j = ?f ^ 4 + 15 + rnd * (?f + 1)"
    by (simp add: defaultBackoffCalculator_def Let_def wrap_i64_id p)
  with r show ?thesis by simp
qed

section \<open>The loop\<close>

definition loop_inv :: "nat \<Rightarrow> 'c worker \<Rightarrow> loop_state \<Rightarrow> bool" where
  "loop_inv k wk l \<longleftrightarrow> 0 \<le> consequtiveNoJobs l \<and> consequtiveNoJobs l \<le> int k \<and> sampler_inv (sampler wk) \<and> sleepBackoffs wk \<noteq> []"

text \<open>The next index is within the backoffs, and the delay is one of them.\<close>

lemma after_fetch_idle:
  assumes "backoffs \<noteq> []" and "0 \<le> consequtiveNoJobs l" and "consequtiveNoJobs l < 2 ^ 63 - 1"
  shows "\<exists>l'. after_fetch backoffs (Inr None) l = Some l' \<and> consequtiveNoJobs l' = consequtiveNoJobs l + 1 \<and>
    timer l' = backoffs ! min (nat (consequtiveNoJobs l) + 1) (length backoffs - 1) \<and>
    \<not> drained l' \<and> drainAcks l' = drainAcks l + (if drained l then 1 else 0)"
proof -
  have w: "wrap_i64 (consequtiveNoJobs l + 1) = consequtiveNoJobs l + 1"
    using assms(2,3) by (intro wrap_i64_id) (simp add: in_i64_def)
  have n: "nat (consequtiveNoJobs l + 1) = nat (consequtiveNoJobs l) + 1" using assms(2) by simp
  show ?thesis
  proof (cases "int (length backoffs) \<le> consequtiveNoJobs l + 1")
    case True
    then have "min (nat (consequtiveNoJobs l) + 1) (length backoffs - 1) = length backoffs - 1" by simp
    moreover have "nat (int (length backoffs) - 1) = length backoffs - 1" by simp
    ultimately show ?thesis using assms(1) True w by (auto simp: after_fetch_def Let_def)
  next
    case False
    then have "nat (consequtiveNoJobs l) + 1 < length backoffs" using assms(2) by linarith
    then have "min (nat (consequtiveNoJobs l) + 1) (length backoffs - 1) = nat (consequtiveNoJobs l) + 1" by simp
    with assms(2) False w n show ?thesis by (auto simp: after_fetch_def Let_def)
  qed
qed

lemma after_fetch_ok:
  assumes "backoffs \<noteq> []" and "0 \<le> consequtiveNoJobs l" and "consequtiveNoJobs l \<le> int k" and "int k < 2 ^ 63 - 1"
  shows "\<exists>l'. after_fetch backoffs r l = Some l' \<and> 0 \<le> consequtiveNoJobs l' \<and> consequtiveNoJobs l' \<le> int (Suc k)"
proof (cases r)
  case (Inl e)
  with assms show ?thesis by (simp add: after_fetch_def)
next
  case (Inr x)
  show ?thesis
  proof (cases x)
    case None
    obtain l' where "after_fetch backoffs (Inr None) l = Some l'" "consequtiveNoJobs l' = consequtiveNoJobs l + 1"
      using after_fetch_idle [of backoffs l] assms by auto
    with assms Inr None show ?thesis by simp
  next
    case (Some j)
    with assms Inr show ?thesis by (simp add: after_fetch_def)
  qed
qed

lemma fetchJob_worker:
  assumes "fetchJob R rnd (wk, w) = (r, (wk', w'))" and "sampler_inv (sampler wk)" and "\<forall>i n. 0 < n \<longrightarrow> rnd i n < n"
  shows "\<not> is_panic r \<and> sampler_inv (sampler wk') \<and> sleepBackoffs wk' = sleepBackoffs wk"
proof -
  obtain s where s: "sample rnd (sampler wk) = Some s" "sampler_inv s"
    using sample_inv [OF assms(2,3)] by blast
  let ?m = "ebind (script_Do R (redisLuaFetchJob R (poolID wk) (concat (map sample_keys (samples s))))) (conv (redis_Values R))"
  obtain r1 w1 where r1: "?m w = (r1, w1)" by (cases "?m w")
  have e: "\<not> is_panic r1"
    using r1 by (auto simp: ebind_def script_Do_def exec_go_def conv_def lift_err_def is_panic_def
        split: prod.splits sum.splits)
  have f: "\<not> is_panic (fst (fetched_job vals w1))" for vals
    by (simp add: fetched_job_def is_panic_def efail_def eret_def split: reply.split option.split)
  from assms(1) s(1) r1 have wk': "wk' = wk\<lparr>sampler := s\<rparr>" and
    r: "(case r1 of Inl err \<Rightarrow> if err = RedisErr ErrNil then eret None else efail err | Inr vals \<Rightarrow> fetched_job vals) w1 = (r, w')"
    by (auto simp: fetchJob_def on_world_def ebind_etry [where m = ?m and s = w, OF r1] split: prod.splits)
  have "\<not> is_panic r"
  proof (cases r1)
    case (Inl err)
    with r e show ?thesis by (auto simp: eret_def efail_def is_panic_def split: if_splits go_err.splits)
  next
    case (Inr vals)
    with r f [of vals] show ?thesis by simp
  qed
  with wk' s(2) show ?thesis by simp
qed

text \<open>A run of the loop: the events with the random and clock values of each round.\<close>

fun loop_run ::
    "'w redis \<Rightarrow> ((nat \<Rightarrow> nat \<Rightarrow> nat) \<times> (int \<times> int \<times> int \<times> int) \<times> loop_event) list \<Rightarrow>
     loop_state \<times> 'c worker \<times> observation list \<times> 'w \<Rightarrow>
     (loop_state \<times> 'c worker \<times> observation list \<times> 'w) option" where
  "loop_run R [] s = Some s"
| "loop_run R ((rnd, nums, ev) # evs) s = (case loop_step R rnd nums ev s of None \<Rightarrow> None | Some s' \<Rightarrow> loop_run R evs s')"

lemma loop_step_inv:
  assumes "loop_inv k wk l" and "int k < 2 ^ 63 - 1" and "\<forall>i n. 0 < n \<longrightarrow> rnd i n < n"
  shows "\<exists>l' wk' obs' w'. loop_step R rnd nums ev (l, wk, obs, w) = Some (l', wk', obs', w') \<and> loop_inv (Suc k) wk' l'"
proof (cases ev)
  case TimerFired
  obtain r wk1 w1 where f: "fetchJob R rnd (wk, w) = (r, (wk1, w1))" by (cases "fetchJob R rnd (wk, w)") auto
  have ok: "\<not> is_panic r" "sampler_inv (sampler wk1)" "sleepBackoffs wk1 = sleepBackoffs wk"
    using fetchJob_worker [OF f _ assms(3)] assms(1) by (auto simp: loop_inv_def)
  obtain l' where l': "after_fetch (sleepBackoffs wk) r l = Some l'" "0 \<le> consequtiveNoJobs l'" "consequtiveNoJobs l' \<le> int (Suc k)"
    using after_fetch_ok [of "sleepBackoffs wk" l k r] assms(1,2) by (auto simp: loop_inv_def)
  obtain a b c d where nums: "nums = (a, b, c, d)" by (cases nums)
  have "loop_inv (Suc k) wk1 l'" using ok l' assms(1) by (simp add: loop_inv_def)
  with TimerFired f ok l'(1) nums show ?thesis
    by (auto simp: loop_step_def split: sum.split option.split prod.split)
qed (use assms(1) in \<open>auto simp: loop_step_def loop_inv_def\<close>)

lemma loop_run_inv:
  assumes "loop_inv k wk l" and "int k + int (length evs) < 2 ^ 63"
    and "\<forall>(rnd, nums, ev)\<in>set evs. \<forall>i n. 0 < n \<longrightarrow> rnd i n < n"
  shows "\<exists>l' wk' obs' w'. loop_run R evs (l, wk, obs, w) = Some (l', wk', obs', w') \<and> loop_inv (k + length evs) wk' l'"
  using assms
proof (induction evs arbitrary: k l wk obs w)
  case (Cons e evs)
  obtain rnd nums ev where e: "e = (rnd, nums, ev)" by (cases e)
  obtain l1 wk1 obs1 w1 where s: "loop_step R rnd nums ev (l, wk, obs, w) = Some (l1, wk1, obs1, w1)" "loop_inv (Suc k) wk1 l1"
    using loop_step_inv [of k wk l rnd R nums ev obs w] Cons.prems e by auto
  from Cons.IH [OF s(2)] Cons.prems s(1) e show ?case by simp
qed simp

section \<open>What a worker does\<close>

lemma sample_of_fields [simp]:
  "redisJobs (sample_of ns p n k) = redisKeyJobs ns n" "redisJobsInProg (sample_of ns p n k) = redisKeyJobsInProgress ns p n"
  "redisJobsPaused (sample_of ns p n k) = redisKeyJobsPaused ns n" "redisJobsLock (sample_of ns p n k) = redisKeyJobsLock ns n"
  "redisJobsLockInfo (sample_of ns p n k) = redisKeyJobsLockInfo ns n"
  "redisJobsMaxConcurrency (sample_of ns p n k) = redisKeyJobsConcurrency ns n" "priority (sample_of ns p n k) = k"
  by (simp_all add: sample_of_def)

definition sample_type :: "unit jobType" where
  "sample_type = \<lparr>JTName = ''a'', JobOptions = \<lparr>Priority = 5, MaxFails = 4, SkipDead = False, MaxConcurrency = 1, Backoff = None\<rparr>,
     Handler = (\<lambda>s. (Returned None, s))\<rparr>"

definition sample_worker :: "unit worker" where
  "sample_worker = newWorker ''x'' ''w'' ''p'' () [] [(''a'', sample_type)] []"

lemma sample_worker_fields:
  "wNamespace sample_worker = ''w''" "poolID sample_worker = ''p''" "jobTypes sample_worker = [(''a'', sample_type)]"
  "wMiddleware sample_worker = []" "workerID sample_worker = ''x''"
  "sampler sample_worker = \<lparr>prioSum = 5, samples = [sample_of ''w'' ''p'' ''a'' 5]\<rparr>"
  "sleepBackoffs sample_worker = [0, 10, 100, 1000, 5000]"
  by (simp_all add: sample_worker_def newWorker_def updateMiddlewareAndJobTypes_def empty_sampler_def sampler_add_def
      jt_priority_def sample_type_def sample_of_def sleepBackoffsInMilliseconds_def)

lemma plain_names [simp]: "plain ''a''" "plain ''p''" "plain ''q''"
  by (simp_all add: plain_def)

text \<open>C6: on a connection that is up a fetch reorders the queues, takes the oldest job of the first one
  that has jobs, is not paused and is below its maximum concurrency, moves it to the pool's jobs in
  progress and acquires the lock; if there is no such queue nothing changes.\<close>

theorem fetch_takes_oldest:
  assumes "redis_link R db up" and "up w" and "sampler_inv (sampler wk)" and "\<forall>i n. 0 < n \<longrightarrow> rnd i n < n"
    and "\<forall>s\<in>set (samples (sampler wk)). fetch_typed (poolID wk) (db w) s"
  shows "\<exists>s w'. mset (samples s) = mset (samples (sampler wk)) \<and> up w' \<and>
    (case find (runnable (db w)) (samples s) of
       None \<Rightarrow> fetchJob R rnd (wk, w) = (Inr None, (wk\<lparr>sampler := s\<rparr>, w')) \<and> db w' = db w
     | Some x \<Rightarrow>
         fetchJob R rnd (wk, w) =
           (case newJob (last (lst (db w) (redisJobs x))) (redisJobs x) (redisJobsInProg x) of
              None \<Rightarrow> Inl UnmarshalErr
            | Some j \<Rightarrow> Inr (Some j), (wk\<lparr>sampler := s\<rparr>, w')) \<and>
         db w' = fetch_effect (poolID wk) x (db w))"
proof -
  obtain s w' where "mset (samples s) = mset (samples (sampler wk))" "up w'"
    "fetchJob R rnd (wk, w) = (fst (fetch_outcome (poolID wk) (samples s) (db w)), (wk\<lparr>sampler := s\<rparr>, w'))"
    "db w' = snd (fetch_outcome (poolID wk) (samples s) (db w))"
    using redis_link.fetchJob_up [OF assms] by blast
  then show ?thesis
    by (intro exI [of _ s] exI [of _ w']) (simp add: fetch_outcome_def fetch_result_def split: option.split)
qed

definition waiting_world :: mem_world where
  "waiting_world = \<lparr>mem_db = upd (redisKeyJobs ''w'' ''a'') (vlist [sample_raw]) empty_keyspace, mem_faults = []\<rparr>"

lemma waiting_world_simps:
  "mem_up waiting_world" "kv (mem_db waiting_world) k = (if k = redisKeyJobs ''w'' ''a'' then vlist [sample_raw] else None)"
  by (simp_all add: waiting_world_def mem_up_def obs_simps empty_keyspace_def)

lemma waiting_world_fetch:
  "fetch_typed ''p'' (mem_db waiting_world) (sample_of ''w'' ''p'' ''a'' 5)"
  "runnable (mem_db waiting_world) (sample_of ''w'' ''p'' ''a'' 5)"
  by (simp_all add: fetch_typed_def runnable_def under_cap_def str_num_def sample_of_def waiting_world_simps key_simps
      in_i64_def hnum_def hnum_ok_def)

lemma sample_worker_sampler: "sampler_inv (sampler sample_worker)"
  by (simp add: sampler_inv_def sample_worker_fields total_priority_def sample_of_def)

theorem fetch_takes_oldest_witness:
  "\<exists>wk' w'. fetchJob mem_redis (\<lambda>i n. 0) (sample_worker, waiting_world) =
     (Inr (Some (reread sample_raw (redisKeyJobs ''w'' ''a'') (redisKeyJobsInProgress ''w'' ''p'' ''a'') sample_job)), (wk', w')) \<and>
     lst (mem_db w') (redisKeyJobsInProgress ''w'' ''p'' ''a'') = [sample_raw]"
proof -
  let ?x = "sample_of ''w'' ''p'' ''a'' 5"
  have "\<forall>s\<in>set (samples (sampler sample_worker)). fetch_typed (poolID sample_worker) (mem_db waiting_world) s"
    using waiting_world_fetch(1) by (simp add: sample_worker_fields)
  from fetch_takes_oldest [OF mem_link.redis_link_axioms waiting_world_simps(1) sample_worker_sampler _ this, of "\<lambda>i n. 0"]
  obtain s w' where "samples s = [?x]" and f: "fetchJob mem_redis (\<lambda>i n. 0) (sample_worker, waiting_world) =
      (case newJob sample_raw (redisKeyJobs ''w'' ''a'') (redisKeyJobsInProgress ''w'' ''p'' ''a'') of
         None \<Rightarrow> Inl UnmarshalErr | Some j \<Rightarrow> Inr (Some j), (sample_worker\<lparr>sampler := s\<rparr>, w'))"
    "mem_db w' = fetch_effect ''p'' ?x (mem_db waiting_world)"
    by (auto simp: sample_worker_fields(2,6) waiting_world_fetch(2) waiting_world_simps)
  moreover have "lst (mem_db w') (redisKeyJobsInProgress ''w'' ''p'' ''a'') = [sample_raw]"
    unfolding f(2) by (simp add: fetch_effect_def Let_def sample_of_def obs_simps waiting_world_simps key_simps)
  ultimately show ?thesis using newJob_serialize [OF sample_job_wf serialize_sample] by simp
qed


definition running_job :: job where
  "running_job = reread sample_raw (redisKeyJobs ''w'' ''a'') (redisKeyJobsInProgress ''w'' ''p'' ''a'') sample_job"

definition running_world :: mem_world where
  "running_world = \<lparr>mem_db = upd (redisKeyJobsInProgress ''w'' ''p'' ''a'') (vlist [sample_raw])
     (upd (redisKeyJobsLock ''w'' ''a'') (vint 1) (upd (redisKeyJobsLockInfo ''w'' ''a'') (vhash [(''p'', ''1'')]) empty_keyspace)),
     mem_faults = []\<rparr>"

lemma running_job_fields [simp]:
  "Name running_job = ''a''" "\<not> Unique running_job" "rawJSON running_job = sample_raw" "Fails running_job = 2"
  "inProgQueue running_job = redisKeyJobsInProgress ''w'' ''p'' ''a''"
  by (simp_all add: running_job_def reread_def sample_job_def zero_job_def)

lemma string_1: "string_of_int 1 = ''1''"
  by (simp add: string_of_int_def string_of_nat.simps digit_char_def)

lemma int_of_1: "int_of_string ''1'' = Some 1"
  by (metis string_1 int_of_string_of_int)

lemma running_world_simps:
  "mem_up running_world"
  "kv (mem_db running_world) = (\<lambda>k. if k = redisKeyJobsInProgress ''w'' ''p'' ''a'' then vlist [sample_raw]
     else if k = redisKeyJobsLock ''w'' ''a'' then vint 1
     else if k = redisKeyJobsLockInfo ''w'' ''a'' then vhash [(''p'', ''1'')] else None)"
  by (auto simp: running_world_def mem_up_def obs_simps empty_keyspace_def fun_eq_iff)

lemma running_world_typed:
  "finish_typed ''p'' (redisKeyJobsInProgress ''w'' ''p'' ''a'') (redisKeyJobsLock ''w'' ''a'') (redisKeyJobsLockInfo ''w'' ''a'')
     (mem_db running_world)"
  by (simp add: finish_typed_def running_world_simps key_simps in_i64_def hnum_def hnum_ok_def int_of_1 int_text_def string_1)


text \<open>C7: a job that fails for the k-th time is retried while k is below the maximum of its type and is
  then sent to the dead jobs, or dropped if its type says so: it is attempted exactly that often.\<close>

theorem failing_job_fate:
  assumes "MaxFails (JobOptions t) < 2 ^ 63" and "0 \<le> Fails j" and "Fails j < 2 ^ 63 - 1"
    and "serialize (failed msg now j) = Some raw"
  shows "jobFate now' rnd ns (Some t) (failed msg now j) =
    (if Fails j + 1 < int (MaxFails (JobOptions t))
     then [ZADD (redisKeyRetry ns) (wrap_i64 (now' + calcBackoff rnd t (failed msg now j))) raw]
     else if SkipDead (JobOptions t) then [] else [ZADD (redisKeyDead ns) now' raw])"
proof -
  have f: "Fails (failed msg now j) = Fails j + 1"
    unfolding failed_def using assms(2,3) by (simp add: wrap_i64_id in_i64_def)
  show ?thesis
  proof (cases "Fails j + 1 < int (MaxFails (JobOptions t))")
    case True
    with jobFate_retry [OF refl assms(1) _ _ assms(4)] f assms(2) show ?thesis by simp
  next
    case False
    with jobFate_exhausted [OF refl assms(1) _ _ assms(4)] f assms(2,3) show ?thesis by (simp add: in_i64_def)
  qed
qed

theorem failing_job_fate_witness:
  "\<exists>raw. jobFate 52 7 ''w'' (Some sample_type) (failed ''oops'' 51 running_job) =
     [ZADD (redisKeyRetry ''w'') (wrap_i64 (52 + calcBackoff 7 sample_type (failed ''oops'' 51 running_job))) raw]"
proof -
  have "job_wf (failed ''oops'' 51 running_job)"
    by (simp add: failed_def running_job_def reread_def sample_job_def zero_job_def job_wf_def go_map_wf_def in_i64_def wrap_i64_id)
  then obtain raw where "serialize (failed ''oops'' 51 running_job) = Some raw" using serialize_Some by blast
  from failing_job_fate [OF _ _ _ this, of sample_type] show ?thesis by (simp add: sample_type_def)
qed

text \<open>C19: up to 55108 failures the default backoff does not overflow: it is the fourth power of the
  number of failures plus 15 seconds and at most 29 seconds more per attempt.\<close>

theorem default_backoff_bounds:
  assumes "0 \<le> Fails j" and "Fails j \<le> 55108" and "0 \<le> rnd" and "rnd < 30"
  shows "Fails j ^ 4 + 15 \<le> defaultBackoffCalculator rnd j \<and>
    defaultBackoffCalculator rnd j \<le> Fails j ^ 4 + 15 + 29 * (Fails j + 1)"
  using assms by (rule backoff_bounds)

theorem default_backoff_bounds_witness: "31 \<le> defaultBackoffCalculator 7 running_job \<and> defaultBackoffCalculator 7 running_job \<le> 118"
  using default_backoff_bounds [of running_job 7] by simp

text \<open>The loop of a worker never panics, whatever the server answers: the sampler always finds a
  queue, and the index into the backoffs stays in range.\<close>

theorem worker_loop_never_panics:
  assumes "sampler_inv (sampler wk)" and "sleepBackoffs wk \<noteq> []" and "length evs < 2 ^ 63"
    and "\<forall>(rnd, nums, ev)\<in>set evs. \<forall>i n. 0 < n \<longrightarrow> rnd i n < n"
  shows "loop_run R evs (loop_init, wk, obs, w) \<noteq> None"
proof -
  have "loop_inv 0 wk loop_init" using assms(1,2) by (simp add: loop_inv_def loop_init_def)
  moreover have "int 0 + int (length evs) < 2 ^ 63" using assms(3) by simp
  ultimately show ?thesis using loop_run_inv [OF _ _ assms(4), of 0 wk loop_init R obs w] by auto
qed

theorem worker_loop_never_panics_witness:
  "loop_run mem_redis [(\<lambda>i n. 0, (50, 51, 52, 7), TimerFired), (\<lambda>i n. 0, (53, 54, 55, 8), TimerFired)]
     (loop_init, sample_worker, [], waiting_world\<lparr>mem_faults := [LostRequest]\<rparr>) \<noteq> None"
  by (rule worker_loop_never_panics) (rule sample_worker_sampler, simp_all add: sample_worker_fields)

text \<open>When a fetch finds nothing, the worker sleeps for the next of its backoffs and then for the
  last one, and a pending drain is acknowledged, once.\<close>

theorem idle_worker_backs_off:
  assumes "backoffs \<noteq> []" and "0 \<le> consequtiveNoJobs l" and "consequtiveNoJobs l < 2 ^ 63 - 1"
  shows "\<exists>l'. after_fetch backoffs (Inr None) l = Some l' \<and> consequtiveNoJobs l' = consequtiveNoJobs l + 1 \<and>
    timer l' = backoffs ! min (nat (consequtiveNoJobs l) + 1) (length backoffs - 1) \<and>
    \<not> drained l' \<and> drainAcks l' = drainAcks l + (if drained l then 1 else 0)"
  using assms by (rule after_fetch_idle)

theorem idle_worker_backs_off_witness:
  "\<exists>l'. after_fetch sleepBackoffsInMilliseconds (Inr None) (loop_init\<lparr>drained := True, consequtiveNoJobs := 9\<rparr>) = Some l' \<and>
     timer l' = 5000 \<and> drainAcks l' = 1"
  using idle_worker_backs_off [of sleepBackoffsInMilliseconds "loop_init\<lparr>drained := True, consequtiveNoJobs := 9\<rparr>"]
  by (auto simp: sleepBackoffsInMilliseconds_def loop_init_def)

end
