(* ===== verification/Queue_Model.thy ===== *)
theory Queue_Model
  imports Worker_Facts
begin

text \<open>
  What a cluster of worker pools promises about its queues, stated without Redis: jobs wait, a pool
  takes the oldest one if the queue allows it, and gives it up when it is done or when it dies. The
  scripts refine the operations of this machine, and every interleaving of them keeps the locks
  equal to the number of jobs in progress, so that no queue exceeds its maximum concurrency.
\<close>

section \<open>The abstract machine\<close>

record qstate =
  waiting :: "string \<Rightarrow> string list"
  running :: "string \<Rightarrow> string \<Rightarrow> string list"
  locks :: "string \<Rightarrow> int"
  held :: "string \<Rightarrow> string \<Rightarrow> int"
  closed :: "string \<Rightarrow> bool"
  cap :: "string \<Rightarrow> int"

text \<open>A queue is named by a job, a worker pool by its identifier; the head of a list is its newest job.\<close>

definition upd2 :: "('a \<Rightarrow> 'b \<Rightarrow> 'c) \<Rightarrow> 'a \<Rightarrow> 'b \<Rightarrow> 'c \<Rightarrow> 'a \<Rightarrow> 'b \<Rightarrow> 'c" where
  "upd2 f a b c = f(a := (f a)(b := c))"

definition q_can_take :: "qstate \<Rightarrow> string \<Rightarrow> bool" where
  "q_can_take q n \<longleftrightarrow> waiting q n \<noteq> [] \<and> \<not> closed q n \<and> (cap q n = 0 \<or> locks q n < cap q n)"

definition q_push :: "string \<Rightarrow> string \<Rightarrow> qstate \<Rightarrow> qstate" where
  "q_push n job q = q\<lparr>waiting := (waiting q)(n := job # waiting q n)\<rparr>"

definition q_take :: "string \<Rightarrow> string \<Rightarrow> qstate \<Rightarrow> qstate" where
  "q_take p n q =
     q\<lparr>waiting := (waiting q)(n := butlast (waiting q n)),
       running := upd2 (running q) p n (last (waiting q n) # running q p n),
       locks := (locks q)(n := locks q n + 1),
       held := upd2 (held q) n p (held q n p + 1)\<rparr>"

definition q_finish :: "string \<Rightarrow> string \<Rightarrow> string \<Rightarrow> qstate \<Rightarrow> qstate" where
  "q_finish p n job q =
     q\<lparr>running := upd2 (running q) p n (remove1 job (running q p n)),
       locks := (locks q)(n := locks q n - 1),
       held := upd2 (held q) n p (held q n p - 1)\<rparr>"

definition q_giveback :: "string \<Rightarrow> string \<Rightarrow> qstate \<Rightarrow> qstate" where
  "q_giveback p n q =
     q\<lparr>waiting := (waiting q)(n := last (running q p n) # waiting q n),
       running := upd2 (running q) p n (butlast (running q p n)),
       locks := (locks q)(n := locks q n - 1),
       held := upd2 (held q) n p (held q n p - 1)\<rparr>"

inductive q_step :: "string set \<Rightarrow> qstate \<Rightarrow> qstate \<Rightarrow> bool" for P where
  q_step_push: "q_step P q (q_push n job q)"
| q_step_take: "p \<in> P \<Longrightarrow> q_can_take q n \<Longrightarrow> q_step P q (q_take p n q)"
| q_step_finish: "p \<in> P \<Longrightarrow> job \<in> set (running q p n) \<Longrightarrow> q_step P q (q_finish p n job q)"
| q_step_giveback: "p \<in> P \<Longrightarrow> running q p n \<noteq> [] \<Longrightarrow> q_step P q (q_giveback p n q)"
| q_step_idle: "q_step P q q"

section \<open>Its invariant\<close>

definition in_progress :: "string set \<Rightarrow> qstate \<Rightarrow> string \<Rightarrow> nat" where
  "in_progress P q n = (\<Sum>p\<in>P. length (running q p n))"

definition q_inv :: "string set \<Rightarrow> qstate \<Rightarrow> bool" where
  "q_inv P q \<longleftrightarrow>
     (\<forall>n. \<forall>p\<in>P. held q n p = int (length (running q p n))) \<and>
     (\<forall>n. locks q n = int (in_progress P q n)) \<and>
     (\<forall>n. cap q n \<noteq> 0 \<longrightarrow> locks q n \<le> cap q n)"

lemma upd2_apply: "upd2 f a b c x y = (if x = a \<and> y = b then c else f x y)"
  by (simp add: upd2_def)

lemma in_progress_upd:
  assumes "finite P" and "p \<in> P" and "running q' = upd2 (running q) p n xs"
  shows "int (in_progress P q' m) = int (in_progress P q m) +
    (if m = n then int (length xs) - int (length (running q p n)) else 0)"
proof (cases "m = n")
  case True
  have "in_progress P q' n + length (running q p n) = in_progress P q n + length xs"
    using assms by (simp add: in_progress_def sum.remove [OF assms(1,2)] upd2_apply)
  with True show ?thesis by simp
next
  case False
  with assms(3) show ?thesis by (simp add: in_progress_def upd2_apply)
qed

lemma length_butlast_int: "xs \<noteq> [] \<Longrightarrow> int (length (butlast xs)) = int (length xs) - 1"
  by (cases xs) simp_all

lemma length_remove1_int: "x \<in> set xs \<Longrightarrow> int (length (remove1 x xs)) = int (length xs) - 1"
  using length_remove1_Suc [of x xs] by simp

lemma q_inv_change:
  assumes "finite P" and "p \<in> P" and "q_inv P q" and run: "running q' = upd2 (running q) p n xs"
    and len: "int (length xs) = int (length (running q p n)) + d"
    and lock: "locks q' = (locks q)(n := locks q n + d)" and held: "held q' = upd2 (held q) n p (held q n p + d)"
    and cap: "cap q' = cap q" and le: "d \<le> 0 \<or> cap q n = 0 \<or> locks q n + d \<le> cap q n"
  shows "q_inv P q'"
proof -
  have inv: "\<And>n p. p \<in> P \<Longrightarrow> held q n p = int (length (running q p n))" "\<And>n. locks q n = int (in_progress P q n)"
    "\<And>n. cap q n \<noteq> 0 \<Longrightarrow> locks q n \<le> cap q n"
    using assms(3) by (auto simp: q_inv_def)
  have "held q' m p' = int (length (running q' p' m))" if "p' \<in> P" for m p'
    using inv(1) [OF that, of m] inv(1) [OF assms(2), of n] len by (simp add: run held upd2_apply)
  moreover have "locks q' m = int (in_progress P q' m)" for m
    using inv(2) [of m] len in_progress_upd [OF assms(1,2) run, of m] by (auto simp: lock)
  moreover have "locks q' m \<le> cap q' m" if "cap q' m \<noteq> 0" for m
    using inv(3) [of m] that le by (auto simp: lock cap)
  ultimately show ?thesis by (simp add: q_inv_def)
qed

lemma q_inv_step:
  assumes "finite P" and "q_step P q q'" and "q_inv P q"
  shows "q_inv P q'"
  using assms(2)
proof (cases rule: q_step.cases)
  case (q_step_push n job)
  then have "running q' = running q" "locks q' = locks q" "held q' = held q" "cap q' = cap q"
    by (simp_all add: q_push_def)
  with assms(3) show ?thesis unfolding q_inv_def in_progress_def by metis
next
  case (q_step_take p n)
  show ?thesis
    using q_step_take(3) unfolding q_step_take(1)
    by (intro q_inv_change [OF assms(1) q_step_take(2) assms(3), where d = 1])
      (auto simp: q_take_def q_can_take_def)
next
  case (q_step_finish p job n)
  show ?thesis
    unfolding q_step_finish(1) using length_remove1_int [OF q_step_finish(3)]
    by (intro q_inv_change [OF assms(1) q_step_finish(2) assms(3), where d = "- 1"])
      (simp_all add: q_finish_def)
next
  case (q_step_giveback p n)
  show ?thesis
    unfolding q_step_giveback(1) using length_butlast_int [OF q_step_giveback(3)]
    by (intro q_inv_change [OF assms(1) q_step_giveback(2) assms(3), where d = "- 1"])
      (simp_all add: q_giveback_def del: length_butlast)
next
  case q_step_idle
  with assms(3) show ?thesis by simp
qed

text \<open>Jobs of one name, waiting or in progress anywhere: taking and giving back move them, nothing else.\<close>

definition running_jobs :: "string set \<Rightarrow> qstate \<Rightarrow> string \<Rightarrow> string multiset" where
  "running_jobs P q n = (\<Sum>p\<in>P. mset (running q p n))"

definition all_jobs :: "string set \<Rightarrow> qstate \<Rightarrow> string \<Rightarrow> string multiset" where
  "all_jobs P q n = mset (waiting q n) + running_jobs P q n"

lemma running_jobs_upd:
  assumes "finite P" and "p \<in> P" and "running q' = upd2 (running q) p n xs"
  shows "running_jobs P q' m + (if m = n then mset (running q p n) else {#}) =
    running_jobs P q m + (if m = n then mset xs else {#})"
proof (cases "m = n")
  case True
  with assms show ?thesis by (simp add: running_jobs_def sum.remove [OF assms(1,2)] upd2_apply ac_simps)
next
  case False
  with assms(3) show ?thesis by (simp add: running_jobs_def upd2_apply)
qed

text \<open>Adding to and removing from multisets of which one part is known.\<close>

lemma mset_exchange: "A + X = B + Y \<Longrightarrow> X = add_mset x Y \<Longrightarrow> add_mset x A = B"
  for A B X Y :: "'a multiset"
  by simp

lemma all_jobs_take:
  assumes "finite P" and "p \<in> P" and "waiting q n \<noteq> []"
  shows "all_jobs P (q_take p n q) m = all_jobs P q m"
proof -
  let ?x = "last (waiting q n)"
  have run: "running (q_take p n q) = upd2 (running q) p n (?x # running q p n)" by (simp add: q_take_def)
  have wait: "waiting (q_take p n q) = (waiting q)(n := butlast (waiting q n))" by (simp add: q_take_def)
  show ?thesis
  proof (cases "m = n")
    case True
    have "running_jobs P (q_take p n q) n = add_mset ?x (running_jobs P q n)"
      using running_jobs_upd [OF assms(1,2) run, of n] by simp
    moreover have "mset (waiting q n) = add_mset ?x (mset (butlast (waiting q n)))"
      using mset_butlast_last [OF assms(3)] by simp
    ultimately show ?thesis by (simp add: True all_jobs_def wait)
  next
    case False
    then show ?thesis using running_jobs_upd [OF assms(1,2) run, of m] by (simp add: all_jobs_def wait)
  qed
qed

lemma all_jobs_giveback:
  assumes "finite P" and "p \<in> P" and "running q p n \<noteq> []"
  shows "all_jobs P (q_giveback p n q) m = all_jobs P q m"
proof -
  let ?x = "last (running q p n)"
  have run: "running (q_giveback p n q) = upd2 (running q) p n (butlast (running q p n))" by (simp add: q_giveback_def)
  have wait: "waiting (q_giveback p n q) = (waiting q)(n := ?x # waiting q n)" by (simp add: q_giveback_def)
  show ?thesis
  proof (cases "m = n")
    case True
    have "running_jobs P (q_giveback p n q) n + mset (running q p n) = running_jobs P q n + mset (butlast (running q p n))"
      using running_jobs_upd [OF assms(1,2) run, of n] by simp
    from mset_exchange [OF this, of ?x] have "add_mset ?x (running_jobs P (q_giveback p n q) n) = running_jobs P q n"
      using mset_butlast_last [OF assms(3)] by simp
    then show ?thesis by (simp add: True all_jobs_def wait)
  next
    case False
    then show ?thesis using running_jobs_upd [OF assms(1,2) run, of m] by (simp add: all_jobs_def wait)
  qed
qed

lemma all_jobs_finish:
  assumes "finite P" and "p \<in> P" and "job \<in> set (running q p n)"
  shows "all_jobs P q m = all_jobs P (q_finish p n job q) m + (if m = n then {#job#} else {#})"
proof -
  have run: "running (q_finish p n job q) = upd2 (running q) p n (remove1 job (running q p n))" by (simp add: q_finish_def)
  have wait: "waiting (q_finish p n job q) = waiting q" by (simp add: q_finish_def)
  show ?thesis
  proof (cases "m = n")
    case True
    have "running_jobs P (q_finish p n job q) n + mset (running q p n) =
        running_jobs P q n + mset (remove1 job (running q p n))"
      using running_jobs_upd [OF assms(1,2) run, of n] by simp
    from mset_exchange [OF this, of job] have "add_mset job (running_jobs P (q_finish p n job q) n) = running_jobs P q n"
      using assms(3) by simp
    then show ?thesis by (simp add: True all_jobs_def wait)
  next
    case False
    then show ?thesis using running_jobs_upd [OF assms(1,2) run, of m] by (simp add: all_jobs_def wait)
  qed
qed

lemma all_jobs_push: "all_jobs P (q_push n job q) m = all_jobs P q m + (if m = n then {#job#} else {#})"
  by (simp add: all_jobs_def running_jobs_def q_push_def)

section \<open>Redis as a queue machine\<close>

text \<open>Only names and identifiers without a colon have keys of their own.\<close>

definition abs_q :: "string \<Rightarrow> keyspace \<Rightarrow> qstate" where
  "abs_q ns db =
     \<lparr>waiting = (\<lambda>n. if plain n then lst db (redisKeyJobs ns n) else []),
       running = (\<lambda>p n. if plain n \<and> plain p then lst db (redisKeyJobsInProgress ns p n) else []),
       locks = (\<lambda>n. if plain n then num db (redisKeyJobsLock ns n) else 0),
       held = (\<lambda>n p. if plain n then hnum (hsh db (redisKeyJobsLockInfo ns n)) p else 0),
       closed = (\<lambda>n. plain n \<and> str db (redisKeyJobsPaused ns n) \<noteq> None),
       cap = (\<lambda>n. if plain n then num db (redisKeyJobsConcurrency ns n) else 0)\<rparr>"

text \<open>What an update of one key does to the abstract state.\<close>

lemma abs_q_upd:
  assumes "plain n"
  shows "abs_q ns (upd (redisKeyJobs ns n) v db) = (abs_q ns db)\<lparr>waiting := (waiting (abs_q ns db))(n := list_of v)\<rparr>"
    and "plain p \<Longrightarrow> abs_q ns (upd (redisKeyJobsInProgress ns p n) v db) =
      (abs_q ns db)\<lparr>running := upd2 (running (abs_q ns db)) p n (list_of v)\<rparr>"
    and "abs_q ns (upd (redisKeyJobsLock ns n) v db) = (abs_q ns db)\<lparr>locks := (locks (abs_q ns db))(n := num_of v)\<rparr>"
    and "abs_q ns (upd (redisKeyJobsLockInfo ns n) v db) =
      (abs_q ns db)\<lparr>held := (held (abs_q ns db))(n := hnum (hash_of v))\<rparr>"
  using assms by (auto simp: abs_q_def obs_simps key_simps fun_eq_iff upd2_apply)

lemma abs_q_other:
  assumes "\<And>k. plain_key k \<Longrightarrow> job_suffix k \<noteq> None \<Longrightarrow> kv db' (render ns k) = kv db (render ns k)"
  shows "abs_q ns db' = abs_q ns db"
  using assms [of "KJobs _"] assms [of "KInProgress _ _"] assms [of "KLock _"] assms [of "KLockInfo _"]
    assms [of "KPaused _"] assms [of "KConcurrency _"]
  by (simp add: abs_q_def render.simps fun_eq_iff cong: conj_cong)

lemma abs_q_fields:
  assumes "plain n"
  shows "waiting (abs_q ns db) n = lst db (redisKeyJobs ns n)"
    and "plain p \<Longrightarrow> running (abs_q ns db) p n = lst db (redisKeyJobsInProgress ns p n)"
    and "locks (abs_q ns db) n = num db (redisKeyJobsLock ns n)"
    and "held (abs_q ns db) n p = hnum (hsh db (redisKeyJobsLockInfo ns n)) p"
    and "cap (abs_q ns db) n = num db (redisKeyJobsConcurrency ns n)"
    and "closed (abs_q ns db) n \<longleftrightarrow> str db (redisKeyJobsPaused ns n) \<noteq> None"
  using assms by (simp_all add: abs_q_def)

text \<open>The keys of a queue hold values of the types the program gives them.\<close>

definition q_typed :: "string \<Rightarrow> keyspace \<Rightarrow> bool" where
  "q_typed ns db \<longleftrightarrow>
     (\<forall>n. plain n \<longrightarrow>
        list_type (kv db (redisKeyJobs ns n)) \<and> (\<forall>p. plain p \<longrightarrow> list_type (kv db (redisKeyJobsInProgress ns p n))) \<and>
        str_type (kv db (redisKeyJobsPaused ns n)) \<and>
        num_type (kv db (redisKeyJobsConcurrency ns n)) \<and> 0 \<le> num db (redisKeyJobsConcurrency ns n) \<and>
        num_type (kv db (redisKeyJobsLock ns n)) \<and> hash_type (kv db (redisKeyJobsLockInfo ns n)) \<and>
        (\<forall>p. hnum_ok (hsh db (redisKeyJobsLockInfo ns n)) p))"

text \<open>Room for one more and one less in every counter.\<close>

definition q_room :: "string \<Rightarrow> keyspace \<Rightarrow> bool" where
  "q_room ns db \<longleftrightarrow>
     (\<forall>n. plain n \<longrightarrow>
        in_i64 (num db (redisKeyJobsLock ns n) + 1) \<and> in_i64 (num db (redisKeyJobsLock ns n) - 1) \<and>
        (\<forall>p. in_i64 (hnum (hsh db (redisKeyJobsLockInfo ns n)) p + 1) \<and>
             in_i64 (hnum (hsh db (redisKeyJobsLockInfo ns n)) p - 1)))"

lemma q_typed_fetch:
  "q_typed ns db \<Longrightarrow> q_room ns db \<Longrightarrow> plain n \<Longrightarrow> plain p \<Longrightarrow> fetch_typed p db (sample_of ns p n k)"
  by (simp add: q_typed_def q_room_def fetch_typed_def key_simps)

lemma q_typed_requeue:
  "q_typed ns db \<Longrightarrow> q_room ns db \<Longrightarrow> plain n \<Longrightarrow> plain p \<Longrightarrow> requeue_typed p db (sample_of ns p n k)"
  by (simp add: q_typed_def q_room_def requeue_typed_def key_simps)

lemma str_num_num: "num_type (kv db k) \<Longrightarrow> str_num db k = (if str db k = None then None else Some (num db k))"
  by (auto simp: str_num_def num_type_def num_of_def str_of_def int_text_def split: option.splits rval.splits)

lemma num_missing: "str db k = None \<Longrightarrow> num db k = 0"
  by (simp add: num_of_def)

text \<open>The condition of the fetch script is the abstract one.\<close>

lemma runnable_iff:
  assumes "q_typed ns db" and "plain n"
  shows "runnable db (sample_of ns p n k) \<longleftrightarrow> q_can_take (abs_q ns db) n"
proof -
  have "num_type (kv db (redisKeyJobsConcurrency ns n))" "0 \<le> num db (redisKeyJobsConcurrency ns n)"
    "num_type (kv db (redisKeyJobsLock ns n))"
    using assms by (auto simp: q_typed_def)
  then show ?thesis
    using num_missing [of db "redisKeyJobsConcurrency ns n"] num_missing [of db "redisKeyJobsLock ns n"] assms(2)
    by (auto simp: runnable_def under_cap_def q_can_take_def abs_q_fields str_num_num)
qed

text \<open>Refinement: each script does to Redis what its operation does to the machine.\<close>

lemma abs_q_take:
  assumes "plain n" and "plain p"
  shows "abs_q ns (fetch_effect p (sample_of ns p n k) db) = q_take p n (abs_q ns db)"
  using assms
  by (simp add: fetch_effect_def Let_def abs_q_upd abs_q_fields q_take_def upd2_def fun_eq_iff)

lemma abs_q_giveback:
  assumes "plain n" and "plain p"
  shows "abs_q ns (requeue_effect p (sample_of ns p n k) db) = q_giveback p n (abs_q ns db)"
  using assms
  by (simp add: requeue_effect_def Let_def abs_q_upd abs_q_fields q_giveback_def upd2_def fun_eq_iff)

lemma abs_q_push:
  assumes "plain n"
  shows "abs_q ns (lpush_key (redisKeyJobs ns n) job db) = q_push n job (abs_q ns db)"
  using assms by (simp add: abs_q_upd abs_q_fields q_push_def)

lemma abs_q_finish:
  assumes "plain n" and "plain p"
  shows "abs_q ns (finish_effect p (redisKeyJobsInProgress ns p n) (redisKeyJobsLock ns n) (redisKeyJobsLockInfo ns n) job db) =
    q_finish p n job (abs_q ns db)"
  using assms
  by (simp add: finish_effect_def Let_def abs_q_upd abs_q_fields q_finish_def upd2_def fun_eq_iff)

section \<open>Types are kept\<close>

lemma q_typed_upd:
  assumes "q_typed ns db" and "plain n"
  shows "q_typed ns (upd (redisKeyJobs ns n) (vlist xs) db)"
    and "plain p \<Longrightarrow> q_typed ns (upd (redisKeyJobsInProgress ns p n) (vlist xs) db)"
    and "in_i64 i \<Longrightarrow> q_typed ns (upd (redisKeyJobsLock ns n) (vint i) db)"
    and "\<forall>p. hnum_ok h p \<Longrightarrow> q_typed ns (upd (redisKeyJobsLockInfo ns n) (vhash h) db)"
  using assms by (auto simp: q_typed_def obs_simps key_simps)

lemma q_typed_other:
  assumes "\<And>k. plain_key k \<Longrightarrow> job_suffix k \<noteq> None \<Longrightarrow> kv db' (render ns k) = kv db (render ns k)" and "q_typed ns db"
  shows "q_typed ns db'"
  using assms(2) assms(1) [of "KJobs _"] assms(1) [of "KInProgress _ _"] assms(1) [of "KLock _"] assms(1) [of "KLockInfo _"]
    assms(1) [of "KPaused _"] assms(1) [of "KConcurrency _"]
  by (simp add: q_typed_def render.simps)

lemma q_typed_take:
  assumes "q_typed ns db" and "q_room ns db" and "plain n" and "plain p"
  shows "q_typed ns (fetch_effect p (sample_of ns p n k) db)"
  using assms unfolding fetch_effect_def Let_def sample_of_fields
  by (intro q_typed_upd) (auto simp: q_room_def q_typed_def)

lemma q_typed_giveback:
  assumes "q_typed ns db" and "q_room ns db" and "plain n" and "plain p"
  shows "q_typed ns (requeue_effect p (sample_of ns p n k) db)"
  using assms unfolding requeue_effect_def Let_def sample_of_fields
  by (intro q_typed_upd) (auto simp: q_room_def q_typed_def)

lemma q_typed_finish:
  assumes "q_typed ns db" and "q_room ns db" and "plain n" and "plain p"
  shows "q_typed ns (finish_effect p (redisKeyJobsInProgress ns p n) (redisKeyJobsLock ns n) (redisKeyJobsLockInfo ns n) job db)"
  using assms unfolding finish_effect_def Let_def
  by (intro q_typed_upd) (auto simp: q_room_def q_typed_def)

end
