(* ===== verification/Cluster.thy ===== *)
theory Cluster
  imports Queue_Model Dead_Pool_Reaper
begin

text \<open>
  Any number of worker pools that share a namespace. Their requests are atomic, so a history of the
  cluster is a sequence of requests; each of them is a step of the abstract queue machine, and the
  machine's invariant bounds what is in progress. The worker's operations are such requests, also on
  a connection that fails.
\<close>

section \<open>A cluster\<close>

text \<open>
  The requests that the clients of one namespace send, each of them atomic. Any number of workers of
  the pools \<open>P\<close> fetch jobs, finish them and send them to one of the sorted sets, pools are reaped,
  and jobs are pushed; other requests leave the keys of the queues alone.
\<close>

definition pool_items :: "string \<Rightarrow> string \<Rightarrow> (string \<times> nat) list \<Rightarrow> sampleItem list" where
  "pool_items ns p xs = map (\<lambda>(n, k). sample_of ns p n k) xs"

definition names_plain :: "(string \<times> nat) list \<Rightarrow> bool" where
  "names_plain xs \<longleftrightarrow> (\<forall>(n, k)\<in>set xs. plain n)"

definition queue_keys_kept :: "string \<Rightarrow> keyspace \<Rightarrow> keyspace \<Rightarrow> bool" where
  "queue_keys_kept ns db db' \<longleftrightarrow> (\<forall>k. plain_key k \<longrightarrow> job_suffix k \<noteq> None \<longrightarrow> kv db' (render ns k) = kv db (render ns k))"

inductive cluster_step :: "'w redis \<Rightarrow> string \<Rightarrow> string set \<Rightarrow> keyspace \<Rightarrow> keyspace \<Rightarrow> bool" for R ns P where
  step_push: "plain n \<Longrightarrow> call R (LPUSH (redisKeyJobs ns n) job) db = (r, db') \<Longrightarrow> cluster_step R ns P db db'"
| step_fetch: "q_room ns db \<Longrightarrow> p \<in> P \<Longrightarrow> names_plain xs \<Longrightarrow>
    redisLuaFetchJob R p (concat (map sample_keys (pool_items ns p xs))) db = (r, db') \<Longrightarrow> cluster_step R ns P db db'"
| step_finish: "q_room ns db \<Longrightarrow> p \<in> P \<Longrightarrow> plain n \<Longrightarrow> job \<in> set (lst db (redisKeyJobsInProgress ns p n)) \<Longrightarrow>
    fate = [] \<or> fate = [ZADD z s m] \<and> z \<in> {redisKeyRetry ns, redisKeyDead ns} \<and> zset_type (kv db z) \<and> score_ok s \<Longrightarrow>
    run_multi R ([LREM (redisKeyJobsInProgress ns p n) job, DECR (redisKeyJobsLock ns n),
      HINCRBY (redisKeyJobsLockInfo ns n) p (- 1)] @ fate) db = (rs, db') \<Longrightarrow> cluster_step R ns P db db'"
| step_reenqueue: "q_room ns db \<Longrightarrow> p \<in> P \<Longrightarrow> names_plain xs \<Longrightarrow>
    redisLuaReenqueueJob R p (concat (map requeue_keys (pool_items ns p xs))) db = (r, db') \<Longrightarrow> cluster_step R ns P db db'"
| step_other: "queue_keys_kept ns db db' \<Longrightarrow> cluster_step R ns P db db'"

definition cluster_ok :: "string \<Rightarrow> string set \<Rightarrow> keyspace \<Rightarrow> bool" where
  "cluster_ok ns P db \<longleftrightarrow> finite P \<and> (\<forall>p\<in>P. plain p) \<and> q_typed ns db \<and> q_inv P (abs_q ns db)"

lemma pool_item_find:
  assumes "find Q (pool_items ns p xs) = Some s" and "names_plain xs"
  obtains n k where "s = sample_of ns p n k" and "plain n" and "Q s"
proof -
  have "s \<in> set (pool_items ns p xs)" "Q s" using assms(1) by (auto simp: find_Some_iff)
  with assms(2) that show ?thesis by (auto simp: pool_items_def names_plain_def)
qed

lemma inprogress_keys_items: "inprogress_keys ns p (map fst xs) = concat (map requeue_keys (pool_items ns p xs))"
  by (simp add: inprogress_keys_def pool_items_def requeue_keys_def o_def case_prod_unfold)

lemma fate_kept:
  assumes "fate = [] \<or> fate = [ZADD z s m] \<and> z \<in> {redisKeyRetry ns, redisKeyDead ns}"
  shows "queue_keys_kept ns db (fate_effect fate db)"
proof -
  have "render ns k \<noteq> redisKeyRetry ns" "render ns k \<noteq> redisKeyDead ns" if "job_suffix k \<noteq> None" for k
    using that render_job_other [of k _ KRetry ns] render_job_other [of k _ KDead ns] by (auto simp: render.simps)
  with assms show ?thesis by (auto simp: queue_keys_kept_def obs_simps)
qed

lemma kept_abs: "queue_keys_kept ns db db' \<Longrightarrow> abs_q ns db' = abs_q ns db \<and> (q_typed ns db \<longrightarrow> q_typed ns db')"
  using abs_q_other [of db' ns db] q_typed_other [of db' ns db] unfolding queue_keys_kept_def by blast

context redis_server
begin

text \<open>The simulation: every request is a step of the abstract machine and keeps the types.\<close>

lemma push_refines:
  assumes "cluster_ok ns P db" and "plain n" and "call R (LPUSH (redisKeyJobs ns n) job) db = (r, db')"
  shows "q_step P (abs_q ns db) (abs_q ns db') \<and> q_typed ns db'"
proof -
  have "list_type (kv db (redisKeyJobs ns n))" using assms(1,2) by (simp add: cluster_ok_def q_typed_def)
  then have "db' = lpush_key (redisKeyJobs ns n) job db" using lpush assms(3) by simp
  with assms(1,2) show ?thesis by (simp add: abs_q_push q_step_push q_typed_upd cluster_ok_def)
qed

lemma fetch_refines:
  assumes "cluster_ok ns P db" and "q_room ns db" and "p \<in> P" and "names_plain xs"
    and "redisLuaFetchJob R p (concat (map sample_keys (pool_items ns p xs))) db = (r, db')"
  shows "q_step P (abs_q ns db) (abs_q ns db') \<and> q_typed ns db'"
proof -
  have typed: "q_typed ns db" and p: "plain p" using assms(1,3) by (auto simp: cluster_ok_def)
  then have "\<forall>s\<in>set (pool_items ns p xs). fetch_typed p db s"
    using assms(2,4) by (auto simp: pool_items_def names_plain_def q_typed_fetch)
  note script = fetch_script [OF this]
  show ?thesis
  proof (cases "find (runnable db) (pool_items ns p xs)")
    case None
    with script assms(5) typed show ?thesis by (simp add: q_step_idle)
  next
    case (Some s)
    then obtain n k where s: "s = sample_of ns p n k" "plain n" "runnable db s"
      using pool_item_find [OF Some assms(4)] by blast
    with Some script assms(5) have "db' = fetch_effect p (sample_of ns p n k) db" by simp
    moreover have "q_can_take (abs_q ns db) n" using s runnable_iff [OF typed s(2)] by simp
    ultimately show ?thesis
      using assms(2,3) typed p s(2) by (simp add: abs_q_take q_step_take q_typed_take)
  qed
qed

lemma finish_refines:
  assumes "cluster_ok ns P db" and "q_room ns db" and "p \<in> P" and "plain n" and "job \<in> set (lst db (redisKeyJobsInProgress ns p n))"
    and "fate = [] \<or> fate = [ZADD z s m] \<and> z \<in> {redisKeyRetry ns, redisKeyDead ns} \<and> zset_type (kv db z) \<and> score_ok s"
    and "run_multi R ([LREM (redisKeyJobsInProgress ns p n) job, DECR (redisKeyJobsLock ns n),
      HINCRBY (redisKeyJobsLockInfo ns n) p (- 1)] @ fate) db = (rs, db')"
  shows "q_step P (abs_q ns db) (abs_q ns db') \<and> q_typed ns db'"
proof -
  let ?k = "redisKeyJobsInProgress ns p n" and ?l = "redisKeyJobsLock ns n" and ?i = "redisKeyJobsLockInfo ns n"
  let ?d = "finish_effect p ?k ?l ?i job db"
  have typed: "q_typed ns db" and p: "plain p" using assms(1,3) by (auto simp: cluster_ok_def)
  have "finish_typed p ?k ?l ?i db"
    using typed assms(2,4) p by (simp add: finish_typed_def q_typed_def q_room_def key_simps)
  then obtain rs1 where r1: "run_multi R [LREM ?k job, DECR ?l, HINCRBY ?i p (- 1)] db = (rs1, ?d)"
    using finish_multi by blast
  have "kv ?d z = kv db z" if "z \<in> {redisKeyRetry ns, redisKeyDead ns}"
    using that assms(4) p by (auto simp: finish_effect_def Let_def obs_simps key_simps)
  then have "fate_typed fate ?d" using assms(6) by auto
  then obtain rs2 where "run_multi R fate ?d = (rs2, fate_effect fate ?d)" using fate_multi by blast
  with r1 assms(7) have db': "db' = fate_effect fate ?d" by (subst (asm) run_multi_append) simp
  have kept: "queue_keys_kept ns ?d db'" unfolding db' using assms(6) by (intro fate_kept) blast
  have "job \<in> set (running (abs_q ns db) p n)" using assms(4,5) p by (simp add: abs_q_fields)
  with kept_abs [OF kept] assms(2,3,4) typed p show ?thesis
    by (simp add: abs_q_finish q_step_finish q_typed_finish)
qed

lemma reenqueue_refines:
  assumes "cluster_ok ns P db" and "q_room ns db" and "p \<in> P" and "names_plain xs"
    and "redisLuaReenqueueJob R p (concat (map requeue_keys (pool_items ns p xs))) db = (r, db')"
  shows "q_step P (abs_q ns db) (abs_q ns db') \<and> q_typed ns db'"
proof -
  have typed: "q_typed ns db" and p: "plain p" using assms(1,3) by (auto simp: cluster_ok_def)
  then have "\<forall>s\<in>set (pool_items ns p xs). requeue_typed p db s"
    using assms(2,4) by (auto simp: pool_items_def names_plain_def q_typed_requeue)
  note script = reenqueue_script [OF this]
  show ?thesis
  proof (cases "find (has_inprog db) (pool_items ns p xs)")
    case None
    with script assms(5) typed show ?thesis by (simp add: q_step_idle)
  next
    case (Some s)
    then obtain n k where s: "s = sample_of ns p n k" "plain n" "has_inprog db s"
      using pool_item_find [OF Some assms(4)] by blast
    with Some script assms(5) have "db' = requeue_effect p (sample_of ns p n k) db" by simp
    moreover have "running (abs_q ns db) p n \<noteq> []" using s p by (simp add: abs_q_fields has_inprog_def)
    ultimately show ?thesis
      using assms(2,3) typed p s(2) by (simp add: abs_q_giveback q_step_giveback q_typed_giveback)
  qed
qed

lemma cluster_step_refines:
  assumes "cluster_ok ns P db" and "cluster_step R ns P db db'"
  shows "q_step P (abs_q ns db) (abs_q ns db') \<and> q_typed ns db'"
  using assms(2)
proof (cases rule: cluster_step.cases)
  case (step_finish p n job fate z s m rs)
  then show ?thesis by (rule finish_refines [OF assms(1)])
next
  case step_other
  with assms(1) show ?thesis using kept_abs by (auto simp: cluster_ok_def q_step_idle)
qed (use assms(1) in \<open>blast dest: push_refines fetch_refines reenqueue_refines\<close>)+

lemma cluster_ok_step: "cluster_ok ns P db \<Longrightarrow> cluster_step R ns P db db' \<Longrightarrow> cluster_ok ns P db'"
  using cluster_step_refines q_inv_step unfolding cluster_ok_def by blast

lemma cluster_ok_reachable: "(cluster_step R ns P)\<^sup>*\<^sup>* db db' \<Longrightarrow> cluster_ok ns P db \<Longrightarrow> cluster_ok ns P db'"
  by (induction rule: rtranclp_induct) (auto intro: cluster_ok_step)

end

lemma cluster_ok_bounds:
  assumes "cluster_ok ns P db" and "plain n"
  shows "num db (redisKeyJobsLock ns n) = int (\<Sum>p\<in>P. length (lst db (redisKeyJobsInProgress ns p n)))"
    and "num db (redisKeyJobsConcurrency ns n) \<noteq> 0 \<Longrightarrow>
      int (\<Sum>p\<in>P. length (lst db (redisKeyJobsInProgress ns p n))) \<le> num db (redisKeyJobsConcurrency ns n)"
    and "p \<in> P \<Longrightarrow> hnum (hsh db (redisKeyJobsLockInfo ns n)) p = int (length (lst db (redisKeyJobsInProgress ns p n)))"
proof -
  have P: "\<forall>p\<in>P. plain p" and inv: "q_inv P (abs_q ns db)" using assms(1) by (auto simp: cluster_ok_def)
  have sum: "in_progress P (abs_q ns db) n = (\<Sum>p\<in>P. length (lst db (redisKeyJobsInProgress ns p n)))"
    unfolding in_progress_def using P assms(2) by (intro sum.cong) (auto simp: abs_q_fields)
  show "num db (redisKeyJobsLock ns n) = int (\<Sum>p\<in>P. length (lst db (redisKeyJobsInProgress ns p n)))"
    using inv sum assms(2) unfolding q_inv_def by (metis abs_q_fields(3))
  then show "num db (redisKeyJobsConcurrency ns n) \<noteq> 0 \<Longrightarrow>
      int (\<Sum>p\<in>P. length (lst db (redisKeyJobsInProgress ns p n))) \<le> num db (redisKeyJobsConcurrency ns n)"
    using inv assms(2) unfolding q_inv_def by (metis abs_q_fields(3,5))
  show "hnum (hsh db (redisKeyJobsLockInfo ns n)) p = int (length (lst db (redisKeyJobsInProgress ns p n)))" if "p \<in> P"
    using inv that P assms(2) unfolding q_inv_def by (metis abs_q_fields(2,4))
qed

section \<open>The worker as a client of the cluster\<close>

definition worker_in :: "string \<Rightarrow> string set \<Rightarrow> 'c worker \<Rightarrow> bool" where
  "worker_in ns P wk \<longleftrightarrow> wNamespace wk = ns \<and> poolID wk \<in> P \<and>
     (\<exists>xs. samples (sampler wk) = pool_items ns (poolID wk) xs \<and> names_plain xs)"

lemma pool_items_perm:
  assumes "mset ys = mset (pool_items ns p xs)" and "names_plain xs"
  shows "\<exists>zs. ys = pool_items ns p zs \<and> names_plain zs"
proof -
  have "\<forall>y\<in>set ys. \<exists>n k. plain n \<and> y = sample_of ns p n k"
    using mset_eq_setD [OF assms(1)] assms(2) by (auto simp: pool_items_def names_plain_def)
  then show ?thesis
  proof (induction ys)
    case Nil
    show ?case by (intro exI [of _ "[]"]) (simp add: pool_items_def names_plain_def)
  next
    case (Cons y ys)
    then obtain n k zs where "plain n" "y = sample_of ns p n k" "ys = pool_items ns p zs" "names_plain zs" by auto
    then show ?case by (intro exI [of _ "(n, k) # zs"]) (simp add: pool_items_def names_plain_def)
  qed
qed

lemma snd_run_script: "snd (run_script m d) = snd (m d)"
  by (simp add: run_script_def split: prod.split sum.split)

lemma kept_refl: "cluster_step R ns P d d"
  by (rule step_other) (simp add: queue_keys_kept_def)

context redis_conn
begin

lemma fetchJob_cluster_step:
  assumes "worker_in ns P wk" and "q_room ns (db w)" and "fetchJob R rnd (wk, w) = (r, (wk', w'))"
  shows "cluster_step R ns P (db w) (db w')"
proof (cases "sample rnd (sampler wk)")
  case None
  with assms(3) show ?thesis by (simp add: fetchJob_def kept_refl)
next
  case (Some s)
  obtain xs where "samples (sampler wk) = pool_items ns (poolID wk) xs" "names_plain xs" and p: "poolID wk \<in> P"
    using assms(1) by (auto simp: worker_in_def)
  moreover have "mset (samples s) = mset (samples (sampler wk))"
    using Some sample_loop_perm by (fastforce simp: sample_def)
  ultimately obtain zs where zs: "samples s = pool_items ns (poolID wk) zs" "names_plain zs"
    using pool_items_perm by metis
  let ?m = "redisLuaFetchJob R (poolID wk) (concat (map sample_keys (pool_items ns (poolID wk) zs)))"
  obtain r1 w1 where r1: "script_Do R ?m w = (r1, w1)" by (cases "script_Do R ?m w")
  have "w' = w1" using assms(3) Some r1 zs(1)
    by (auto simp: fetchJob_def on_world_def ebind_def etry_def conv_def eret_def efail_def fetched_job_def
        split: sum.splits prod.splits if_splits reply.splits option.splits)
  then have "db w' = db w \<or> db w' = snd (?m (db w))"
    using exec_go_once [of "run_script ?m" w r1 w1] r1 by (auto simp: script_Do_def snd_run_script)
  moreover have "cluster_step R ns P (db w) (snd (?m (db w)))"
    by (rule step_fetch [OF assms(2) p zs(2), of _ "fst (?m (db w))"]) simp
  ultimately show ?thesis using kept_refl by metis
qed

lemma finish_cluster_step:
  assumes "wNamespace wk = ns" and "poolID wk \<in> P" and "plain (Name j)"
    and "inProgQueue j = redisKeyJobsInProgress ns (poolID wk) (Name j)" and "raw \<in> set (lst (db w) (inProgQueue j))"
    and "fate = [] \<or> fate = [ZADD z s m] \<and> z \<in> {redisKeyRetry ns, redisKeyDead ns} \<and> zset_type (kv (db w) z) \<and> score_ok s"
    and "q_room ns (db w)" and "removeJobFromInProgress R wk j fate raw w = (r, w')"
  shows "cluster_step R ns P (db w) (db w')"
proof -
  let ?cs = "[LREM (redisKeyJobsInProgress ns (poolID wk) (Name j)) raw, DECR (redisKeyJobsLock ns (Name j)),
    HINCRBY (redisKeyJobsLockInfo ns (Name j)) (poolID wk) (- 1)] @ fate"
  obtain r1 w1 where r1: "multi_Do R ?cs w = (r1, w1)" by (cases "multi_Do R ?cs w")
  have "w' = w1" using assms(1,4,8) r1
    by (auto simp: removeJobFromInProgress_def ebind_def etry_def eret_def split: prod.splits)
  then have "db w' = db w \<or> db w' = snd (run_multi R ?cs (db w))"
    using exec_go_once [of "\<lambda>db. case run_multi R ?cs db of (rs, db') \<Rightarrow> (RArr rs, db')" w r1 w1] r1
    by (auto simp: multi_Do_def split: prod.splits)
  moreover have "cluster_step R ns P (db w) (snd (run_multi R ?cs (db w)))"
    using assms by (intro step_finish [where fate = fate and rs = "fst (run_multi R ?cs (db w))"]) auto
  ultimately show ?thesis using kept_refl by metis
qed

end

text \<open>Fetching and re-enqueueing move jobs; they neither lose nor duplicate one.\<close>

lemma all_jobs_keys:
  assumes "\<forall>p\<in>P. plain p" and "plain n"
  shows "all_jobs P (abs_q ns db) n =
    mset (lst db (redisKeyJobs ns n)) + (\<Sum>p\<in>P. mset (lst db (redisKeyJobsInProgress ns p n)))"
  using assms unfolding all_jobs_def running_jobs_def by (auto simp: abs_q_fields intro!: sum.cong)

context redis_server
begin

lemma fetch_all_jobs:
  assumes "cluster_ok ns P db" and "q_room ns db" and "p \<in> P" and "names_plain xs"
    and "redisLuaFetchJob R p (concat (map sample_keys (pool_items ns p xs))) db = (r, db')"
  shows "all_jobs P (abs_q ns db') n = all_jobs P (abs_q ns db) n"
proof -
  have P: "finite P" "plain p" "q_typed ns db" using assms(1,3) by (auto simp: cluster_ok_def)
  then have "\<forall>s\<in>set (pool_items ns p xs). fetch_typed p db s"
    using assms(2,4) by (auto simp: pool_items_def names_plain_def q_typed_fetch)
  note script = fetch_script [OF this]
  show ?thesis
  proof (cases "find (runnable db) (pool_items ns p xs)")
    case None
    with script assms(5) show ?thesis by simp
  next
    case (Some s)
    then obtain m k where s: "s = sample_of ns p m k" "plain m" "runnable db s"
      using pool_item_find [OF Some assms(4)] by blast
    with Some script assms(5) have "db' = fetch_effect p (sample_of ns p m k) db" by simp
    moreover have "waiting (abs_q ns db) m \<noteq> []" using s by (simp add: runnable_def abs_q_fields)
    ultimately show ?thesis using P assms(3) s(2) by (simp add: abs_q_take all_jobs_take)
  qed
qed

lemma reenqueue_all_jobs:
  assumes "cluster_ok ns P db" and "q_room ns db" and "p \<in> P" and "names_plain xs"
    and "redisLuaReenqueueJob R p (concat (map requeue_keys (pool_items ns p xs))) db = (r, db')"
  shows "all_jobs P (abs_q ns db') n = all_jobs P (abs_q ns db) n"
proof -
  have P: "finite P" "plain p" "q_typed ns db" using assms(1,3) by (auto simp: cluster_ok_def)
  then have "\<forall>s\<in>set (pool_items ns p xs). requeue_typed p db s"
    using assms(2,4) by (auto simp: pool_items_def names_plain_def q_typed_requeue)
  note script = reenqueue_script [OF this]
  show ?thesis
  proof (cases "find (has_inprog db) (pool_items ns p xs)")
    case None
    with script assms(5) show ?thesis by simp
  next
    case (Some s)
    then obtain m k where s: "s = sample_of ns p m k" "plain m" "has_inprog db s"
      using pool_item_find [OF Some assms(4)] by blast
    with Some script assms(5) have "db' = requeue_effect p (sample_of ns p m k) db" by simp
    moreover have "running (abs_q ns db) p m \<noteq> []" using s P(2) by (simp add: has_inprog_def abs_q_fields)
    ultimately show ?thesis using P assms(3) s(2) by (simp add: abs_q_giveback all_jobs_giveback)
  qed
qed

end

section \<open>What holds of every cluster\<close>

text \<open>A keyspace with one job waiting in a queue that runs one job at a time.\<close>

definition one_job :: keyspace where
  "one_job = upd (redisKeyJobsConcurrency ''w'' ''a'') (vint 1) (upd (redisKeyJobs ''w'' ''a'') (vlist [''j'']) empty_keyspace)"

lemma one_job_kv:
  "kv one_job = (\<lambda>k. None)(redisKeyJobs ''w'' ''a'' := vlist [''j''], redisKeyJobsConcurrency ''w'' ''a'' := vint 1)"
  by (simp add: one_job_def empty_keyspace_def upd_def fun_upd_twist vint_def vlist_def)

lemma one_job_room: "q_room ''w'' one_job"
  by (auto simp: q_room_def one_job_kv key_simps hnum_def in_i64_def)

lemma one_job_ok: "cluster_ok ''w'' {''p''} one_job"
proof -
  have "q_typed ''w'' one_job"
    by (auto simp: q_typed_def one_job_kv key_simps hnum_ok_def in_i64_def)
  moreover have "q_inv {''p''} (abs_q ''w'' one_job)"
    by (auto simp: q_inv_def in_progress_def abs_q_def one_job_kv key_simps hnum_def)
  ultimately show ?thesis by (simp add: cluster_ok_def)
qed

lemma one_job_fetch:
  "redisLuaFetchJob mem_redis ''p'' (concat (map sample_keys (pool_items ''w'' ''p'' [(''a'', 5)]))) one_job =
     (Inr (fetch_reply (sample_of ''w'' ''p'' ''a'' 5) one_job), fetch_effect ''p'' (sample_of ''w'' ''p'' ''a'' 5) one_job)"
proof -
  have typed: "q_typed ''w'' one_job" using one_job_ok by (simp add: cluster_ok_def)
  have "runnable one_job (sample_of ''w'' ''p'' ''a'' 5)"
    by (subst runnable_iff [OF typed]) (simp_all add: q_can_take_def abs_q_fields one_job_kv key_simps)
  moreover have "fetch_typed ''p'' one_job (sample_of ''w'' ''p'' ''a'' 5)"
    by (rule q_typed_fetch [OF typed one_job_room]) simp_all
  ultimately show ?thesis using mem.fetch_script [of "pool_items ''w'' ''p'' [(''a'', 5)]" "''p''" one_job]
    by (simp add: pool_items_def)
qed

lemma one_job_step:
  "cluster_step mem_redis ''w'' {''p''} one_job (fetch_effect ''p'' (sample_of ''w'' ''p'' ''a'' 5) one_job)"
  by (rule step_fetch [OF one_job_room _ _ one_job_fetch]) (simp_all add: names_plain_def)







text \<open>C17: fetching a job and re-enqueueing the jobs of a pool conserve jobs: for every name, the jobs
  waiting and in progress are the same before and after.\<close>

theorem jobs_conserved:
  assumes "redis_server R" and "cluster_ok ns P db" and "q_room ns db" and "p \<in> P" and "names_plain xs"
    and "redisLuaFetchJob R p (concat (map sample_keys (pool_items ns p xs))) db = (r, db') \<or>
      redisLuaReenqueueJob R p (concat (map requeue_keys (pool_items ns p xs))) db = (r, db')" and "plain n"
  shows "mset (lst db' (redisKeyJobs ns n)) + (\<Sum>p\<in>P. mset (lst db' (redisKeyJobsInProgress ns p n))) =
    mset (lst db (redisKeyJobs ns n)) + (\<Sum>p\<in>P. mset (lst db (redisKeyJobsInProgress ns p n)))"
proof -
  have "all_jobs P (abs_q ns db') n = all_jobs P (abs_q ns db) n"
    using assms(6) redis_server.fetch_all_jobs [OF assms(1-5)] redis_server.reenqueue_all_jobs [OF assms(1-5)] by blast
  moreover have "\<forall>p\<in>P. plain p" using assms(2) by (simp add: cluster_ok_def)
  ultimately show ?thesis using all_jobs_keys [of P n ns] assms(7) by simp
qed

theorem jobs_conserved_witness:
  "mset (lst (fetch_effect ''p'' (sample_of ''w'' ''p'' ''a'' 5) one_job) (redisKeyJobs ''w'' ''a'')) +
     (\<Sum>p\<in>{''p''}. mset (lst (fetch_effect ''p'' (sample_of ''w'' ''p'' ''a'' 5) one_job) (redisKeyJobsInProgress ''w'' p ''a''))) =
   mset (lst one_job (redisKeyJobs ''w'' ''a'')) + (\<Sum>p\<in>{''p''}. mset (lst one_job (redisKeyJobsInProgress ''w'' p ''a'')))"
  by (rule jobs_conserved [OF mem.redis_server_axioms one_job_ok one_job_room _ _ disjI1 [OF one_job_fetch]])
    (simp_all add: names_plain_def)


lemma sample_worker_in: "worker_in ''w'' {''p''} sample_worker"
  by (simp add: worker_in_def sample_worker_fields) (auto simp: pool_items_def names_plain_def intro!: exI [of _ "[(''a'', 5)]"])


end
