(* ===== verification/Clock.thy ===== *)
theory Clock
  imports Work_Prelude
begin

text \<open>
  \<open>time.go\<close> and \<open>identifier.go\<close>. The system clock is an argument: whole seconds since the epoch
  and the nanoseconds within the second. The bytes of an identifier are an argument too.
\<close>

section \<open>Time\<close>

definition nowEpochSeconds :: "int \<Rightarrow> int \<Rightarrow> int" where
  "nowEpochSeconds nowMock unix = (if nowMock \<noteq> 0 then nowMock else unix)"

definition setNowEpochSecondsMock :: "int \<Rightarrow> int \<Rightarrow> int" where
  "setNowEpochSecondsMock t nowMock = t"

definition resetNowEpochSecondsMock :: "int \<Rightarrow> int" where
  "resetNowEpochSecondsMock nowMock = 0"

text \<open>
  A \<open>time.Duration\<close> is an \<open>int64\<close> number of nanoseconds, so the product wraps. A time is its
  number of nanoseconds since the epoch.
\<close>

definition seconds_duration :: "int \<Rightarrow> int" where
  "seconds_duration seconds = wrap_i64 (1000000000 * seconds)"

definition epochAfterSeconds :: "int \<Rightarrow> int \<Rightarrow> int \<Rightarrow> int \<Rightarrow> int" where
  "epochAfterSeconds nowMock unix nanos seconds =
     (if nowMock \<noteq> 0 then wrap_i64 (nowMock + seconds)
      else
        let t = unix * 1000000000 + nanos + seconds_duration seconds;
            t' = (if t mod 1000000000 > 0 then t + 1000000000 else t)
        in t' div 1000000000)"

lemma epochAfterSeconds_ceiling:
  assumes "0 \<le> nanos" and "nanos < 1000000000" and "\<bar>seconds\<bar> \<le> 9223372036"
  shows "epochAfterSeconds 0 unix nanos seconds = unix + seconds + (if nanos = 0 then 0 else 1)"
proof -
  have "seconds_duration seconds = 1000000000 * seconds"
    unfolding seconds_duration_def using assms(3) by (intro wrap_i64_id) (auto simp: in_i64_def)
  then have t: "unix * 1000000000 + nanos + seconds_duration seconds = nanos + (unix + seconds) * 1000000000"
    by simp
  have up: "nanos + (unix + seconds) * 1000000000 + 1000000000 = nanos + (unix + seconds + 1) * 1000000000"
    by simp
  have d: "(nanos + k * 1000000000) div 1000000000 = k" "(nanos + k * 1000000000) mod 1000000000 = nanos" for k
    using assms(1,2) by simp_all
  have "epochAfterSeconds 0 unix nanos seconds =
      (if 0 < nanos then (nanos + (unix + seconds + 1) * 1000000000) div 1000000000
       else (nanos + (unix + seconds) * 1000000000) div 1000000000)"
    unfolding epochAfterSeconds_def Let_def t up [symmetric] d(2)
    by (cases "0 < nanos") (simp_all only: simp_thms if_True if_False)
  also have "\<dots> = unix + seconds + (if nanos = 0 then 0 else 1)"
    using assms(1) unfolding d(1) by simp
  finally show ?thesis .
qed

section \<open>Identifiers\<close>

definition hex_char :: "nat \<Rightarrow> char" where
  "hex_char d = ''0123456789abcdef'' ! d"

fun hex_EncodeToString :: "nat list \<Rightarrow> string" where
  "hex_EncodeToString [] = []"
| "hex_EncodeToString (b # bs) = hex_char (b div 16) # hex_char (b mod 16) # hex_EncodeToString bs"

text \<open>\<open>None\<close> is a failing random source.\<close>

definition makeIdentifier :: "nat list option \<Rightarrow> string" where
  "makeIdentifier b = (case b of None \<Rightarrow> [] | Some bs \<Rightarrow> hex_EncodeToString bs)"

definition twelve_bytes :: "nat list \<Rightarrow> bool" where
  "twelve_bytes bs \<longleftrightarrow> length bs = 12 \<and> (\<forall>b\<in>set bs. b < 256)"

lemma length_hex: "length (hex_EncodeToString bs) = 2 * length bs"
  by (induction bs) auto

lemma hex_char_inject:
  assumes "a < 16" and "b < 16" and "hex_char a = hex_char b"
  shows "a = b"
proof -
  have "distinct ''0123456789abcdef''" by simp
  moreover have "length ''0123456789abcdef'' = 16" by simp
  ultimately show ?thesis using assms unfolding hex_char_def by (metis nth_eq_iff_index_eq)
qed

lemma hex_inject:
  assumes "\<forall>b\<in>set bs. b < 256" and "\<forall>b\<in>set cs. b < 256" and "hex_EncodeToString bs = hex_EncodeToString cs"
  shows "bs = cs"
  using assms
proof (induction bs arbitrary: cs)
  case Nil
  then show ?case by (cases cs) auto
next
  case (Cons b bs)
  then obtain c cs' where cs: "cs = c # cs'" by (cases cs) auto
  have "b div 16 < 16" "c div 16 < 16" "b mod 16 < 16" "c mod 16 < 16" using Cons.prems cs by auto
  moreover have "hex_char (b div 16) = hex_char (c div 16)" "hex_char (b mod 16) = hex_char (c mod 16)"
    using Cons.prems(3) cs by simp_all
  ultimately have "b div 16 = c div 16" "b mod 16 = c mod 16"
    by (blast intro: hex_char_inject)+
  note eq = this
  have "b = b div 16 * 16 + b mod 16" by simp
  also have "\<dots> = c div 16 * 16 + c mod 16" by (simp only: eq)
  finally have "b = c" by (simp only: div_mult_mod_eq)
  moreover have "bs = cs'"
  proof (rule Cons.IH)
    show "hex_EncodeToString bs = hex_EncodeToString cs'" using Cons.prems(3) by (simp add: cs)
  qed (use Cons.prems(1,2) cs in auto)
  ultimately show ?case by (simp add: cs)
qed

lemma hex_char_plain:
  assumes "d < 16"
  shows "hex_char d \<noteq> CHR '':'' \<and> hex_char d \<noteq> CHR '',''"
proof -
  have "hex_char d \<in> set ''0123456789abcdef''"
    using assms nth_mem [of d "''0123456789abcdef''"] unfolding hex_char_def by simp
  moreover have "\<forall>c\<in>set ''0123456789abcdef''. c \<noteq> CHR '':'' \<and> c \<noteq> CHR '',''" by simp
  ultimately show ?thesis by blast
qed

lemma hex_plain:
  "\<forall>b\<in>set bs. b < 256 \<Longrightarrow> CHR '':'' \<notin> set (hex_EncodeToString bs) \<and> CHR '','' \<notin> set (hex_EncodeToString bs)"
proof (induction bs)
  case (Cons b bs)
  then have "b div 16 < 16" "b mod 16 < 16" by auto
  then have "hex_char (b div 16) \<noteq> CHR '':'' \<and> hex_char (b div 16) \<noteq> CHR '',''"
    "hex_char (b mod 16) \<noteq> CHR '':'' \<and> hex_char (b mod 16) \<noteq> CHR '',''"
    using hex_char_plain by blast+
  then have "CHR '':'' \<noteq> hex_char (b div 16)" "CHR '':'' \<noteq> hex_char (b mod 16)"
    "CHR '','' \<noteq> hex_char (b div 16)" "CHR '','' \<noteq> hex_char (b mod 16)" by metis+
  with Cons show ?case by simp
qed simp

section \<open>The time of a scheduled job\<close>

text \<open>Up to 9223372036 seconds, about 292 years, the time of a job to run in some seconds is that time
  rounded up to a whole second: a job never runs early.\<close>

theorem epoch_rounds_up:
  assumes "0 \<le> nanos" and "nanos < 1000000000" and "\<bar>seconds\<bar> \<le> 9223372036"
  shows "epochAfterSeconds 0 unix nanos seconds = unix + seconds + (if nanos = 0 then 0 else 1)"
  using assms by (rule epochAfterSeconds_ceiling)

theorem epoch_rounds_up_witness: "epochAfterSeconds 0 1000 999999999 60 = 1061"
  using epoch_rounds_up [of 999999999 60 1000] by simp

end
