(* ===== verification/Enqueuer.thy ===== *)
theory Enqueuer
  imports Connection Clock
begin

text \<open>
  \<open>enqueue.go\<close>: enqueueing now, at a time, uniquely and in bulk. The state of an operation is the
  enqueuer (its cache of known jobs changes) and the world. The identifiers and clock readings an
  operation obtains are arguments, in the order in which the code obtains them.
\<close>

section \<open>The enqueuer\<close>

record enqueuerOption =
  MinWaitReplicas :: int
  MaxWaitTimeoutMS :: int

record enqueuer =
  Namespace :: string
  EnqOption :: enqueuerOption
  queuePrefix :: string
  knownJobs :: "string \<rightharpoonup> int"

record scheduledJob =
  RunAt :: int
  SJob :: job

definition NewEnqueuerWithOptions :: "string \<Rightarrow> enqueuerOption \<Rightarrow> enqueuer" where
  "NewEnqueuerWithOptions ns opt =
     \<lparr>Namespace = ns, EnqOption = opt, queuePrefix = redisKeyJobsPrefix ns, knownJobs = Map.empty\<rparr>"

definition NewEnqueuer :: "string \<Rightarrow> enqueuer" where
  "NewEnqueuer ns = NewEnqueuerWithOptions ns \<lparr>MinWaitReplicas = 0, MaxWaitTimeoutMS = 0\<rparr>"

definition MinWaitEnabled :: "enqueuer \<Rightarrow> bool" where
  "MinWaitEnabled e \<longleftrightarrow> 0 < MinWaitReplicas (EnqOption e)"

definition wait_cmd :: "enqueuer \<Rightarrow> cmd" where
  "wait_cmd e = WAIT (MinWaitReplicas (EnqOption e)) (MaxWaitTimeoutMS (EnqOption e))"

definition sendWait :: "'w redis \<Rightarrow> enqueuer \<Rightarrow> script list" where
  "sendWait R e = (if MinWaitEnabled e then [call R (wait_cmd e)] else [])"

text \<open>The check of the number of replicas, on the reply to \<open>WAIT\<close>.\<close>

definition check_replicas :: "'w redis \<Rightarrow> enqueuer \<Rightarrow> reply \<Rightarrow> go_err + unit" where
  "check_replicas R e r =
     (case redis_Int64 R r of
        Inl err \<Rightarrow> Inl (RedisErr err)
      | Inr n \<Rightarrow> if n < MinWaitReplicas (EnqOption e) then Inl ErrReplicationFailed else Inr ())"

definition receiveWait :: "'w redis \<Rightarrow> enqueuer \<Rightarrow> (go_err + reply) list \<Rightarrow> go_err + unit" where
  "receiveWait R e rs =
     (if \<not> MinWaitEnabled e then Inr ()
      else
        (case rs of
           [] \<Rightarrow> Inl (RedisErr NetErr)
         | r # _ \<Rightarrow> (case r of Inl err \<Rightarrow> Inl err | Inr x \<Rightarrow> check_replicas R e x)))"

definition redisDoHelper :: "'w redis \<Rightarrow> enqueuer \<Rightarrow> cmd \<Rightarrow> ('w, reply) go" where
  "redisDoHelper R e c = (\<lambda>w.
     case pipeline R (call R c # sendWait R e) w of (rs, w') \<Rightarrow>
       (case rs of
          [] \<Rightarrow> (Inl (RedisErr NetErr), w')
        | r # rest \<Rightarrow>
            (case r of
               Inl err \<Rightarrow> (Inl err, w')
             | Inr x \<Rightarrow> (case receiveWait R e rest of Inl err \<Rightarrow> (Inl err, w') | Inr _ \<Rightarrow> (Inr x, w')))))"

definition addToKnownJobs :: "'w redis \<Rightarrow> int \<Rightarrow> string \<Rightarrow> (enqueuer \<times> 'w, unit) go" where
  "addToKnownJobs R now jobName = (\<lambda>(e, w).
     if (case knownJobs e jobName of None \<Rightarrow> False | Some t \<Rightarrow> now < t) then (Inr (), (e, w))
     else
       (case conn_Do R (SADD (redisKeyKnownJobs (Namespace e)) [jobName]) w of
          (Inl err, w') \<Rightarrow> (Inl err, (e, w'))
        | (Inr _, w') \<Rightarrow> (Inr (), (e\<lparr>knownJobs := (knownJobs e)(jobName \<mapsto> now + 300)\<rparr>, w'))))"

section \<open>Enqueueing a job\<close>

text \<open>
  A Go function that returns a value together with an error returns \<open>Inl (err, value)\<close> here. The
  clock readings are the job's \<open>EnqueuedAt\<close> and the one of \<open>addToKnownJobs\<close>.
\<close>

definition fresh_job :: "string \<Rightarrow> string \<Rightarrow> int \<Rightarrow> go_args \<Rightarrow> job" where
  "fresh_job jobName ident now args = zero_job\<lparr>Name := jobName, ID := ident, EnqueuedAt := now, Args := args\<rparr>"

definition Enqueue ::
    "'w redis \<Rightarrow> string \<Rightarrow> int \<Rightarrow> int \<Rightarrow> string \<Rightarrow> go_args \<Rightarrow>
     (enqueuer \<times> 'w, go_err \<times> job option, job) act" where
  "Enqueue R ident now now' jobName args = (\<lambda>(e, w).
     let job = fresh_job jobName ident now args in
     case serialize job of
       None \<Rightarrow> (Inl (MarshalErr, None), (e, w))
     | Some raw \<Rightarrow>
         ebind (map_err (\<lambda>err. (err, None)) (on_world (redisDoHelper R e (LPUSH (queuePrefix e @ jobName) raw)))) (\<lambda>_.
         ebind (map_err (\<lambda>err. (err, Some job)) (addToKnownJobs R now' jobName)) (\<lambda>_.
         eret job)) (e, w))"

definition EnqueueAt ::
    "'w redis \<Rightarrow> string \<Rightarrow> int \<Rightarrow> int \<Rightarrow> string \<Rightarrow> int \<Rightarrow> go_args \<Rightarrow>
     (enqueuer \<times> 'w, go_err \<times> scheduledJob option, scheduledJob) act" where
  "EnqueueAt R ident now now' jobName epochSeconds args = (\<lambda>(e, w).
     let job = fresh_job jobName ident now args in
     case serialize job of
       None \<Rightarrow> (Inl (MarshalErr, None), (e, w))
     | Some raw \<Rightarrow>
         (let sj = \<lparr>RunAt = epochSeconds, SJob = job\<rparr> in
          ebind (map_err (\<lambda>err. (err, None))
                   (on_world (redisDoHelper R e (ZADD (redisKeyScheduled (Namespace e)) (RunAt sj) raw)))) (\<lambda>_.
          ebind (map_err (\<lambda>err. (err, Some sj)) (addToKnownJobs R now' jobName)) (\<lambda>_.
          eret sj)) (e, w)))"

text \<open>\<open>mock\<close>, \<open>unix\<close> and \<open>nanos\<close> are what \<open>epochAfterSeconds\<close> reads.\<close>

definition EnqueueIn ::
    "'w redis \<Rightarrow> int \<times> int \<times> int \<Rightarrow> string \<Rightarrow> int \<Rightarrow> int \<Rightarrow> string \<Rightarrow> int \<Rightarrow> go_args \<Rightarrow>
     (enqueuer \<times> 'w, go_err \<times> scheduledJob option, scheduledJob) act" where
  "EnqueueIn R clock ident now now' jobName secondsFromNow args =
     (case clock of (mock, unix, nanos) \<Rightarrow>
        EnqueueAt R ident now now' jobName (epochAfterSeconds mock unix nanos secondsFromNow) args)"

section \<open>Unique jobs\<close>

text \<open>
  \<open>uniqueJobHelper\<close> up to the closure it returns: the unique key, the job, its text and the payload
  stored under the unique key.
\<close>

definition uniqueJobHelper ::
    "string \<Rightarrow> string \<Rightarrow> int \<Rightarrow> string \<Rightarrow> go_args \<Rightarrow> go_args \<Rightarrow> go_err + (string \<times> job \<times> string \<times> string)" where
  "uniqueJobHelper ns ident now jobName args keyMap =
     (case redisKeyUniqueJob ns jobName (if keyMap = None then args else keyMap) of
        None \<Rightarrow> Inl MarshalErr
      | Some uniqueKey \<Rightarrow>
          (let job = (fresh_job jobName ident now args)\<lparr>Unique := True, UniqueKey := uniqueKey\<rparr> in
           case serialize job of
             None \<Rightarrow> Inl MarshalErr
           | Some raw \<Rightarrow> Inr (uniqueKey, job, raw, if keyMap = None then ''1'' else raw)))"

text \<open>The closure.\<close>

definition enqueueFn ::
    "'w redis \<Rightarrow> int \<Rightarrow> string \<Rightarrow> string \<Rightarrow> string \<Rightarrow> string \<Rightarrow> int option \<Rightarrow> (enqueuer \<times> 'w, string) go" where
  "enqueueFn R now' jobName uniqueKey raw updated runAt =
     ebind (addToKnownJobs R now' jobName) (\<lambda>_. \<lambda>(e, w).
       on_world
         (ebind (script_Do R
            (case runAt of
               None \<Rightarrow> redisLuaEnqueueUnique R (queuePrefix e @ jobName) uniqueKey raw updated
             | Some t \<Rightarrow> redisLuaEnqueueUniqueIn R (redisKeyScheduled (Namespace e)) uniqueKey raw updated t)) (\<lambda>r.
          ebind (conv (redis_String R) r) (\<lambda>status.
          if MinWaitEnabled e then
            ebind (conn_Do R (wait_cmd e)) (\<lambda>n.
            ebind (received (check_replicas R e n)) (\<lambda>_.
            eret status))
          else eret status))) (e, w))"

text \<open>\<open>None\<close> is Go's nil job with a nil error: the job was there already.\<close>

definition EnqueueUniqueByKey ::
    "'w redis \<Rightarrow> string \<Rightarrow> int \<Rightarrow> int \<Rightarrow> string \<Rightarrow> go_args \<Rightarrow> go_args \<Rightarrow> (enqueuer \<times> 'w, job option) go" where
  "EnqueueUniqueByKey R ident now now' jobName args keyMap = (\<lambda>(e, w).
     case uniqueJobHelper (Namespace e) ident now jobName args keyMap of
       Inl err \<Rightarrow> (Inl err, (e, w))
     | Inr (uniqueKey, job, raw, updated) \<Rightarrow>
         ebind (enqueueFn R now' jobName uniqueKey raw updated None) (\<lambda>res.
         eret (if res = ''ok'' then Some job else None)) (e, w))"

definition EnqueueUnique ::
    "'w redis \<Rightarrow> string \<Rightarrow> int \<Rightarrow> int \<Rightarrow> string \<Rightarrow> go_args \<Rightarrow> (enqueuer \<times> 'w, job option) go" where
  "EnqueueUnique R ident now now' jobName args = EnqueueUniqueByKey R ident now now' jobName args None"

definition EnqueueUniqueAtByKey ::
    "'w redis \<Rightarrow> string \<Rightarrow> int \<Rightarrow> int \<Rightarrow> string \<Rightarrow> int \<Rightarrow> go_args \<Rightarrow> go_args \<Rightarrow>
     (enqueuer \<times> 'w, scheduledJob option) go" where
  "EnqueueUniqueAtByKey R ident now now' jobName epochSeconds args keyMap = (\<lambda>(e, w).
     case uniqueJobHelper (Namespace e) ident now jobName args keyMap of
       Inl err \<Rightarrow> (Inl err, (e, w))
     | Inr (uniqueKey, job, raw, updated) \<Rightarrow>
         (let sj = \<lparr>RunAt = epochSeconds, SJob = job\<rparr> in
          ebind (enqueueFn R now' jobName uniqueKey raw updated (Some (RunAt sj))) (\<lambda>res.
          eret (if res = ''ok'' then Some sj else None)) (e, w)))"

definition EnqueueUniqueAt ::
    "'w redis \<Rightarrow> string \<Rightarrow> int \<Rightarrow> int \<Rightarrow> string \<Rightarrow> int \<Rightarrow> go_args \<Rightarrow> (enqueuer \<times> 'w, scheduledJob option) go" where
  "EnqueueUniqueAt R ident now now' jobName epochSeconds args =
     EnqueueUniqueAtByKey R ident now now' jobName epochSeconds args None"

definition EnqueueUniqueInByKey ::
    "'w redis \<Rightarrow> int \<times> int \<times> int \<Rightarrow> string \<Rightarrow> int \<Rightarrow> int \<Rightarrow> string \<Rightarrow> int \<Rightarrow> go_args \<Rightarrow> go_args \<Rightarrow>
     (enqueuer \<times> 'w, scheduledJob option) go" where
  "EnqueueUniqueInByKey R clock ident now now' jobName secondsFromNow args keyMap =
     (case clock of (mock, unix, nanos) \<Rightarrow>
        EnqueueUniqueAtByKey R ident now now' jobName (epochAfterSeconds mock unix nanos secondsFromNow) args keyMap)"

definition EnqueueUniqueIn ::
    "'w redis \<Rightarrow> int \<times> int \<times> int \<Rightarrow> string \<Rightarrow> int \<Rightarrow> int \<Rightarrow> string \<Rightarrow> int \<Rightarrow> go_args \<Rightarrow>
     (enqueuer \<times> 'w, scheduledJob option) go" where
  "EnqueueUniqueIn R clock ident now now' jobName secondsFromNow args =
     EnqueueUniqueInByKey R clock ident now now' jobName secondsFromNow args None"

section \<open>Bulk\<close>

record bulkEnqueueParam =
  BName :: string
  BArgs :: go_args
  RunAtEpoch :: int
  BUnique :: bool
  UniqueKeyMap :: go_args

record bulkEnqueueResult =
  RID :: string
  REnqueuedAt :: int
  EnqueueSkipped :: bool
  RUniqueKey :: string

definition buildUniqueKey :: "string \<Rightarrow> bulkEnqueueParam \<Rightarrow> string option" where
  "buildUniqueKey ns p =
     (if \<not> BUnique p then Some []
      else redisKeyUniqueJob ns (BName p) (if UniqueKeyMap p \<noteq> None then UniqueKeyMap p else BArgs p))"

definition buildJobAndResult :: "string \<Rightarrow> int \<Rightarrow> string \<Rightarrow> bulkEnqueueParam \<Rightarrow> (job \<times> bulkEnqueueResult) option" where
  "buildJobAndResult ns epochSeconds ident p =
     (case buildUniqueKey ns p of
        None \<Rightarrow> None
      | Some uniqueKey \<Rightarrow>
          (let job = (fresh_job (BName p) ident epochSeconds (BArgs p))\<lparr>Unique := BUnique p, UniqueKey := uniqueKey\<rparr> in
           case serialize job of
             None \<Rightarrow> None
           | Some raw \<Rightarrow>
               Some (job\<lparr>rawJSON := raw\<rparr>,
                 \<lparr>RID = ident, REnqueuedAt = epochSeconds, EnqueueSkipped = False, RUniqueKey = uniqueKey\<rparr>)))"

fun build_all :: "string \<Rightarrow> int \<Rightarrow> (string \<times> bulkEnqueueParam) list \<Rightarrow> (job \<times> bulkEnqueueResult) list option" where
  "build_all ns epochSeconds [] = Some []"
| "build_all ns epochSeconds ((ident, p) # ps) =
     (case buildJobAndResult ns epochSeconds ident p of
        None \<Rightarrow> None
      | Some jr \<Rightarrow> map_option (Cons jr) (build_all ns epochSeconds ps))"

definition bulkUniqueHelper :: "'w redis \<Rightarrow> enqueuer \<Rightarrow> bulkEnqueueParam \<Rightarrow> job \<Rightarrow> reply lua" where
  "bulkUniqueHelper R e p j =
     (let updated = (if UniqueKeyMap p \<noteq> None then rawJSON j else ''1'') in
      if RunAtEpoch p \<noteq> 0 then
        redisLuaEnqueueUniqueIn R (redisKeyScheduled (Namespace e)) (UniqueKey j) (rawJSON j) updated (RunAtEpoch p)
      else redisLuaEnqueueUnique R (queuePrefix e @ Name j) (UniqueKey j) (rawJSON j) updated)"

text \<open>\<open>EVALSHA\<close> of a script that the server has or has not loaded.\<close>

definition noscript :: string where
  "noscript = ''NOSCRIPT No matching script. Please use EVAL.''"

definition evalsha :: "bool \<Rightarrow> script \<Rightarrow> script" where
  "evalsha loaded f = (\<lambda>db. if loaded then f db else (RErr noscript, db))"

definition bulk_request :: "'w redis \<Rightarrow> enqueuer \<Rightarrow> bool \<Rightarrow> bulkEnqueueParam \<Rightarrow> job \<Rightarrow> script" where
  "bulk_request R e loaded p j =
     (if BUnique p then evalsha loaded (run_script (bulkUniqueHelper R e p j))
      else if RunAtEpoch p \<noteq> 0 then call R (ZADD (redisKeyScheduled (Namespace e)) (RunAtEpoch p) (rawJSON j))
      else call R (LPUSH (queuePrefix e @ BName p) (rawJSON j)))"

text \<open>The names that \<open>sendBulkKnownJobs\<close> finds missing or out of date in the cache.\<close>

definition pendingJobNames :: "enqueuer \<Rightarrow> int \<Rightarrow> bulkEnqueueParam list \<Rightarrow> string list" where
  "pendingJobNames e now ps =
     remdups (filter (\<lambda>n. case knownJobs e n of None \<Rightarrow> True | Some t \<Rightarrow> t < now) (map BName ps))"

definition sendBulkKnownJobs :: "'w redis \<Rightarrow> enqueuer \<Rightarrow> string list \<Rightarrow> script list" where
  "sendBulkKnownJobs R e names =
     (if names = [] then [] else [call R (SADD (redisKeyKnownJobs (Namespace e)) names)])"

definition mark_known :: "int \<Rightarrow> string list \<Rightarrow> enqueuer \<Rightarrow> enqueuer" where
  "mark_known now names e = e\<lparr>knownJobs := (\<lambda>n. if n \<in> set names then Some (now + 300) else knownJobs e n)\<rparr>"

definition strings_Contains :: "string \<Rightarrow> string \<Rightarrow> bool" where
  "strings_Contains s t = list_ex (\<lambda>i. take (length t) (drop i s) = t) [0..<Suc (length s)]"

definition is_noscript :: "go_err \<Rightarrow> bool" where
  "is_noscript err = (case err of RedisErr (ServerErr m) \<Rightarrow> strings_Contains m ''NOSCRIPT '' | _ \<Rightarrow> False)"

text \<open>
  Receiving the replies to the jobs: the results, and for each job whether its script was missing.
\<close>

definition receive_job ::
    "'w redis \<Rightarrow> job \<times> bulkEnqueueResult \<Rightarrow> go_err + reply \<Rightarrow> go_err + (bulkEnqueueResult \<times> bool)" where
  "receive_job R jr r =
     (case jr of (j, res) \<Rightarrow>
        if \<not> Unique j then (case r of Inl err \<Rightarrow> Inl err | Inr _ \<Rightarrow> Inr (res, False))
        else
          (case (case r of Inl err \<Rightarrow> Inl err | Inr x \<Rightarrow> lift_err (redis_String R x)) of
             Inl err \<Rightarrow> if is_noscript err then Inr (res, True) else Inl err
           | Inr status \<Rightarrow> Inr (res\<lparr>EnqueueSkipped := (status \<noteq> ''ok'')\<rparr>, False)))"

fun receive_jobs ::
    "'w redis \<Rightarrow> (job \<times> bulkEnqueueResult) list \<Rightarrow> (go_err + reply) list \<Rightarrow> go_err + (bulkEnqueueResult \<times> bool) list" where
  "receive_jobs R (jr # jrs) (r # rs) =
     (case receive_job R jr r of
        Inl err \<Rightarrow> Inl err
      | Inr x \<Rightarrow> (case receive_jobs R jrs rs of Inl err \<Rightarrow> Inl err | Inr xs \<Rightarrow> Inr (x # xs)))"
| "receive_jobs R _ _ = Inr []"

text \<open>The second round, for the jobs whose script was missing: \<open>EVAL\<close>.\<close>

fun second_results ::
    "'w redis \<Rightarrow> (bulkEnqueueResult \<times> bool) list \<Rightarrow> (go_err + reply) list \<Rightarrow> go_err + bulkEnqueueResult list" where
  "second_results R [] rs = Inr []"
| "second_results R ((res, missing) # xs) rs =
     (if \<not> missing then map_sum id (Cons res) (second_results R xs rs)
      else
        (case rs of
           [] \<Rightarrow> Inl (RedisErr NetErr)
         | r # rs' \<Rightarrow>
             (case (case r of Inl err \<Rightarrow> Inl err | Inr x \<Rightarrow> lift_err (redis_String R x)) of
                Inl err \<Rightarrow> Inl err
              | Inr status \<Rightarrow>
                  map_sum id (Cons (res\<lparr>EnqueueSkipped := (status \<noteq> ''ok'')\<rparr>)) (second_results R xs rs'))))"

definition bulk_second ::
    "'w redis \<Rightarrow> enqueuer \<Rightarrow> (bulkEnqueueParam \<times> job) list \<Rightarrow> (bulkEnqueueResult \<times> bool) list \<Rightarrow>
     ('w, bulkEnqueueResult list) go" where
  "bulk_second R e pjs xs = (\<lambda>w.
     let again = map fst (filter (\<lambda>(pj, x). snd x) (zip pjs xs)) in
     if again = [] then (Inr (map fst xs), w)
     else
       (case pipeline R (map (\<lambda>(p, j). run_script (bulkUniqueHelper R e p j)) again @ sendWait R e) w of (rs, w') \<Rightarrow>
          (case second_results R xs rs of
             Inl err \<Rightarrow> (Inl err, w')
           | Inr results \<Rightarrow>
               (case receiveWait R e (drop (length again) rs) of
                  Inl err \<Rightarrow> (Inl err, w')
                | Inr _ \<Rightarrow> (Inr results, w')))))"

text \<open>
  \<open>idents\<close> are the identifiers of the jobs, \<open>loaded\<close> says for each job whether the server has its
  script.
\<close>

definition BulkEnqueue ::
    "'w redis \<Rightarrow> int \<Rightarrow> int \<Rightarrow> string list \<Rightarrow> bool list \<Rightarrow> bulkEnqueueParam list \<Rightarrow>
     (enqueuer \<times> 'w, bulkEnqueueResult list) go" where
  "BulkEnqueue R now now' idents loaded params = (\<lambda>(e, w).
     case build_all (Namespace e) now (zip idents params) of
       None \<Rightarrow> (Inl MarshalErr, (e, w))
     | Some jrs \<Rightarrow>
         (let pjs = zip params (map fst jrs);
              reqs = map (\<lambda>(l, p, j). bulk_request R e l p j) (zip loaded pjs);
              names = pendingJobNames e now' params in
          case pipeline R (reqs @ sendBulkKnownJobs R e names @ sendWait R e) w of (rs, w') \<Rightarrow>
            (case receive_jobs R jrs rs of
               Inl err \<Rightarrow> (Inl err, (e, w'))
             | Inr xs \<Rightarrow>
                 (let rs1 = drop (length reqs) rs; known = (if names = [] then Inr () else map_sum id (\<lambda>_. ()) (hd rs1)) in
                  case known of
                    Inl err \<Rightarrow> (Inl err, (e, w'))
                  | Inr _ \<Rightarrow>
                      (let e' = mark_known now' names e; rs2 = (if names = [] then rs1 else tl rs1) in
                       case receiveWait R e rs2 of
                         Inl err \<Rightarrow> (Inl err, (e', w'))
                       | Inr _ \<Rightarrow> on_world (bulk_second R e pjs xs) (e', w'))))))"

end
