(* ===== verification/Enqueuer_Facts.thy ===== *)
theory Enqueuer_Facts
  imports Enqueuer
begin

text \<open>
  What the enqueuer does to Redis. On a connection that is up, every operation leaves exactly the
  job it promises, and a bulk enqueue is the sequence of its single ones; on a connection that
  fails, a job is pushed at most once.
\<close>

section \<open>Enqueueing on a connection that is up\<close>

definition enq_wf :: "enqueuer \<Rightarrow> bool" where
  "enq_wf e \<longleftrightarrow> queuePrefix e = redisKeyJobsPrefix (Namespace e)"

lemma enq_wf_new: "enq_wf (NewEnqueuerWithOptions ns opt)"
  by (simp add: enq_wf_def NewEnqueuerWithOptions_def)

lemma enq_queue: "enq_wf e \<Longrightarrow> queuePrefix e @ jobName = redisKeyJobs (Namespace e) jobName"
  by (simp add: enq_wf_def redisKeyJobs_def)

abbreviation sadd_key :: "string \<Rightarrow> string list \<Rightarrow> keyspace \<Rightarrow> keyspace" where
  "sadd_key k xs db \<equiv> upd k (vset (smem db k \<union> set xs)) db"

definition fresh_known :: "enqueuer \<Rightarrow> int \<Rightarrow> string \<Rightarrow> bool" where
  "fresh_known e now jobName = (case knownJobs e jobName of None \<Rightarrow> False | Some t \<Rightarrow> now < t)"

definition known_enq :: "int \<Rightarrow> string \<Rightarrow> enqueuer \<Rightarrow> enqueuer" where
  "known_enq now jobName e =
     (if fresh_known e now jobName then e else e\<lparr>knownJobs := (knownJobs e)(jobName \<mapsto> now + 300)\<rparr>)"

definition known_db :: "enqueuer \<Rightarrow> int \<Rightarrow> string \<Rightarrow> keyspace \<Rightarrow> keyspace" where
  "known_db e now jobName d =
     (if fresh_known e now jobName then d else sadd_key (redisKeyKnownJobs (Namespace e)) [jobName] d)"

lemma known_db_other: "k \<noteq> redisKeyKnownJobs (Namespace e) \<Longrightarrow> kv (known_db e now jobName d) k = kv d k"
  by (simp add: known_db_def obs_simps)

lemma known_jobs_other:
  "redisKeyJobs ns n \<noteq> redisKeyKnownJobs ns" "redisKeyScheduled ns \<noteq> redisKeyKnownJobs ns"
  by (simp_all add: redisKeyJobs_def redisKeyJobsPrefix_def redisKeyKnownJobs_def redisKeyScheduled_def)

context redis_link
begin

lemma known_jobs_added:
  assumes "set_type (kv d (redisKeyKnownJobs (Namespace e)))"
  shows "returns (view2 db up) (addToKnownJobs R now jobName) (e, d) (Inr ())
    (known_enq now jobName e, known_db e now jobName d)"
proof -
  let ?k = "redisKeyKnownJobs (Namespace e)"
  obtain n where "call R (SADD ?k [jobName]) d = (RInt n, sadd_key ?k [jobName] d)"
    using sadd [OF assms] by blast
  from returns_Do [OF this] have "returns (view db up) (conn_Do R (SADD ?k [jobName])) d (Inr (RInt n)) (sadd_key ?k [jobName] d)"
    by simp
  then have "\<exists>w'. conn_Do R (SADD ?k [jobName]) w = (Inr (RInt n), w') \<and> view db up w' = Some (sadd_key ?k [jobName] d)"
    if "view db up w = Some d" for w using that by (rule returnsD)
  then show ?thesis
    by (fastforce simp: returns_def view_def view2_def addToKnownJobs_def known_enq_def known_db_def
        fresh_known_def split: if_splits option.splits)
qed

lemma redisDoHelper_up:
  assumes "call R c d = (r, d')" and "\<not> is_err r"
  shows "returns (view db up) (redisDoHelper R e c) d (Inr r) d' \<or>
    (MinWaitEnabled e \<and> returns (view db up) (redisDoHelper R e c) d (Inl ErrReplicationFailed) d')"
proof -
  obtain n where n: "call R (wait_cmd e) d' = (RInt n, d')"
    using wait unfolding wait_cmd_def by blast
  let ?ok = "\<not> MinWaitEnabled e \<or> MinWaitReplicas (EnqOption e) \<le> n"
  have "run_all (call R c # sendWait R e) d = (r # (if MinWaitEnabled e then [RInt n] else []), d')"
    using assms n by (simp add: sendWait_def)
  from pipeline_up [OF _ this]
  have p: "\<exists>w'. pipeline R (call R c # sendWait R e) w =
      (Inr r # (if MinWaitEnabled e then [Inr (RInt n)] else []), w') \<and> view db up w' = Some d'"
    if "view db up w = Some d" for w using that assms(2) by fastforce
  have "returns (view db up) (redisDoHelper R e c) d (if ?ok then Inr r else Inl ErrReplicationFailed) d'"
    unfolding returns_def
  proof (intro allI impI)
    fix w assume "view db up w = Some d"
    from p [OF this] show "\<exists>w'. redisDoHelper R e c w = (if ?ok then Inr r else Inl ErrReplicationFailed, w') \<and>
        view db up w' = Some d'"
      by (auto simp: redisDoHelper_def receiveWait_def check_replicas_def Int64_int)
  qed
  then show ?thesis by (auto split: if_splits)
qed

lemma enqueue_up:
  assumes "call R c d = (r, d')" and "\<not> is_err r" and "set_type (kv d' (redisKeyKnownJobs (Namespace e)))"
  shows "returns (view2 db up)
      (ebind (map_err (\<lambda>err. (err, None)) (on_world (redisDoHelper R e c))) (\<lambda>_.
       ebind (map_err (\<lambda>err. (err, Some x)) (addToKnownJobs R now' jobName)) (\<lambda>_. eret x)))
      (e, d) (Inr x) (known_enq now' jobName e, known_db e now' jobName d') \<or>
    MinWaitEnabled e \<and> returns (view2 db up)
      (ebind (map_err (\<lambda>err. (err, None)) (on_world (redisDoHelper R e c))) (\<lambda>_.
       ebind (map_err (\<lambda>err. (err, Some x)) (addToKnownJobs R now' jobName)) (\<lambda>_. eret x)))
      (e, d) (Inl (ErrReplicationFailed, None)) (e, d')"
  using redisDoHelper_up [OF assms(1,2), of e]
proof (elim disjE conjE)
  assume "returns (view db up) (redisDoHelper R e c) d (Inr r) d'"
  from returns_map_err [OF returns_on_world [OF this], of "\<lambda>err. (err, None)" e]
    returns_map_err [OF known_jobs_added [OF assms(3)], of "\<lambda>err. (err, Some x)" now' jobName]
  show ?thesis by (auto intro!: returns_bind returns_eret)
next
  assume "MinWaitEnabled e" "returns (view db up) (redisDoHelper R e c) d (Inl ErrReplicationFailed) d'"
  with returns_map_err [OF returns_on_world [OF this(2)], of "\<lambda>err. (err, None)" e]
  show ?thesis by (auto intro!: returns_bind_fail)
qed

end

lemma Enqueue_run:
  assumes "enq_wf e" and "job = fresh_job jobName ident now args" and "serialize job = Some raw"
    and "q = redisKeyJobs (Namespace e) jobName"
  shows "Enqueue R ident now now' jobName args (e, w) =
    ebind (map_err (\<lambda>err. (err, None)) (on_world (redisDoHelper R e (LPUSH q raw)))) (\<lambda>_.
    ebind (map_err (\<lambda>err. (err, Some job)) (addToKnownJobs R now' jobName)) (\<lambda>_. eret job)) (e, w)"
  using assms by (simp add: Enqueue_def enq_queue Let_def)

context redis_link
begin

lemma Enqueue_up:
  assumes "up w" and "enq_wf e" and "job = fresh_job jobName ident now args" and "serialize job = Some raw"
    and "q = redisKeyJobs (Namespace e) jobName"
    and "list_type (kv (db w) q)" and "set_type (kv (db w) (redisKeyKnownJobs (Namespace e)))"
  shows "\<exists>r e' w'. Enqueue R ident now now' jobName args (e, w) = (r, (e', w')) \<and> up w' \<and>
    (r = Inr job \<and> db w' = known_db e now' jobName (lpush_key q raw (db w)) \<or>
     MinWaitEnabled e \<and> r = Inl (ErrReplicationFailed, None) \<and> db w' = lpush_key q raw (db w))"
proof -
  let ?d = "lpush_key q raw (db w)"
  have t: "set_type (kv ?d (redisKeyKnownJobs (Namespace e)))"
    using assms(5,7) known_jobs_other(1) [of "Namespace e" jobName] by (auto simp: obs_simps)
  have c: "call R (LPUSH q raw) (db w) = (RInt (int (length (lst (db w) q)) + 1), ?d)"
    by (rule lpush [OF assms(6)])
  note E = Enqueue_run [OF assms(2-5)]
  from enqueue_up [OF c _ t, of job now' jobName] show ?thesis
    unfolding E using returns2D [where up = up and db = db and w = w, OF _ assms(1) refl] by fastforce
qed

lemma EnqueueAt_up:
  assumes "up w" and "job = fresh_job jobName ident now args" and "serialize job = Some raw"
    and "z = redisKeyScheduled (Namespace e)"
    and "zset_type (kv (db w) z)" and "set_type (kv (db w) (redisKeyKnownJobs (Namespace e)))" and "score_ok due_at"
  shows "\<exists>r e' w'. EnqueueAt R ident now now' jobName due_at args (e, w) = (r, (e', w')) \<and> up w' \<and>
    (r = Inr \<lparr>RunAt = due_at, SJob = job\<rparr> \<and> db w' = known_db e now' jobName (zadd_key z due_at raw (db w)) \<or>
     MinWaitEnabled e \<and> r = Inl (ErrReplicationFailed, None) \<and> db w' = zadd_key z due_at raw (db w))"
proof -
  let ?d = "zadd_key z due_at raw (db w)" and ?sj = "\<lparr>RunAt = due_at, SJob = job\<rparr>"
  have t: "set_type (kv ?d (redisKeyKnownJobs (Namespace e)))"
    using assms(4,6) known_jobs_other(2) [of "Namespace e"] by (auto simp: obs_simps)
  obtain n where c: "call R (ZADD z due_at raw) (db w) = (RInt n, ?d)" using zadd [OF assms(5,7)] by blast
  have E: "EnqueueAt R ident now now' jobName due_at args (e, w) =
      ebind (map_err (\<lambda>err. (err, None)) (on_world (redisDoHelper R e (ZADD z due_at raw)))) (\<lambda>_.
      ebind (map_err (\<lambda>err. (err, Some ?sj)) (addToKnownJobs R now' jobName)) (\<lambda>_. eret ?sj)) (e, w)"
    using assms(2-4) by (simp add: EnqueueAt_def Let_def)
  from enqueue_up [OF c _ t, of ?sj now' jobName] show ?thesis
    unfolding E using returns2D [where up = up and db = db and w = w, OF _ assms(1) refl] by fastforce
qed

text \<open>A job that cannot be marshalled is refused before anything is sent.\<close>

lemma Enqueue_refused:
  "serialize (fresh_job jobName ident now args) = None \<Longrightarrow>
   Enqueue R ident now now' jobName args (e, w) = (Inl (MarshalErr, None), (e, w))"
  by (simp add: Enqueue_def)

section \<open>Enqueueing on a connection that fails\<close>

lemma wait_pure: "snd (call R (wait_cmd e) d) = d"
  using wait [of _ _ d] unfolding wait_cmd_def by (metis snd_conv)

lemma redisDoHelper_once:
  assumes "redisDoHelper R e c w = (r, w')"
  shows "db w' = db w \<or> db w' = snd (call R c (db w))"
    and "r = Inr x \<Longrightarrow> db w' = snd (call R c (db w))"
proof -
  obtain r1 w1 where e1: "exec_go R (call R c) w = (r1, w1)" by (cases "exec_go R (call R c) w")
  have w1: "db w' = db w1"
  proof (cases "MinWaitEnabled e")
    case True
    obtain r2 w2 where e2: "exec_go R (call R (wait_cmd e)) w1 = (r2, w2)"
      by (cases "exec_go R (call R (wait_cmd e)) w1")
    have "db w2 = db w1" using exec_go_once [OF e2] wait_pure by metis
    moreover have "w' = w2" using assms e1 e2 True
      by (auto simp: redisDoHelper_def sendWait_def split: sum.splits)
    ultimately show ?thesis by simp
  next
    case False
    then show ?thesis using assms e1
      by (auto simp: redisDoHelper_def sendWait_def split: sum.splits)
  qed
  show "db w' = db w \<or> db w' = snd (call R c (db w))" using exec_go_once [OF e1] w1 by simp
  show "db w' = snd (call R c (db w))" if "r = Inr x"
  proof -
    from that assms e1 obtain y where "r1 = Inr y"
      by (cases r1) (auto simp: redisDoHelper_def split: prod.splits sum.splits)
    then show ?thesis using exec_go_done [of "call R c" w y w1] e1 w1 by simp
  qed
qed

lemma addToKnownJobs_other:
  assumes "addToKnownJobs R now jobName (e, w) = (r, (e', w'))"
    and "set_type (kv (db w) (redisKeyKnownJobs (Namespace e)))" and "k \<noteq> redisKeyKnownJobs (Namespace e)"
  shows "kv (db w') k = kv (db w) k"
proof -
  let ?c = "SADD (redisKeyKnownJobs (Namespace e)) [jobName]"
  have "snd (call R ?c (db w)) = sadd_key (redisKeyKnownJobs (Namespace e)) [jobName] (db w)"
    using sadd [OF assms(2)] by (metis snd_conv)
  moreover have "w' = w \<or> (\<exists>r. exec_go R (call R ?c) w = (r, w'))"
    using assms(1) by (auto simp: addToKnownJobs_def conn_Do_def split: if_splits prod.splits sum.splits)
  ultimately show ?thesis using exec_go_once [of "call R ?c" w] assms(3) by (auto simp: obs_simps)
qed

text \<open>
  However the connection behaves, \<open>Enqueue\<close> pushes the job at most once, and a success means it
  was pushed.
\<close>

lemma Enqueue_once:
  assumes "enq_wf e" and "job = fresh_job jobName ident now args" and "serialize job = Some raw"
    and "q = redisKeyJobs (Namespace e) jobName"
    and "list_type (kv (db w) q)" and "set_type (kv (db w) (redisKeyKnownJobs (Namespace e)))"
    and "Enqueue R ident now now' jobName args (e, w) = (r, (e', w'))"
  shows "lst (db w') q = lst (db w) q \<or> lst (db w') q = raw # lst (db w) q"
    and "r = Inr x \<Longrightarrow> lst (db w') q = raw # lst (db w) q"
    and "k \<noteq> q \<Longrightarrow> k \<noteq> redisKeyKnownJobs (Namespace e) \<Longrightarrow> kv (db w') k = kv (db w) k"
proof -
  have neq: "q \<noteq> redisKeyKnownJobs (Namespace e)" using assms(4) known_jobs_other(1) by simp
  obtain r1 w1 where h: "redisDoHelper R e (LPUSH q raw) w = (r1, w1)"
    by (cases "redisDoHelper R e (LPUSH q raw) w")
  have push: "snd (call R (LPUSH q raw) (db w)) = lpush_key q raw (db w)"
    using lpush [OF assms(5)] by simp
  note E = Enqueue_run [OF assms(1-4)]
  have w1: "db w1 = db w \<or> db w1 = lpush_key q raw (db w)" "r1 = Inr y \<Longrightarrow> db w1 = lpush_key q raw (db w)" for y
    using redisDoHelper_once [OF h] push by auto
  have "(w' = w1 \<and> (\<forall>x. r \<noteq> Inr x)) \<or>
      (\<exists>y r2. r1 = Inr y \<and> addToKnownJobs R now' jobName (e, w1) = (r2, (e', w')))"
    using assms(7) h unfolding E
    by (auto simp: ebind_def map_err_def on_world_def eret_def split: prod.splits sum.splits)
  then have cases: "(db w' = db w1 \<and> (\<forall>x. r \<noteq> Inr x)) \<or>
      db w1 = lpush_key q raw (db w) \<and> (\<forall>k. k \<noteq> redisKeyKnownJobs (Namespace e) \<longrightarrow> kv (db w') k = kv (db w1) k)"
    using addToKnownJobs_other [of now' jobName e w1 _ e' w'] w1 assms(6) neq
    by (auto simp: obs_simps)
  then show "lst (db w') q = lst (db w) q \<or> lst (db w') q = raw # lst (db w) q"
    "k \<noteq> q \<Longrightarrow> k \<noteq> redisKeyKnownJobs (Namespace e) \<Longrightarrow> kv (db w') k = kv (db w) k"
    using w1(1) neq by (auto simp: obs_simps)
  show "lst (db w') q = raw # lst (db w) q" if "r = Inr x"
    using cases that neq by (simp add: obs_simps)
qed

end

section \<open>Unique jobs on a connection that is up\<close>

lemma unique_key_other:
  assumes "redisKeyUniqueJob ns n a = Some uk"
  shows "redisKeyJobs ns m \<noteq> uk" "redisKeyScheduled ns \<noteq> uk" "redisKeyKnownJobs ns \<noteq> uk"
proof -
  obtain x where "uk = redisNamespacePrefix ns @ ''unique:'' @ n @ CHR '':'' # x"
    using assms by (auto simp: redisKeyUniqueJob_def Let_def split: option.splits)
  then show "redisKeyJobs ns m \<noteq> uk" "redisKeyScheduled ns \<noteq> uk" "redisKeyKnownJobs ns \<noteq> uk"
    by (simp_all add: redisKeyJobs_def redisKeyJobsPrefix_def redisKeyScheduled_def redisKeyKnownJobs_def)
qed

lemma known_enq_fields [simp]:
  "Namespace (known_enq now n e) = Namespace e" "queuePrefix (known_enq now n e) = queuePrefix e"
  "EnqOption (known_enq now n e) = EnqOption e"
  by (simp_all add: known_enq_def)

lemma uniqueJobHelper_key:
  "uniqueJobHelper ns ident now jobName args keyMap = Inr (uk, job, raw, updated) \<Longrightarrow>
   \<exists>a. redisKeyUniqueJob ns jobName a = Some uk"
  by (auto simp: uniqueJobHelper_def Let_def split: option.splits if_splits)

context redis_link
begin

text \<open>The script that the closure sends, and the closure itself.\<close>

lemma enqueueFn_up:
  fixes runAt :: "int option"
  defines "script e uk jobName raw updated \<equiv>
    (case runAt of
       None \<Rightarrow> redisLuaEnqueueUnique R (queuePrefix e @ jobName) uk raw updated
     | Some t \<Rightarrow> redisLuaEnqueueUniqueIn R (redisKeyScheduled (Namespace e)) uk raw updated t)"
  assumes "set_type (kv d (redisKeyKnownJobs (Namespace e)))"
    and "script e uk jobName raw updated (known_db e now' jobName d) = (Inr (RBulk status), d')"
  shows "returns (view2 db up) (enqueueFn R now' jobName uk raw updated runAt) (e, d)
      (Inr status) (known_enq now' jobName e, d') \<or>
    MinWaitEnabled e \<and> returns (view2 db up) (enqueueFn R now' jobName uk raw updated runAt) (e, d)
      (Inl ErrReplicationFailed) (known_enq now' jobName e, d')"
proof -
  let ?e = "known_enq now' jobName e"
  let ?fin = "\<lambda>status. if MinWaitEnabled ?e then ebind (conn_Do R (wait_cmd ?e)) (\<lambda>n.
      ebind (received (check_replicas R ?e n)) (\<lambda>_. eret status)) else eret status"
  have same: "MinWaitEnabled ?e = MinWaitEnabled e" "wait_cmd ?e = wait_cmd e"
    by (simp_all add: MinWaitEnabled_def wait_cmd_def)
  obtain n where n: "call R (wait_cmd e) d' = (RInt n, d')"
    using wait unfolding wait_cmd_def by blast
  have fin: "returns (view db up) (?fin status) d'
      (if MinWaitEnabled e \<and> n < MinWaitReplicas (EnqOption e) then Inl ErrReplicationFailed else Inr status) d'"
    using returns_Do [OF n] unfolding same
    by (auto simp: returns_eret check_replicas_def Int64_int received_def returns_def act_simps
        intro!: returns_bind [of _ "conn_Do R (wait_cmd e)" d' "RInt n" d'])
  have "returns (view db up) (script_Do R (script e uk jobName raw updated)) (known_db e now' jobName d)
      (Inr (RBulk status)) d'"
    using returns_script [of "script e uk jobName raw updated" "known_db e now' jobName d" "RBulk status" d'] assms(3)
    by simp
  then have "returns (view db up)
      (ebind (script_Do R (script e uk jobName raw updated)) (\<lambda>r. ebind (conv (redis_String R) r) ?fin))
      (known_db e now' jobName d)
      (if MinWaitEnabled e \<and> n < MinWaitReplicas (EnqOption e) then Inl ErrReplicationFailed else Inr status) d'"
    using fin by (blast intro: returns_bind returns_conv String_bulk)
  then have "returns (view2 db up) (enqueueFn R now' jobName uk raw updated runAt) (e, d)
      (if MinWaitEnabled e \<and> n < MinWaitReplicas (EnqOption e) then Inl ErrReplicationFailed else Inr status)
      (?e, d')"
    unfolding enqueueFn_def script_def
    by (intro returns_bind [OF known_jobs_added [OF assms(2)]] returns_state returns_on_world)
      (simp cong: option.case_cong)
  then show ?thesis by (auto split: if_splits)
qed

text \<open>What a unique enqueue leaves behind: the payload, and the job if there was none yet.\<close>

lemma EnqueueUniqueByKey_up:
  assumes "up w" and "enq_wf e" and "uniqueJobHelper (Namespace e) ident now jobName args keyMap = Inr (uk, job, raw, updated)"
    and "q = redisKeyJobs (Namespace e) jobName"
    and "list_type (kv (db w) q)" and "set_type (kv (db w) (redisKeyKnownJobs (Namespace e)))"
    and "d = set_unique uk updated (known_db e now' jobName (db w))"
  shows "\<exists>r e' w'. EnqueueUniqueByKey R ident now now' jobName args keyMap (e, w) = (r, (e', w')) \<and> up w' \<and>
    db w' = (if kv (db w) uk = None then lpush_key q raw d else d) \<and>
    (r = Inr (if kv (db w) uk = None then Some job else None) \<or> MinWaitEnabled e \<and> r = Inl ErrReplicationFailed)"
proof -
  obtain a where "redisKeyUniqueJob (Namespace e) jobName a = Some uk" using uniqueJobHelper_key [OF assms(3)] by blast
  note neq = unique_key_other [OF this]
  let ?new = "kv (db w) uk = None"
  let ?status = "if ?new then ''ok'' else ''dup''"
  let ?d' = "if ?new then lpush_key q raw d else d"
  have k: "kv (known_db e now' jobName (db w)) uk = kv (db w) uk"
    "kv (known_db e now' jobName (db w)) q = kv (db w) q"
    using neq(3) known_jobs_other(1) by (simp_all add: known_db_other assms(4) not_sym)
  then have "redisLuaEnqueueUnique R (queuePrefix e @ jobName) uk raw updated (known_db e now' jobName (db w)) =
      (Inr (RBulk ?status), ?d')"
    using assms(2,4,5,7) neq(1) by (auto simp: enq_queue enqueue_unique_new enqueue_unique_dup)
  then have "returns (view2 db up) (enqueueFn R now' jobName uk raw updated None) (e, db w)
      (Inr ?status) (known_enq now' jobName e, ?d') \<or>
    MinWaitEnabled e \<and> returns (view2 db up) (enqueueFn R now' jobName uk raw updated None) (e, db w)
      (Inl ErrReplicationFailed) (known_enq now' jobName e, ?d')"
    by (intro enqueueFn_up [OF assms(6)]) simp
  then show ?thesis
  proof (elim disjE conjE)
    assume "returns (view2 db up) (enqueueFn R now' jobName uk raw updated None) (e, db w)
      (Inr ?status) (known_enq now' jobName e, ?d')"
    from returns2D [OF this assms(1) refl] show ?thesis
      using assms(3) by (auto simp: EnqueueUniqueByKey_def act_simps)
  next
    assume "MinWaitEnabled e" "returns (view2 db up) (enqueueFn R now' jobName uk raw updated None) (e, db w)
      (Inl ErrReplicationFailed) (known_enq now' jobName e, ?d')"
    with returns2D [OF this(2) assms(1) refl] show ?thesis
      using assms(3) by (auto simp: EnqueueUniqueByKey_def act_simps)
  qed
qed

lemma EnqueueUniqueAtByKey_up:
  assumes "up w" and "uniqueJobHelper (Namespace e) ident now jobName args keyMap = Inr (uk, job, raw, updated)"
    and "z = redisKeyScheduled (Namespace e)"
    and "zset_type (kv (db w) z)" and "set_type (kv (db w) (redisKeyKnownJobs (Namespace e)))"
    and "d = set_unique uk updated (known_db e now' jobName (db w))" and "score_ok due_at"
  shows "\<exists>r e' w'. EnqueueUniqueAtByKey R ident now now' jobName due_at args keyMap (e, w) = (r, (e', w')) \<and> up w' \<and>
    db w' = (if kv (db w) uk = None then zadd_key z due_at raw d else d) \<and>
    (r = Inr (if kv (db w) uk = None then Some \<lparr>RunAt = due_at, SJob = job\<rparr> else None) \<or>
     MinWaitEnabled e \<and> r = Inl ErrReplicationFailed)"
proof -
  obtain a where "redisKeyUniqueJob (Namespace e) jobName a = Some uk" using uniqueJobHelper_key [OF assms(2)] by blast
  note neq = unique_key_other [OF this]
  let ?new = "kv (db w) uk = None"
  let ?status = "if ?new then ''ok'' else ''dup''"
  let ?d' = "if ?new then zadd_key z due_at raw d else d"
  have k: "kv (known_db e now' jobName (db w)) uk = kv (db w) uk"
    "kv (known_db e now' jobName (db w)) z = kv (db w) z"
    using neq(3) known_jobs_other(2) by (simp_all add: known_db_other assms(3) not_sym)
  then have "redisLuaEnqueueUniqueIn R (redisKeyScheduled (Namespace e)) uk raw updated due_at
      (known_db e now' jobName (db w)) = (Inr (RBulk ?status), ?d')"
    using assms(3,4,6,7) neq(2) by (auto simp: enqueue_unique_in_new enqueue_unique_in_dup)
  then have "returns (view2 db up) (enqueueFn R now' jobName uk raw updated (Some due_at)) (e, db w)
      (Inr ?status) (known_enq now' jobName e, ?d') \<or>
    MinWaitEnabled e \<and> returns (view2 db up) (enqueueFn R now' jobName uk raw updated (Some due_at)) (e, db w)
      (Inl ErrReplicationFailed) (known_enq now' jobName e, ?d')"
    by (intro enqueueFn_up [OF assms(5)]) simp
  then show ?thesis
  proof (elim disjE conjE)
    assume "returns (view2 db up) (enqueueFn R now' jobName uk raw updated (Some due_at)) (e, db w)
      (Inr ?status) (known_enq now' jobName e, ?d')"
    from returns2D [OF this assms(1) refl] show ?thesis
      using assms(2) by (auto simp: EnqueueUniqueAtByKey_def act_simps Let_def)
  next
    assume "MinWaitEnabled e" "returns (view2 db up) (enqueueFn R now' jobName uk raw updated (Some due_at)) (e, db w)
      (Inl ErrReplicationFailed) (known_enq now' jobName e, ?d')"
    with returns2D [OF this(2) assms(1) refl] show ?thesis
      using assms(2) by (auto simp: EnqueueUniqueAtByKey_def act_simps Let_def)
  qed
qed

end

section \<open>Bulk enqueueing as a sequence of single ones\<close>

text \<open>The effect of one parameter, and whether its job is skipped.\<close>

definition bulk_push :: "string \<Rightarrow> bulkEnqueueParam \<Rightarrow> job \<Rightarrow> keyspace \<Rightarrow> keyspace" where
  "bulk_push ns p j d =
     (if RunAtEpoch p \<noteq> 0 then zadd_key (redisKeyScheduled ns) (RunAtEpoch p) (rawJSON j) d
      else lpush_key (redisKeyJobs ns (BName p)) (rawJSON j) d)"

definition bulk_skipped :: "bulkEnqueueParam \<Rightarrow> job \<Rightarrow> keyspace \<Rightarrow> bool" where
  "bulk_skipped p j d \<longleftrightarrow> BUnique p \<and> kv d (UniqueKey j) \<noteq> None"

definition bulk_effect :: "string \<Rightarrow> bulkEnqueueParam \<Rightarrow> job \<Rightarrow> keyspace \<Rightarrow> keyspace" where
  "bulk_effect ns p j d =
     (let d' = (if BUnique p then set_unique (UniqueKey j) (if UniqueKeyMap p \<noteq> None then rawJSON j else ''1'') d else d)
      in if bulk_skipped p j d then d' else bulk_push ns p j d')"

fun bulk_spec ::
    "string \<Rightarrow> (bulkEnqueueParam \<times> job \<times> bulkEnqueueResult) list \<Rightarrow> keyspace \<Rightarrow> bulkEnqueueResult list \<times> keyspace" where
  "bulk_spec ns [] d = ([], d)"
| "bulk_spec ns ((p, j, res) # xs) d =
     (case bulk_spec ns xs (bulk_effect ns p j d) of (results, d') \<Rightarrow>
        (res\<lparr>EnqueueSkipped := bulk_skipped p j d\<rparr> # results, d'))"

definition bulk_typed :: "string \<Rightarrow> string set \<Rightarrow> keyspace \<Rightarrow> bool" where
  "bulk_typed ns names d \<longleftrightarrow>
     (\<forall>n\<in>names. list_type (kv d (redisKeyJobs ns n))) \<and> zset_type (kv d (redisKeyScheduled ns)) \<and>
     set_type (kv d (redisKeyKnownJobs ns))"

text \<open>What \<open>buildJobAndResult\<close> guarantees of an item.\<close>

definition bulk_item :: "string \<Rightarrow> bulkEnqueueParam \<times> job \<times> bulkEnqueueResult \<Rightarrow> bool" where
  "bulk_item ns x = (case x of (p, j, res) \<Rightarrow>
     score_ok (RunAtEpoch p) \<and> Name j = BName p \<and> Unique j = BUnique p \<and> \<not> EnqueueSkipped res \<and>
     (BUnique p \<longrightarrow> (\<exists>a. redisKeyUniqueJob ns (BName p) a = Some (UniqueKey j))))"

lemma buildJobAndResult_item: "score_ok (RunAtEpoch p) \<Longrightarrow> buildJobAndResult ns now ident p = Some (j, res) \<Longrightarrow> bulk_item ns (p, j, res)"
  by (auto simp: buildJobAndResult_def buildUniqueKey_def bulk_item_def fresh_job_def Let_def
      split: option.splits if_splits)

lemma scheduled_other: "redisKeyScheduled ns \<noteq> redisKeyJobs ns n" "redisKeyJobs ns n \<noteq> redisKeyScheduled ns"
  by (auto simp: redisKeyJobs_def redisKeyJobsPrefix_def redisKeyScheduled_def)

lemmas enq_keys = scheduled_other known_jobs_other known_jobs_other [symmetric]

lemma bulk_typed_effect:
  assumes "bulk_item ns (p, j, res)" and "bulk_typed ns names d"
  shows "bulk_typed ns names (bulk_effect ns p j d)"
proof (cases "BUnique p")
  case False
  with assms show ?thesis
    by (auto simp: bulk_typed_def bulk_effect_def bulk_push_def bulk_skipped_def obs_simps enq_keys)
next
  case True
  then obtain a where a: "redisKeyUniqueJob ns (BName p) a = Some (UniqueKey j)"
    using assms(1) by (auto simp: bulk_item_def)
  with True assms(2) show ?thesis
    by (auto simp: bulk_typed_def bulk_effect_def bulk_push_def bulk_skipped_def obs_simps Let_def
        enq_keys unique_key_other [OF a])
qed

context redis_link
begin

lemma bulk_request_effect:
  assumes "enq_wf e" and "ns = Namespace e" and "bulk_item ns (p, j, res)"
    and "bulk_typed ns names d" and "BName p \<in> names"
  shows "\<exists>r. bulk_request R e True p j d = (r, bulk_effect ns p j d) \<and> \<not> is_err r \<and>
    receive_job R (j, res) (Inr r) = Inr (res\<lparr>EnqueueSkipped := bulk_skipped p j d\<rparr>, False)"
proof (cases "BUnique p")
  case False
  have l: "list_type (kv d (redisKeyJobs ns (BName p)))" and z: "zset_type (kv d (redisKeyScheduled ns))"
    using assms(4,5) by (auto simp: bulk_typed_def)
  have u: "\<not> Unique j" "res\<lparr>EnqueueSkipped := False\<rparr> = res" using False assms(3) by (auto simp: bulk_item_def)
  show ?thesis
  proof (cases "RunAtEpoch p = 0")
    case True
    with False u show ?thesis using lpush [OF l, of "rawJSON j"] assms(1,2)
      by (simp add: bulk_request_def bulk_effect_def bulk_push_def bulk_skipped_def enq_queue receive_job_def)
  next
    case late: False
    have "score_ok (RunAtEpoch p)" using assms(3) by (simp add: bulk_item_def)
    then obtain n where "call R (ZADD (redisKeyScheduled ns) (RunAtEpoch p) (rawJSON j)) d =
        (RInt n, zadd_key (redisKeyScheduled ns) (RunAtEpoch p) (rawJSON j) d)" using zadd [OF z] by blast
    with False late u assms(2) show ?thesis
      by (simp add: bulk_request_def bulk_effect_def bulk_push_def bulk_skipped_def receive_job_def)
  qed
next
  case True
  then obtain a where a: "redisKeyUniqueJob ns (BName p) a = Some (UniqueKey j)"
    using assms(3) by (auto simp: bulk_item_def)
  have l: "list_type (kv d (redisKeyJobs ns (BName p)))" and z: "zset_type (kv d (redisKeyScheduled ns))"
    using assms(4,5) by (auto simp: bulk_typed_def)
  have n: "Name j = BName p" "Unique j" "score_ok (RunAtEpoch p)" using assms(3) True by (auto simp: bulk_item_def)
  let ?status = "if bulk_skipped p j d then ''dup'' else ''ok''"
  have "bulkUniqueHelper R e p j d = (Inr (RBulk ?status), bulk_effect ns p j d)"
    using assms(1,2) True l z n
    by (auto simp: unique_key_other [OF a [unfolded assms(2)]] bulkUniqueHelper_def bulk_effect_def bulk_push_def bulk_skipped_def enq_queue Let_def
        enqueue_unique_new enqueue_unique_dup enqueue_unique_in_new enqueue_unique_in_dup)
  then have "bulk_request R e True p j d = (RBulk ?status, bulk_effect ns p j d)"
    using True by (simp add: bulk_request_def evalsha_def run_script_Inr)
  moreover have "receive_job R (j, res) (Inr (RBulk ?status)) = Inr (res\<lparr>EnqueueSkipped := bulk_skipped p j d\<rparr>, False)"
    using n by (simp add: receive_job_def lift_err_def String_bulk)
  ultimately show ?thesis by auto
qed

lemma bulk_requests_effect:
  assumes "enq_wf e" and "ns = Namespace e" and "\<forall>x\<in>set xs. bulk_item ns x \<and> BName (fst x) \<in> names"
    and "bulk_typed ns names d"
  shows "\<exists>rs. run_all (map (\<lambda>(p, j, res). bulk_request R e True p j) xs) d = (rs, snd (bulk_spec ns xs d)) \<and>
    length rs = length xs \<and> bulk_typed ns names (snd (bulk_spec ns xs d)) \<and>
    receive_jobs R (map snd xs) (map (\<lambda>r. lift_err (answer r)) rs @ rest) =
      Inr (map (\<lambda>res. (res, False)) (fst (bulk_spec ns xs d)))"
  using assms(3,4)
proof (induction xs arbitrary: d)
  case Nil
  then show ?case by simp
next
  case (Cons x xs)
  obtain p j res where x: "x = (p, j, res)" by (cases x)
  have i: "bulk_item ns (p, j, res)" "BName p \<in> names" using Cons.prems x by auto
  from bulk_request_effect [OF assms(1,2) i(1) Cons.prems(2) i(2)] obtain r where
    r: "bulk_request R e True p j d = (r, bulk_effect ns p j d)" "\<not> is_err r"
      "receive_job R (j, res) (Inr r) = Inr (res\<lparr>EnqueueSkipped := bulk_skipped p j d\<rparr>, False)" by blast
  have "\<forall>x\<in>set xs. bulk_item ns x \<and> BName (fst x) \<in> names" using Cons.prems by simp
  from Cons.IH [OF this bulk_typed_effect [OF i(1) Cons.prems(2)]] obtain rs where
    "run_all (map (\<lambda>(p, j, res). bulk_request R e True p j) xs) (bulk_effect ns p j d) =
      (rs, snd (bulk_spec ns xs (bulk_effect ns p j d)))" "length rs = length xs"
    "bulk_typed ns names (snd (bulk_spec ns xs (bulk_effect ns p j d)))"
    "receive_jobs R (map snd xs) (map (\<lambda>r. lift_err (answer r)) rs @ rest) =
      Inr (map (\<lambda>res. (res, False)) (fst (bulk_spec ns xs (bulk_effect ns p j d))))" by blast
  with r x show ?case by (cases "bulk_spec ns xs (bulk_effect ns p j d)") simp
qed

end

lemma build_all_items:
  "build_all ns now (zip idents params) = Some jrs \<Longrightarrow> length idents = length params \<Longrightarrow>
   \<forall>p\<in>set params. score_ok (RunAtEpoch p) \<Longrightarrow>
   length jrs = length params \<and> (\<forall>x\<in>set (zip params jrs). bulk_item ns x)"
proof (induction params arbitrary: idents jrs)
  case (Cons p params)
  then obtain ident idents' where "idents = ident # idents'" by (cases idents) auto
  with Cons show ?case by (auto split: option.splits dest: buildJobAndResult_item)
qed simp

lemma bulk_requests_zip:
  assumes "length jrs = length params"
  shows "map (\<lambda>(l, p, j). bulk_request R e l p j) (zip (replicate (length params) True) (zip params (map fst jrs))) =
    map (\<lambda>(p, j, res). bulk_request R e True p j) (zip params jrs)"
  using assms by (induction params jrs rule: list_induct2') auto

lemma bulk_second_none:
  "length xs = length pjs \<Longrightarrow> bulk_second R e pjs (map (\<lambda>res. (res, False)) xs) w = (Inr xs, w)"
proof -
  have "filter (\<lambda>(pj, x). snd x) (zip pjs (map (\<lambda>res. (res, False)) xs)) = []"
    by (auto simp: filter_empty_conv dest: set_zip_rightD)
  then show ?thesis by (simp add: bulk_second_def o_def)
qed

lemma length_bulk_spec: "length (fst (bulk_spec ns xs d)) = length xs"
  by (induction ns xs d rule: bulk_spec.induct) (auto split: prod.splits)

definition bulk_known :: "enqueuer \<Rightarrow> int \<Rightarrow> bulkEnqueueParam list \<Rightarrow> keyspace \<Rightarrow> keyspace" where
  "bulk_known e now params d =
     (let names = pendingJobNames e now params in
      if names = [] then d else sadd_key (redisKeyKnownJobs (Namespace e)) names d)"

context redis_link
begin

lemma BulkEnqueue_up:
  assumes "up w" and "enq_wf e" and "\<not> MinWaitEnabled e" and "length idents = length params"
    and "build_all (Namespace e) now (zip idents params) = Some jrs"
    and "bulk_typed (Namespace e) (BName ` set params) (db w)" and "\<forall>p\<in>set params. score_ok (RunAtEpoch p)"
  shows "\<exists>w'. BulkEnqueue R now now' idents (replicate (length params) True) params (e, w) =
      (Inr (fst (bulk_spec (Namespace e) (zip params jrs) (db w))),
       (mark_known now' (pendingJobNames e now' params) e, w')) \<and> up w' \<and>
    db w' = bulk_known e now' params (snd (bulk_spec (Namespace e) (zip params jrs) (db w)))"
proof -
  let ?ns = "Namespace e" and ?names = "pendingJobNames e now' params" and ?xs = "zip params jrs"
  have len: "length jrs = length params" and "\<forall>x\<in>set ?xs. bulk_item ?ns x"
    using build_all_items [OF assms(5,4,7)] by auto
  then have items: "\<forall>x\<in>set ?xs. bulk_item ?ns x \<and> BName (fst x) \<in> BName ` set params"
    by (auto dest: set_zip_leftD)
  let ?d = "snd (bulk_spec ?ns ?xs (db w))"
  obtain rs where rs: "run_all (map (\<lambda>(p, j, res). bulk_request R e True p j) ?xs) (db w) = (rs, ?d)"
    "length rs = length ?xs" "bulk_typed ?ns (BName ` set params) ?d"
    using bulk_requests_effect [OF assms(2) refl items assms(6), of "[]"] by blast
  have "set_type (kv ?d (redisKeyKnownJobs ?ns))" using rs(3) by (simp add: bulk_typed_def)
  from sadd [OF this, of ?names] obtain n where n: "call R (SADD (redisKeyKnownJobs ?ns) ?names) ?d = (RInt n, sadd_key (redisKeyKnownJobs ?ns) ?names ?d)"
    by blast
  have known: "run_all (sendBulkKnownJobs R e ?names @ sendWait R e) ?d =
      (if ?names = [] then [] else [RInt n], bulk_known e now' params ?d)"
    using n assms(3) by (simp add: sendBulkKnownJobs_def sendWait_def bulk_known_def)
  let ?reqs = "map (\<lambda>(p, j, res). bulk_request R e True p j) ?xs"
  have "run_all (?reqs @ sendBulkKnownJobs R e ?names @ sendWait R e) (db w) =
      (rs @ (if ?names = [] then [] else [RInt n]), bulk_known e now' params ?d)"
    by (rule run_all_seq [OF rs(1) known])
  moreover have "view db up w = Some (db w)" using assms(1) by (simp add: view_def)
  ultimately obtain w' where w': "pipeline R (?reqs @ sendBulkKnownJobs R e ?names @ sendWait R e) w =
      (map (\<lambda>r. lift_err (answer r)) (rs @ (if ?names = [] then [] else [RInt n])), w')"
    "view db up w' = Some (bulk_known e now' params ?d)"
    using pipeline_up by blast
  let ?more = "map (\<lambda>r. lift_err (answer r)) (if ?names = [] then [] else [RInt n])"
  have "receive_jobs R jrs (map (\<lambda>r. lift_err (answer r)) rs @ ?more) =
      Inr (map (\<lambda>res. (res, False)) (fst (bulk_spec ?ns ?xs (db w))))"
    using bulk_requests_effect [OF assms(2) refl items assms(6), of ?more] rs(1) len by simp
  then have "BulkEnqueue R now now' idents (replicate (length params) True) params (e, w) =
      on_world (bulk_second R e (zip params (map fst jrs))
        (map (\<lambda>res. (res, False)) (fst (bulk_spec ?ns ?xs (db w))))) (mark_known now' ?names e, w')"
    using w'(1) len rs(2) bulk_requests_zip [OF len, of R e] unfolding BulkEnqueue_def
    by (cases "?names = []") (simp_all add: assms(3,5) receiveWait_def Let_def)
  moreover have "up w'" "db w' = bulk_known e now' params ?d"
    using w'(2) by (auto simp: view_def split: if_splits)
  ultimately show ?thesis
    using len by (simp add: on_world_def bulk_second_none length_bulk_spec)
qed

end

section \<open>What an enqueuer promises\<close>

text \<open>An enqueuer and an empty server, for examples.\<close>

definition sample_world :: mem_world where
  "sample_world = \<lparr>mem_db = empty_keyspace, mem_faults = []\<rparr>"

lemma sample_world_simps [simp]: "mem_db sample_world = empty_keyspace" "mem_up sample_world" "kv empty_keyspace k = None"
  by (simp_all add: sample_world_def mem_up_def empty_keyspace_def)

lemma new_enqueuer_simps [simp]:
  "enq_wf (NewEnqueuer ns)" "Namespace (NewEnqueuer ns) = ns" "\<not> MinWaitEnabled (NewEnqueuer ns)"
  by (simp_all add: NewEnqueuer_def NewEnqueuerWithOptions_def enq_wf_def MinWaitEnabled_def)

lemma fresh_job_wf: "in_i64 now \<Longrightarrow> job_wf (fresh_job n i now None)"
  by (simp add: job_wf_def fresh_job_def zero_job_def in_i64_def)

lemma serialize_fresh: "in_i64 now \<Longrightarrow> serialize (fresh_job n i now None) = Some (the (serialize (fresh_job n i now None)))"
  using serialize_Some [OF fresh_job_wf] by force

text \<open>On a connection that is up, \<open>Enqueue\<close> puts the serialized job at the head of the queue of its
  name and records the name as known; with a replication requirement that is not met it reports so,
  and the job is in the queue all the same.\<close>

theorem enqueue_pushes_job:
  assumes "redis_link R db up" and "up w" and "enq_wf e" and "job = fresh_job jobName ident now args"
    and "serialize job = Some raw" and "q = redisKeyJobs (Namespace e) jobName"
    and "list_type (kv (db w) q)" and "set_type (kv (db w) (redisKeyKnownJobs (Namespace e)))"
  shows "\<exists>r e' w'. Enqueue R ident now now' jobName args (e, w) = (r, (e', w')) \<and> up w' \<and>
    (r = Inr job \<and> db w' = known_db e now' jobName (lpush_key q raw (db w)) \<or>
     MinWaitEnabled e \<and> r = Inl (ErrReplicationFailed, None) \<and> db w' = lpush_key q raw (db w))"
  using assms(2-) by (rule redis_link.Enqueue_up [OF assms(1)])

theorem enqueue_pushes_job_witness:
  "\<exists>r e' w'. Enqueue mem_redis ''1'' 42 42 ''a'' None (NewEnqueuer ''w'', sample_world) = (r, (e', w')) \<and>
     lst (mem_db w') (redisKeyJobs ''w'' ''a'') = [the (serialize (fresh_job ''a'' ''1'' 42 None))]"
proof -
  let ?job = "fresh_job ''a'' ''1'' 42 None"
  have "serialize ?job = Some (the (serialize ?job))" by (rule serialize_fresh) (simp add: in_i64_def)
  then show ?thesis
    using enqueue_pushes_job [OF mem_link.redis_link_axioms, of sample_world "NewEnqueuer ''w''" ?job "''a''" "''1''" 42 None
        "the (serialize ?job)" "redisKeyJobs ''w'' ''a''" 42] known_jobs_other(1) [of "''w''" "''a''"]
    by (auto simp: known_db_other obs_simps)
qed

text \<open>C11: however the connection behaves, \<open>Enqueue\<close> pushes its job at most once and touches nothing but
  the queue and the set of known jobs; if it reports success the job was pushed.\<close>

theorem enqueue_at_most_once:
  assumes "redis_link R db up" and "enq_wf e" and "job = fresh_job jobName ident now args"
    and "serialize job = Some raw" and "q = redisKeyJobs (Namespace e) jobName"
    and "list_type (kv (db w) q)" and "set_type (kv (db w) (redisKeyKnownJobs (Namespace e)))"
    and "Enqueue R ident now now' jobName args (e, w) = (r, (e', w'))"
  shows "(lst (db w') q = lst (db w) q \<or> lst (db w') q = raw # lst (db w) q) \<and>
    ((\<exists>x. r = Inr x) \<longrightarrow> lst (db w') q = raw # lst (db w) q) \<and>
    (\<forall>k. k \<noteq> q \<longrightarrow> k \<noteq> redisKeyKnownJobs (Namespace e) \<longrightarrow> kv (db w') k = kv (db w) k)"
  using redis_link.Enqueue_once [OF assms] by blast

theorem enqueue_at_most_once_witness:
  "\<exists>r e' w'. Enqueue mem_redis ''1'' 42 42 ''a'' None (NewEnqueuer ''w'', sample_world\<lparr>mem_faults := [LostReply]\<rparr>) = (r, (e', w')) \<and>
     (lst (mem_db w') (redisKeyJobs ''w'' ''a'') = [] \<or>
      lst (mem_db w') (redisKeyJobs ''w'' ''a'') = [the (serialize (fresh_job ''a'' ''1'' 42 None))])"
proof -
  let ?job = "fresh_job ''a'' ''1'' 42 None" and ?w = "sample_world\<lparr>mem_faults := [LostReply]\<rparr>"
  obtain r e' w' where E: "Enqueue mem_redis ''1'' 42 42 ''a'' None (NewEnqueuer ''w'', ?w) = (r, (e', w'))"
    by (cases "Enqueue mem_redis ''1'' 42 42 ''a'' None (NewEnqueuer ''w'', ?w)") auto
  have "serialize ?job = Some (the (serialize ?job))" by (rule serialize_fresh) (simp add: in_i64_def)
  from enqueue_at_most_once [OF mem_link.redis_link_axioms _ refl this refl _ _ E]
  have "lst (mem_db w') (redisKeyJobs ''w'' ''a'') = [] \<or> lst (mem_db w') (redisKeyJobs ''w'' ''a'') = [the (serialize ?job)]"
    by auto
  with E show ?thesis by blast
qed


lemma sample_unique:
  "\<exists>uk job raw. uniqueJobHelper ''w'' ''1'' 42 ''a'' None None = Inr (uk, job, raw, ''1'')"
proof -
  let ?uk = "redisNamespacePrefix ''w'' @ ''unique:'' @ ''a'' @ '':''"
  have "job_wf ((fresh_job ''a'' ''1'' 42 None)\<lparr>Unique := True, UniqueKey := ?uk\<rparr>)"
    by (simp add: job_wf_def fresh_job_def zero_job_def in_i64_def)
  from serialize_Some [OF this] show ?thesis
    by (auto simp: uniqueJobHelper_def redisKeyUniqueJob_def Let_def)
qed



definition sample_params :: "bulkEnqueueParam list" where
  "sample_params = [\<lparr>BName = ''a'', BArgs = None, RunAtEpoch = 0, BUnique = False, UniqueKeyMap = None\<rparr>,
     \<lparr>BName = ''a'', BArgs = None, RunAtEpoch = 50, BUnique = False, UniqueKeyMap = None\<rparr>]"

lemma sample_params_built: "\<exists>jrs. build_all ''w'' 42 (zip [''1'', ''2''] sample_params) = Some jrs"
proof -
  have "\<exists>raw. serialize ((fresh_job ''a'' i 42 None)\<lparr>Unique := False, UniqueKey := []\<rparr>) = Some raw" for i
    by (rule serialize_Some) (simp add: job_wf_def fresh_job_def zero_job_def in_i64_def)
  then have "\<exists>jr. buildJobAndResult ''w'' 42 i p = Some jr" if "p \<in> set sample_params" for i p
    using that by (auto simp: sample_params_def buildJobAndResult_def buildUniqueKey_def Let_def split: option.splits) (metis option.distinct(1))+
  then show ?thesis by (auto simp: sample_params_def split: option.splits)
qed


end
