(* ===== verification/Reaper_Facts.thy ===== *)
theory Reaper_Facts
  imports Cluster Heartbeater Enqueuer_Facts
begin

text \<open>
  What the reaper does for a pool that died: every job the pool had in progress is back in its queue,
  in the order the pool took them, its locks are free again and the pool is forgotten. Which pools
  are dead follows from the heartbeats they sent.
\<close>

section \<open>Giving up all jobs\<close>

text \<open>The abstract machine after a pool gave back all its jobs of the names \<open>N\<close>.\<close>

definition q_abandon :: "string \<Rightarrow> string set \<Rightarrow> qstate \<Rightarrow> qstate" where
  "q_abandon p N q =
     q\<lparr>waiting := (\<lambda>n. if n \<in> N then running q p n @ waiting q n else waiting q n),
       running := (\<lambda>p' n. if p' = p \<and> n \<in> N then [] else running q p' n),
       locks := (\<lambda>n. if n \<in> N then locks q n - int (length (running q p n)) else locks q n),
       held := (\<lambda>n p'. if p' = p \<and> n \<in> N then held q n p - int (length (running q p n)) else held q n p')\<rparr>"

definition abandoned :: "string \<Rightarrow> string set \<Rightarrow> qstate \<Rightarrow> nat" where
  "abandoned p N q = (\<Sum>n\<in>N. length (running q p n))"

lemma q_abandon_giveback:
  assumes "n \<in> N" and "running q p n \<noteq> []"
  shows "q_abandon p N (q_giveback p n q) = q_abandon p N q"
proof -
  have "butlast (running q p n) @ last (running q p n) # waiting q n = running q p n @ waiting q n"
    using assms(2) by (metis append.assoc append_Cons append_Nil append_butlast_last_id)
  then show ?thesis
    using assms length_butlast_int [OF assms(2)]
    by (auto simp: q_abandon_def q_giveback_def upd2_apply fun_eq_iff simp del: length_butlast)
qed

lemma q_abandon_none: "\<forall>n\<in>N. running q p n = [] \<Longrightarrow> q_abandon p N q = q"
  by (auto simp: q_abandon_def fun_eq_iff intro!: qstate.equality)

lemma abandoned_giveback:
  assumes "finite N" and "n \<in> N" and "running q p n \<noteq> []"
  shows "abandoned p N (q_giveback p n q) < abandoned p N q"
  unfolding abandoned_def
  using assms by (intro sum_strict_mono_ex1) (auto simp: q_giveback_def upd2_apply)

lemma q_room_giveback:
  assumes "cluster_ok ns P db" and "q_room ns db" and "p \<in> P" and "plain n"
    and "cluster_ok ns P (requeue_effect p (sample_of ns p n k) db)"
  shows "q_room ns (requeue_effect p (sample_of ns p n k) db)"
proof -
  let ?d = "requeue_effect p (sample_of ns p n k) db"
  have p: "plain p" using assms(1,3) by (simp add: cluster_ok_def)
  note abs = abs_q_giveback [OF assms(4) p, of ns k db]
  have pos: "0 \<le> locks (abs_q ns ?d) m" "0 \<le> held (abs_q ns ?d) m p" for m
    using assms(3,5) by (auto simp: cluster_ok_def q_inv_def)
  have "in_i64 (locks (abs_q ns ?d) m + 1) \<and> in_i64 (locks (abs_q ns ?d) m - 1) \<and>
      in_i64 (held (abs_q ns ?d) m p' + 1) \<and> in_i64 (held (abs_q ns ?d) m p' - 1)" if "plain m" for m p'
  proof -
    have "in_i64 (locks (abs_q ns db) m + 1)" "in_i64 (locks (abs_q ns db) m - 1)"
      "in_i64 (held (abs_q ns db) m p' + 1)" "in_i64 (held (abs_q ns db) m p' - 1)"
      using assms(2) that by (auto simp: q_room_def abs_q_fields)
    then show ?thesis using pos [of m] unfolding abs
      by (auto simp: q_giveback_def upd2_apply in_i64_def)
  qed
  then show ?thesis by (simp add: q_room_def abs_q_fields)
qed

lemma requeue_pools:
  "plain n \<Longrightarrow> plain p \<Longrightarrow>
   kv (requeue_effect p (sample_of ns p n k) db) (redisKeyWorkerPools ns) = kv db (redisKeyWorkerPools ns)"
  by (simp add: requeue_effect_def Let_def obs_simps key_simps)

context redis_link
begin

lemma requeue_all_up:
  assumes "up w" and "cluster_ok ns P (db w)" and "q_room ns (db w)" and "p \<in> P" and "\<forall>n\<in>set names. plain n"
    and "dNamespace rp = ns"
  shows "\<exists>w'. requeueInProgressJobs R rp p names w = Some (Inr (), w') \<and> up w' \<and> cluster_ok ns P (db w') \<and>
    abs_q ns (db w') = q_abandon p (set names) (abs_q ns (db w)) \<and> q_room ns (db w') \<and>
    kv (db w') (redisKeyWorkerPools ns) = kv (db w) (redisKeyWorkerPools ns)"
  using assms
proof (induction "abandoned p (set names) (abs_q ns (db w))" arbitrary: w rule: less_induct)
  case less
  have p: "plain p" and typed: "q_typed ns (db w)" using less.prems(2,4) by (auto simp: cluster_ok_def)
  let ?items = "map (\<lambda>n. sample_of ns p n 0) names"
  let ?m = "redisLuaReenqueueJob R p (inprogress_keys ns p names)"
  have keys: "inprogress_keys ns p names = concat (map requeue_keys ?items)"
    by (simp add: inprogress_keys_def requeue_keys_def o_def)
  have "\<forall>s\<in>set ?items. requeue_typed p (db w) s"
    using q_typed_requeue [OF typed less.prems(3)] less.prems(5) p by auto
  note script = reenqueue_script [OF this, folded keys]
  show ?case
  proof (cases "find (has_inprog (db w)) ?items")
    case None
    obtain w' where "script_Do R ?m w = (Inr RNil, w')" "up w'" "db w' = db w"
      using script_up [OF less.prems(1), of ?m RNil "db w"] script None by (auto simp: is_err_def)
    moreover have "\<forall>n\<in>set names. running (abs_q ns (db w)) p n = []"
      using None less.prems(5) p by (auto simp: find_None_iff has_inprog_def abs_q_fields)
    ultimately show ?thesis using less.prems
      by (subst requeueInProgressJobs.simps) (simp add: ebind_def conv_def Values_nil lift_err_def q_abandon_none)
  next
    case (Some s)
    then have "s \<in> set ?items" "has_inprog (db w) s" by (auto simp: find_Some_iff)
    then obtain n where n: "s = sample_of ns p n 0" "n \<in> set names" by auto
    let ?d = "requeue_effect p s (db w)"
    have run: "running (abs_q ns (db w)) p n \<noteq> []" and pn: "plain n"
      using \<open>has_inprog (db w) s\<close> n less.prems(5) p by (auto simp: has_inprog_def abs_q_fields)
    have abs: "abs_q ns ?d = q_giveback p n (abs_q ns (db w))" unfolding n(1) by (rule abs_q_giveback [OF pn p])
    obtain w1 where w1: "script_Do R ?m w = (Inr (requeue_reply s (db w)), w1)" "up w1" "db w1 = ?d"
      using script_up [OF less.prems(1), of ?m "requeue_reply s (db w)" ?d] script Some by (auto simp: is_err_def requeue_reply_def)
    have ok: "cluster_ok ns P (db w1)"
      using less.prems(2) q_inv_step [OF _ q_step_giveback [OF less.prems(4) run]] q_typed_giveback [OF typed less.prems(3) pn p]
      unfolding w1(3) cluster_ok_def abs by (simp add: n(1))
    have room: "q_room ns (db w1)"
      using q_room_giveback [OF less.prems(2-4) pn] ok unfolding w1(3) n(1) by blast
    have "abandoned p (set names) (abs_q ns (db w1)) < abandoned p (set names) (abs_q ns (db w))"
      unfolding w1(3) abs by (rule abandoned_giveback [where q = "abs_q ns (db w)", OF _ n(2) run]) simp
    from less.hyps [OF this w1(2) ok room less.prems(4-6)]
    have "\<exists>w'. requeueInProgressJobs R rp p names w1 = Some (Inr (), w') \<and> up w' \<and> cluster_ok ns P (db w') \<and>
      abs_q ns (db w') = q_abandon p (set names) (abs_q ns (db w)) \<and> q_room ns (db w') \<and>
    kv (db w') (redisKeyWorkerPools ns) = kv (db w) (redisKeyWorkerPools ns)"
      unfolding w1(3) n(1) requeue_pools [OF pn p] abs [unfolded n(1)] q_abandon_giveback [where q = "abs_q ns (db w)", OF n(2) run] .
    moreover have "requeueInProgressJobs R rp p names w = requeueInProgressJobs R rp p names w1"
      using w1(1) less.prems(6)
      by (subst requeueInProgressJobs.simps) (simp add: ebind_def conv_def requeue_reply_def Values_arr lift_err_def)
    ultimately show ?thesis by simp
  qed
qed

end

section \<open>Stale locks\<close>

text \<open>The abstract machine after the entry of a pool was removed.\<close>

definition q_release :: "string \<Rightarrow> string \<Rightarrow> qstate \<Rightarrow> qstate" where
  "q_release p n q = q\<lparr>locks := (locks q)(n := max 0 (locks q n - held q n p)), held := upd2 (held q) n p 0\<rparr>"

lemma q_release_none: "0 \<le> locks q n \<Longrightarrow> held q n p = 0 \<Longrightarrow> q_release p n q = q"
  by (auto simp: q_release_def upd2_apply fun_eq_iff intro!: qstate.equality)

lemma abs_q_set_ttl [simp]: "abs_q ns (set_ttl k t db) = abs_q ns db" "q_typed ns (set_ttl k t db) = q_typed ns db"
  by (simp_all add: abs_q_def q_typed_def obs_simps cong: if_cong)

lemma abs_q_reap:
  assumes "q_typed ns db" and "plain n" and "0 \<le> locks (abs_q ns db) n"
  shows "abs_q ns (reap_effect p (sample_of ns p n k) db) = q_release p n (abs_q ns db)"
proof (cases "hget db (redisKeyJobsLockInfo ns n) p")
  case None
  then have "held (abs_q ns db) n p = 0" using assms(2) by (simp add: abs_q_fields hnum_def)
  with None assms(3) show ?thesis by (simp add: reap_effect_def q_release_none)
next
  case (Some t)
  moreover have "hnum_ok (hsh db (redisKeyJobsLockInfo ns n)) p" using assms(1,2) by (simp add: q_typed_def)
  ultimately obtain i where i: "int_of_string t = Some i" "hnum (hsh db (redisKeyJobsLockInfo ns n)) p = i"
    by (auto simp: hnum_ok_def hnum_def int_text_def split: option.splits)
  have h: "hnum (hdel p h) = (hnum h)(p := 0)" for h by (simp add: fun_eq_iff)
  show ?thesis
    using Some i assms(2)
    by (simp add: reap_effect_def Let_def abs_q_upd abs_q_fields q_release_def upd2_def h fun_eq_iff)
qed

lemma q_typed_reap:
  assumes "q_typed ns db" and "plain n" and "reap_typed p db (sample_of ns p n k)"
  shows "q_typed ns (reap_effect p (sample_of ns p n k) db)"
proof -
  have "in_i64 (num db (redisKeyJobsLock ns n) - i)" if "hget db (redisKeyJobsLockInfo ns n) p = Some t" "int_of_string t = Some i" for t i
    using assms(3) that by (simp add: reap_typed_def hnum_def Let_def)
  moreover have "\<forall>p'. hnum_ok (hdel p (hsh db (redisKeyJobsLockInfo ns n))) p'" using assms(1,2) by (simp add: q_typed_def)
  ultimately show ?thesis
    using assms(1,2) by (auto simp: reap_effect_def Let_def in_i64_def q_typed_upd split: option.split)
qed

lemma fold_reap:
  assumes "q_typed ns db" and "\<forall>n\<in>set names. plain n \<and> reap_typed p db (sample_of ns p n 0)" and "distinct names"
    and "\<forall>n. 0 \<le> locks (abs_q ns db) n"
  shows "abs_q ns (fold (reap_effect p) (map (\<lambda>n. sample_of ns p n 0) names) db) = fold (q_release p) names (abs_q ns db)"
  using assms
proof (induction names arbitrary: db)
  case (Cons n names)
  let ?d = "reap_effect p (sample_of ns p n 0) db"
  have abs: "abs_q ns ?d = q_release p n (abs_q ns db)" using Cons.prems by (intro abs_q_reap) auto
  have "reap_typed p ?d (sample_of ns p m 0)" if "m \<in> set names" for m
    using that Cons.prems(2,3) by (subst reap_typed_other) (auto simp: lock_keys_def key_simps)
  moreover have "q_typed ns ?d" using Cons.prems by (intro q_typed_reap) auto
  ultimately have "abs_q ns (fold (reap_effect p) (map (\<lambda>n. sample_of ns p n 0) names) ?d) = fold (q_release p) names (abs_q ns ?d)"
    using Cons.prems by (intro Cons.IH) (auto simp: abs q_release_def)
  then show ?case by (simp add: abs)
qed simp

lemma held_le_locks:
  assumes "cluster_ok ns P db" and "p \<in> P"
  shows "0 \<le> held (abs_q ns db) n p" "held (abs_q ns db) n p \<le> locks (abs_q ns db) n"
proof -
  have "held (abs_q ns db) n p = int (length (running (abs_q ns db) p n))" "locks (abs_q ns db) n = int (in_progress P (abs_q ns db) n)"
    using assms by (auto simp: cluster_ok_def q_inv_def)
  moreover have "length (running (abs_q ns db) p n) \<le> in_progress P (abs_q ns db) n"
    unfolding in_progress_def using assms by (intro member_le_sum) (auto simp: cluster_ok_def)
  ultimately show "0 \<le> held (abs_q ns db) n p" "held (abs_q ns db) n p \<le> locks (abs_q ns db) n" by simp_all
qed

lemma reap_typed_ok:
  assumes "cluster_ok ns P db" and "q_room ns db" and "p \<in> P" and "plain n"
  shows "reap_typed p db (sample_of ns p n k)"
  using held_le_locks [OF assms(1,3), of n] assms
  by (auto simp: reap_typed_def Let_def cluster_ok_def q_typed_def q_room_def abs_q_fields in_i64_def)

lemma stale_keys_items:
  "stale_keys ns names = concat (map lock_keys (map (\<lambda>n. sample_of ns p n 0) names))"
  by (simp add: stale_keys_def lock_keys_def o_def)

lemma distinct_stale_keys:
  "\<forall>n\<in>set names. plain n \<Longrightarrow> distinct names \<Longrightarrow> distinct (stale_keys ns names)"
  by (induction names) (auto simp: stale_keys_def key_simps)

context redis_link
begin

lemma cleanStale_up:
  assumes "up w" and "cluster_ok ns P (db w)" and "q_room ns (db w)" and "p \<in> P" and "\<forall>n\<in>set names. plain n" and "distinct names"
    and "dNamespace rp = ns"
  shows "\<exists>w'. cleanStaleLockInfo R rp p names w = (Inr (), w') \<and> up w' \<and>
    db w' = fold (reap_effect p) (map (\<lambda>n. sample_of ns p n 0) names) (db w)"
proof -
  let ?items = "map (\<lambda>n. sample_of ns p n 0) names"
  have "\<forall>s\<in>set ?items. reap_typed p (db w) s" using reap_typed_ok [OF assms(2-4)] assms(5) by auto
  from reap_script [OF this] distinct_stale_keys [OF assms(5,6), of ns, unfolded stale_keys_items [of ns names p]]
  have script: "redisLuaReapStaleLocks R p (stale_keys ns names) (db w) = (Inr RNil, fold (reap_effect p) ?items (db w))"
    unfolding stale_keys_items [of ns names p] by blast
  from script_up [where m = "redisLuaReapStaleLocks R p (stale_keys ns names)", OF assms(1) this] show ?thesis by (auto simp: cleanStaleLockInfo_def assms(7) is_err_def ebind_def eret_def)
qed

end

lemma other_key_kept: "k \<in> {redisKeyWorkerPools ns, redisKeyHeartbeat ns p} \<Longrightarrow> queue_keys_kept ns db (upd k v db)"
  using render_job_other [of _ _ KWorkerPools ns] render_job_other [of _ _ "KHeartbeat p" ns]
  by (fastforce simp: queue_keys_kept_def obs_simps render.simps)

lemma q_room_kept: "abs_q ns db' = abs_q ns db \<Longrightarrow> q_room ns db' = q_room ns db"
  unfolding q_room_def by (metis abs_q_fields(3,4))

lemma fold_id: "(\<And>x. x \<in> set xs \<Longrightarrow> f x y = y) \<Longrightarrow> fold f xs y = y"
  by (induction xs) auto

text \<open>A pool without jobs in progress has no locks to release.\<close>

lemma release_idle:
  assumes "cluster_ok ns P db" and "p \<in> P" and "\<forall>n\<in>set names. running (abs_q ns db) p n = []"
  shows "fold (q_release p) names (abs_q ns db) = abs_q ns db"
proof (rule fold_id)
  fix n assume "n \<in> set names"
  with assms show "q_release p n (abs_q ns db) = abs_q ns db"
    by (intro q_release_none) (auto simp: cluster_ok_def q_inv_def)
qed

lemma fold_reap_pools:
  "kv (fold (reap_effect p) (map (\<lambda>n. sample_of ns p n 0) ms) d) (redisKeyWorkerPools ns) = kv d (redisKeyWorkerPools ns)"
  by (induction ms arbitrary: d) (simp_all add: reap_effect_other key_defs)

context redis_link
begin

text \<open>Removing the pool from the set of pools and releasing its locks.\<close>

lemma reap_finish_up:
  assumes "up w" and "cluster_ok ns P (db w)" and "q_room ns (db w)" and "p \<in> P" and "\<forall>n\<in>set names. plain n" and "distinct names"
    and "dNamespace rp = ns" and "set_type (kv (db w) (redisKeyWorkerPools ns))"
  shows "\<exists>w'. ebind (conn_Do R (SREM (redisKeyWorkerPools ns) p)) (\<lambda>_. cleanStaleLockInfo R rp p names) w = (Inr (), w') \<and> up w' \<and>
    abs_q ns (db w') = fold (q_release p) names (abs_q ns (db w)) \<and>
    smem (db w') (redisKeyWorkerPools ns) = smem (db w) (redisKeyWorkerPools ns) - {p}"
proof -
  let ?k = "redisKeyWorkerPools ns" and ?items = "map (\<lambda>n. sample_of ns p n 0) names"
  let ?d = "upd ?k (vset (smem (db w) ?k - {p})) (db w)"
  obtain n where "call R (SREM ?k p) (db w) = (RInt n, ?d)" using srem [OF assms(8)] by blast
  from Do_up [OF assms(1) this] obtain w1 where w1: "conn_Do R (SREM ?k p) w = (Inr (RInt n), w1)" "up w1" "db w1 = ?d"
    by (auto simp: is_err_def)
  have kept: "queue_keys_kept ns (db w) (db w1)" unfolding w1(3) by (rule other_key_kept [of _ ns p]) simp
  then have abs: "abs_q ns (db w1) = abs_q ns (db w)" and ok: "cluster_ok ns P (db w1)"
    using kept_abs [OF kept] assms(2) by (auto simp: cluster_ok_def)
  have room: "q_room ns (db w1)" using q_room_kept [OF abs] assms(3) by simp
  obtain w2 where w2: "cleanStaleLockInfo R rp p names w1 = (Inr (), w2)" "up w2" "db w2 = fold (reap_effect p) ?items (db w1)"
    using cleanStale_up [OF w1(2) ok room assms(4-7)] by blast
  have "\<forall>n. 0 \<le> locks (abs_q ns (db w1)) n" using ok by (simp add: cluster_ok_def q_inv_def)
  then have "abs_q ns (db w2) = fold (q_release p) names (abs_q ns (db w1))"
    unfolding w2(3) using ok reap_typed_ok [OF ok room assms(4)] assms(5,6) by (intro fold_reap) (auto simp: cluster_ok_def)
  then show ?thesis using w1 w2 abs fold_reap_pools [of p ns names "db w1"] by (simp add: ebind_def obs_simps)
qed

lemma reapPool_up:
  assumes "up w" and "cluster_ok ns P (db w)" and "q_room ns (db w)" and "p \<in> P" and "\<forall>n\<in>set names. plain n" and "distinct names"
    and "dNamespace rp = ns" and "set_type (kv (db w) (redisKeyWorkerPools ns))" and "names \<noteq> []"
  shows "\<exists>w'. reapPool R rp p names w = Some (Inr (), w') \<and> up w' \<and>
    abs_q ns (db w') = q_abandon p (set names) (abs_q ns (db w)) \<and>
    smem (db w') (redisKeyWorkerPools ns) = smem (db w) (redisKeyWorkerPools ns) - {p}"
proof -
  obtain w1 where w1: "requeueInProgressJobs R rp p names w = Some (Inr (), w1)" "up w1" "cluster_ok ns P (db w1)"
    "abs_q ns (db w1) = q_abandon p (set names) (abs_q ns (db w))" "q_room ns (db w1)"
    "kv (db w1) (redisKeyWorkerPools ns) = kv (db w) (redisKeyWorkerPools ns)"
    using requeue_all_up [OF assms(1-5,7)] by blast
  let ?h = "redisKeyHeartbeat ns p"
  obtain n where "call R (DEL ?h) (db w1) = (RInt n, upd ?h None (db w1))" using del by blast
  from Do_up [OF w1(2) this] obtain w2 where w2: "conn_Do R (DEL ?h) w1 = (Inr (RInt n), w2)" "up w2" "db w2 = upd ?h None (db w1)"
    by (auto simp: is_err_def)
  have kept: "queue_keys_kept ns (db w1) (db w2)" unfolding w2(3) by (rule other_key_kept [of _ ns p]) simp
  then have abs: "abs_q ns (db w2) = abs_q ns (db w1)" and ok: "cluster_ok ns P (db w2)"
    using kept_abs [OF kept] w1(3) by (auto simp: cluster_ok_def)
  have room: "q_room ns (db w2)" using q_room_kept [OF abs] w1(5) by simp
  have pools: "kv (db w2) (redisKeyWorkerPools ns) = kv (db w) (redisKeyWorkerPools ns)"
    unfolding w2(3) using w1(6) by (simp add: obs_simps heartbeat_key_other [symmetric])
  obtain w3 where w3: "ebind (conn_Do R (SREM (redisKeyWorkerPools ns) p)) (\<lambda>_. cleanStaleLockInfo R rp p names) w2 = (Inr (), w3)"
    "up w3" "abs_q ns (db w3) = fold (q_release p) names (abs_q ns (db w2))"
    "smem (db w3) (redisKeyWorkerPools ns) = smem (db w2) (redisKeyWorkerPools ns) - {p}"
    using reap_finish_up [OF w2(2) ok room assms(4-7)] assms(8) pools by auto
  have "fold (q_release p) names (abs_q ns (db w2)) = abs_q ns (db w2)"
    by (rule release_idle [OF ok assms(4)]) (simp add: abs w1(4) q_abandon_def)
  with w1(1,4) w2(1) w3 abs pools assms(7,9) show ?thesis
    by (simp add: reapPool_def Let_def ebind_def)
qed

end

section \<open>Which pools are dead\<close>

text \<open>The verdict on a pool from the hash of its heartbeat; \<open>None\<close> spares it.\<close>

definition verdict :: "deadPoolReaper \<Rightarrow> int \<Rightarrow> (string \<times> string) list \<Rightarrow> string list option" where
  "verdict rp now h =
     (case map_of h ''heartbeat_at'' of
        None \<Rightarrow> Some []
      | Some t \<Rightarrow>
          if now < the (int_of_string t) * 1000000000 + deadTime rp then None
          else map_option (\<lambda>s. strings_Split s CHR '','') (map_of h ''job_names''))"

definition beat_ok :: "rval option \<Rightarrow> bool" where
  "beat_ok v \<longleftrightarrow> hash_type v \<and> hnum_ok (hash_of v) ''heartbeat_at''"

context redis_link
begin

lemma returns_hget:
  "hash_type (kv d k) \<Longrightarrow> returns (view db up) (conn_Do R (HGET k f)) d (Inr (opt_bulk (hget d k f))) d"
  by (rule returns_Do) (simp_all add: hget is_err_def opt_bulk_def split: option.split)

lemma checkPool_up:
  assumes "beat_ok (kv d (redisKeyHeartbeat (dNamespace rp) p))"
  shows "returns (view db up) (checkPool R rp now p) d (Inr (verdict rp now (hsh d (redisKeyHeartbeat (dNamespace rp) p)))) d"
proof -
  let ?k = "redisKeyHeartbeat (dNamespace rp) p"
  have h: "hash_type (kv d ?k)" and n: "hnum_ok (hsh d ?k) ''heartbeat_at''" using assms by (auto simp: beat_ok_def)
  show ?thesis
  proof (cases "hget d ?k ''heartbeat_at''")
    case None
    have "returns (view db up) (conn_Do R (HGET ?k ''heartbeat_at'')) d (Inr RNil) d"
      using returns_hget [OF h, of "''heartbeat_at''"] None by (simp add: opt_bulk_def)
    from returns_try [OF returns_bind [where f = "conv (redis_Int64 R)", OF this returns_conv_fail [where h = "redis_Int64 R", OF Int64_nil]]]
    have "returns (view db up) (etry (ebind (conn_Do R (HGET ?k ''heartbeat_at'')) (conv (redis_Int64 R)))) d (Inr (Inl (RedisErr ErrNil))) d" .
    then show ?thesis unfolding checkPool_def Let_def
      by (rule returns_bind) (simp add: verdict_def None returns_eret)
  next
    case (Some t)
    then obtain due_at where due_at: "int_of_string t = Some due_at" "in_i64 due_at" using n
      by (auto simp: hnum_ok_def int_text_def split: option.splits)
    have t: "redis_Int64 R (RBulk t) = Inr due_at" using due_at by (rule Int64_bulk)
    have "returns (view db up) (conn_Do R (HGET ?k ''heartbeat_at'')) d (Inr (RBulk t)) d"
      using returns_hget [OF h, of "''heartbeat_at''"] Some by (simp add: opt_bulk_def)
    note r = returns_try [OF returns_bind [where f = "conv (redis_Int64 R)", OF this returns_conv [where h = "redis_Int64 R", OF t]]]
    have s: "returns (view db up) (etry (ebind (conn_Do R (HGET ?k ''job_names'')) (conv (redis_String R)))) d
        (Inr (case hget d ?k ''job_names'' of None \<Rightarrow> Inl (RedisErr ErrNil) | Some s \<Rightarrow> Inr s)) d"
      using returns_hget [OF h, of "''job_names''"]
        returns_try [OF returns_bind [where f = "conv (redis_String R)", OF _ returns_conv_fail [where h = "redis_String R", OF String_nil]]]
        returns_try [OF returns_bind [where f = "conv (redis_String R)", OF _ returns_conv [where h = "redis_String R", OF String_bulk]]]
      by (cases "hget d ?k ''job_names''") (simp_all add: opt_bulk_def)
    show ?thesis unfolding checkPool_def Let_def
      by (rule returns_bind [OF r])
        (auto simp: verdict_def Some due_at returns_eret intro!: returns_bind [OF s] split: option.split)
  qed
qed

lemma checkPools_up:
  assumes "\<forall>(p, now)\<in>set ps. beat_ok (kv d (redisKeyHeartbeat (dNamespace rp) p))"
  shows "returns (view db up) (checkPools R rp ps) d
    (Inr (List.map_filter (\<lambda>(p, now). map_option (Pair p) (verdict rp now (hsh d (redisKeyHeartbeat (dNamespace rp) p)))) ps)) d"
  using assms
proof (induction ps)
  case (Cons x ps)
  then show ?case
    by (cases x) (auto intro!: returns_bind [OF checkPool_up] returns_bind [OF Cons.IH] simp: returns_eret map_filter_simps split: option.split)
qed (simp add: returns_eret map_filter_simps)

lemma findDeadPools_up:
  assumes "up w" and "set_type (kv (db w) (redisKeyWorkerPools (dNamespace rp)))"
    and "finite (smem (db w) (redisKeyWorkerPools (dNamespace rp)))"
    and "\<forall>p\<in>smem (db w) (redisKeyWorkerPools (dNamespace rp)). beat_ok (kv (db w) (redisKeyHeartbeat (dNamespace rp) p))"
  shows "\<exists>ds w'. findDeadPools R rp clock w = (Inr ds, w') \<and> up w' \<and> db w' = db w \<and> distinct (map fst ds) \<and>
    (\<forall>p names. (p, names) \<in> set ds \<longleftrightarrow> p \<in> smem (db w) (redisKeyWorkerPools (dNamespace rp)) \<and>
       verdict rp (clock p) (hsh (db w) (redisKeyHeartbeat (dNamespace rp) p)) = Some names)"
proof -
  let ?k = "redisKeyWorkerPools (dNamespace rp)"
  let ?f = "\<lambda>(p, now). map_option (Pair p) (verdict rp now (hsh (db w) (redisKeyHeartbeat (dNamespace rp) p)))"
  obtain xs where xs: "call R (SMEMBERS ?k) (db w) = (RArr (map RBulk xs), db w)" "distinct xs" "set xs = smem (db w) ?k"
    using smembers [OF assms(2,3)] by blast
  let ?ds = "List.map_filter ?f (map (\<lambda>p. (p, clock p)) xs)"
  have "returns (view db up) (findDeadPools R rp clock) (db w) (Inr ?ds) (db w)"
    unfolding findDeadPools_def
    by (rule returns_bind [OF returns_Do [OF xs(1)]], simp add: is_err_def, rule returns_bind [OF returns_conv [of "redis_Strings R", OF Strings_arr]])
      (use assms(4) xs(3) in \<open>auto intro!: checkPools_up\<close>)
  from returns_up [OF this assms(1)] obtain w' where "findDeadPools R rp clock w = (Inr ?ds, w')" "up w'" "db w' = db w" by blast
  moreover have "distinct (map fst ?ds)" using xs(2)
    by (induction xs) (auto simp: map_filter_simps map_filter_def split: option.splits)
  moreover have "(p, names) \<in> set ?ds \<longleftrightarrow> p \<in> set xs \<and>
       verdict rp (clock p) (hsh (db w) (redisKeyHeartbeat (dNamespace rp) p)) = Some names" for p names
    by (auto simp: map_filter_def image_iff)
  ultimately show ?thesis unfolding xs(3) by blast
qed

end

section \<open>What the reaper does\<close>

lemma fold_release:
  "distinct names \<Longrightarrow> fold (q_release p) names q =
     q\<lparr>locks := (\<lambda>n. if n \<in> set names then max 0 (locks q n - held q n p) else locks q n),
       held := (\<lambda>n p'. if p' = p \<and> n \<in> set names then 0 else held q n p')\<rparr>"
  by (induction names arbitrary: q) (auto simp: q_release_def upd2_apply fun_eq_iff intro!: qstate.equality)


lemma running_world_ok: "cluster_ok ''w'' {''p''} (mem_db running_world)" "q_room ''w'' (mem_db running_world)"
proof -
  have "q_typed ''w'' (mem_db running_world)"
    by (auto simp: q_typed_def running_world_simps key_simps hnum_ok_def in_i64_def int_text_def int_of_1 string_1)
  moreover have "q_inv {''p''} (abs_q ''w'' (mem_db running_world))"
    by (auto simp: q_inv_def in_progress_def abs_q_def running_world_simps key_simps hnum_def int_of_1)
  ultimately show "cluster_ok ''w'' {''p''} (mem_db running_world)" by (simp add: cluster_ok_def)
  show "q_room ''w'' (mem_db running_world)"
    by (auto simp: q_room_def running_world_simps key_simps hnum_def in_i64_def int_of_1)
qed


text \<open>C24: a pool is reaped if and only if its last heartbeat is ten seconds old; the jobs it is reaped with
  are then those it announced.\<close>

theorem heartbeat_decides_death:
  assumes "redis_link R db up" and "up w" and "set_type (kv (db w) (redisKeyWorkerPools ns))"
    and "finite (smem (db w) (redisKeyWorkerPools ns))"
    and "\<forall>q\<in>insert p (smem (db w) (redisKeyWorkerPools ns)). beat_ok (kv (db w) (redisKeyHeartbeat ns q))"
    and "names \<noteq> []" and "\<forall>n\<in>set names. CHR '','' \<notin> set n" and "in_i64 t"
    and "w1 = snd (hb_start R t0 t (newWorkerPoolHeartbeater ns p names c wids pid host, w))"
  shows "\<exists>ds w'. findDeadPools R (newDeadPoolReaper ns cur) clock w1 = (Inr ds, w') \<and> up w' \<and> db w' = db w1 \<and>
    ((\<exists>ns. (p, ns) \<in> set ds) \<longleftrightarrow> (t + 10) * 1000000000 \<le> clock p) \<and>
    (\<forall>ns. (p, ns) \<in> set ds \<longrightarrow> ns = sort names)"
proof -
  let ?h = "(newWorkerPoolHeartbeater ns p names c wids pid host)\<lparr>hStartedAt := t0\<rparr>" and ?rp = "newDeadPoolReaper ns cur"
  let ?k = "redisKeyWorkerPools ns"
  have fields: "hNamespace ?h = ns" "hPoolID ?h = p" "hJobNames ?h = strings_Join (sort names) CHR '',''"
    by (simp_all add: newWorkerPoolHeartbeater_def)
  have w1: "up w1" "db w1 = heartbeat_effect ?h t (db w)"
    using redis_link.heartbeat_up [OF assms(1,2), of ?h t] assms(3,5)
    by (simp_all add: assms(9) hb_start_def Let_def fields beat_ok_def)
  have mem: "smem (db w1) ?k = insert p (smem (db w) ?k)"
    unfolding w1(2) by (simp add: heartbeat_effect_def fields Let_def obs_simps heartbeat_key_other [symmetric])
  have f: "hget (db w1) (redisKeyHeartbeat ns p) ''heartbeat_at'' = Some (string_of_int t)"
    "hget (db w1) (redisKeyHeartbeat ns p) ''job_names'' = Some (strings_Join (sort names) CHR '','')"
    using heartbeat_field [of ?h t "db w"] unfolding w1(2) fields by (simp_all add: heartbeat_fields_def fields)
  have beat: "beat_ok (kv (db w1) (redisKeyHeartbeat ns q))" if "q \<in> smem (db w1) ?k" for q
  proof (cases "q = p")
    case True
    then show ?thesis using f(1) assms(8) unfolding w1(2)
      by (simp add: beat_ok_def hnum_ok_def int_text_def) (simp add: heartbeat_effect_def Let_def fields obs_simps)
  next
    case False
    then have "kv (db w1) (redisKeyHeartbeat ns q) = kv (db w) (redisKeyHeartbeat ns q)"
      unfolding w1(2) by (simp add: heartbeat_effect_def Let_def fields obs_simps heartbeat_key_other) (simp add: redisKeyHeartbeat_def)
    with that assms(5) mem show ?thesis by auto
  qed
  have rp: "dNamespace ?rp = ns" by (simp add: newDeadPoolReaper_def)
  have set: "set_type (kv (db w1) ?k)" unfolding w1(2)
    by (simp add: heartbeat_effect_def fields Let_def obs_simps heartbeat_key_other [symmetric])
  have fin: "finite (smem (db w1) ?k)" using assms(4) by (simp add: mem)
  obtain ds w' where ds: "findDeadPools R ?rp clock w1 = (Inr ds, w')" "up w'" "db w' = db w1" and
    dead: "\<forall>p names. (p, names) \<in> set ds \<longleftrightarrow> p \<in> smem (db w1) ?k \<and> verdict ?rp (clock p) (hsh (db w1) (redisKeyHeartbeat ns p)) = Some names"
    using redis_link.findDeadPools_up [OF assms(1) w1(1), of ?rp clock, unfolded rp, OF set fin ballI [OF beat]] by blast
  have "strings_Split (strings_Join (sort names) CHR '','') CHR '','' = sort names"
    using assms(7) by (intro strings_Split_Join) (use assms(6) in \<open>metis set_empty set_sort\<close>, simp)
  then have "verdict ?rp (clock p) (hsh (db w1) (redisKeyHeartbeat ns p)) =
      (if clock p < (t + 10) * 1000000000 then None else Some (sort names))"
    by (simp add: verdict_def f newDeadPoolReaper_def default_deadTime_def)
  then have "(p, ns') \<in> set ds \<longleftrightarrow> (t + 10) * 1000000000 \<le> clock p \<and> ns' = sort names" for ns'
    using dead mem by (simp add: eq_commute [of ns'])
  with ds show ?thesis by simp
qed

theorem heartbeat_decides_death_witness:
  "\<exists>ds w'. findDeadPools mem_redis (newDeadPoolReaper ''w'' []) (\<lambda>_. 42000000000)
       (snd (hb_start mem_redis 30 31 (newWorkerPoolHeartbeater ''w'' ''p'' [''b'', ''a''] 10 [] 7 None, sample_world))) = (Inr ds, w') \<and>
     (\<exists>ns. (''p'', ns) \<in> set ds)"
  using heartbeat_decides_death [OF mem_link.redis_link_axioms, of sample_world "''w''" "''p''" "[''b'', ''a'']" 31 _ 30 10 "[]" 7 None "[]" "\<lambda>_. 42000000000"]
  by (auto simp: sample_world_def mem_up_def empty_keyspace_def beat_ok_def hnum_ok_def in_i64_def)

text \<open>C25: if the heartbeat of a pool is gone, its locks are given back but its jobs stay in progress: they
  are not put back into their queues, and no pool that fetches will see them.\<close>

theorem lost_heartbeat_strands_jobs:
  assumes "redis_link R db up" and "up w" and "cluster_ok ns P (db w)" and "q_room ns (db w)" and "p \<in> P"
    and "\<forall>n\<in>set (curJobTypes rp). plain n" and "distinct (curJobTypes rp)" and "dNamespace rp = ns"
    and "set_type (kv (db w) (redisKeyWorkerPools ns))"
  shows "\<exists>w'. reapPool R rp p [] w = Some (Inr (), w') \<and> p \<notin> smem (db w') (redisKeyWorkerPools ns) \<and>
    (\<forall>n\<in>set (curJobTypes rp).
       lst (db w') (redisKeyJobs ns n) = lst (db w) (redisKeyJobs ns n) \<and>
       lst (db w') (redisKeyJobsInProgress ns p n) = lst (db w) (redisKeyJobsInProgress ns p n) \<and>
       num (db w') (redisKeyJobsLock ns n) = num (db w) (redisKeyJobsLock ns n) - int (length (lst (db w) (redisKeyJobsInProgress ns p n))))"
proof -
  obtain w' where w': "reapPool R rp p [] w = Some (Inr (), w')"
    "abs_q ns (db w') = fold (q_release p) (curJobTypes rp) (abs_q ns (db w))"
    "smem (db w') (redisKeyWorkerPools ns) = smem (db w) (redisKeyWorkerPools ns) - {p}"
    using redis_link.reap_finish_up [OF assms] assms(8) by (auto simp: reapPool_def Let_def)
  have P: "plain p" using assms(3,5) by (simp add: cluster_ok_def)
  have "lst (db w') (redisKeyJobs ns n) = lst (db w) (redisKeyJobs ns n)"
    "lst (db w') (redisKeyJobsInProgress ns p n) = lst (db w) (redisKeyJobsInProgress ns p n)"
    "num (db w') (redisKeyJobsLock ns n) = num (db w) (redisKeyJobsLock ns n) - int (length (lst (db w) (redisKeyJobsInProgress ns p n)))"
    if n: "n \<in> set (curJobTypes rp)" for n
  proof -
    have "plain n" using n assms(6) by blast
    note abs = w'(2) [unfolded fold_release [OF assms(7)]]
    note held = cluster_ok_bounds(3) [OF assms(3) \<open>plain n\<close> assms(5)] held_le_locks [OF assms(3,5), of n]
    show "lst (db w') (redisKeyJobs ns n) = lst (db w) (redisKeyJobs ns n)"
      "lst (db w') (redisKeyJobsInProgress ns p n) = lst (db w) (redisKeyJobsInProgress ns p n)"
      "num (db w') (redisKeyJobsLock ns n) = num (db w) (redisKeyJobsLock ns n) - int (length (lst (db w) (redisKeyJobsInProgress ns p n)))"
      using arg_cong [OF abs, of "\<lambda>q. waiting q n"] arg_cong [OF abs, of "\<lambda>q. running q p n"]
        arg_cong [OF abs, of "\<lambda>q. locks q n"] n \<open>plain n\<close> P held by (simp_all add: abs_q_fields)
  qed
  with w' show ?thesis by blast
qed

theorem lost_heartbeat_strands_jobs_witness:
  "\<exists>w'. reapPool mem_redis (newDeadPoolReaper ''w'' [''a'']) ''p'' [] running_world = Some (Inr (), w') \<and>
     lst (mem_db w') (redisKeyJobsInProgress ''w'' ''p'' ''a'') = [sample_raw] \<and> num (mem_db w') (redisKeyJobsLock ''w'' ''a'') = 0"
  using lost_heartbeat_strands_jobs [OF mem_link.redis_link_axioms running_world_simps(1) running_world_ok, of "''p''" "newDeadPoolReaper ''w'' [''a'']"]
  by (auto simp: newDeadPoolReaper_def running_world_simps key_simps)

end
