(* ===== verification/Pool_Facts.thy ===== *)
theory Pool_Facts
  imports Worker_Pool Reaper_Facts
begin

text \<open>
  A worker pool over its life: whatever is registered, started and stopped, its workers are members of
  the cluster that the other theories are about, and a pool that stops leaves none of its jobs behind.
\<close>

section \<open>Histories\<close>

inductive pool_history :: "'w redis \<Rightarrow> 'c workerPool \<Rightarrow> bool" for R where
  history_new: "NewWorkerPoolWithOptions ident idents ctxType ctx n ns conns backoffs = Inr wp \<Longrightarrow> pool_history R wp"
| history_middleware: "pool_history R wp \<Longrightarrow> Middleware fn wp = Inr wp' \<Longrightarrow> pool_history R wp'"
| history_job: "pool_history R wp \<Longrightarrow> JobWithOptions name jobOpts hn wp = Inr wp' \<Longrightarrow> pool_history R wp'"
| history_periodic: "pool_history R wp \<Longrightarrow> PeriodicallyEnqueue parse spec name wp = Inr wp' \<Longrightarrow> pool_history R wp'"
| history_start: "pool_history R wp \<Longrightarrow> Start R pid host (wp, w) = (wp', w') \<Longrightarrow> pool_history R wp'"
| history_stop: "pool_history R wp \<Longrightarrow> Stop R (wp, w) = Some (wp', w') \<Longrightarrow> pool_history R wp'"

text \<open>A started pool has its background processes.\<close>

definition started_ok :: "'c workerPool \<Rightarrow> bool" where
  "started_ok wp \<longleftrightarrow> started wp \<longrightarrow>
     (\<exists>rp h. deadPoolReaper wp = Some rp \<and> dNamespace rp = wpNamespace wp \<and>
        heartbeater wp = Some h \<and> hNamespace h = wpNamespace wp \<and> hPoolID h = workerPoolID wp)"

lemma pool_history_inv: "pool_history R wp \<Longrightarrow> pool_inv wp"
  by (induction rule: pool_history.induct)
    (auto intro: pool_inv_new pool_inv_Middleware pool_inv_Job pool_inv_Periodic pool_inv_Start pool_inv_Stop)

lemma pool_history_started: "pool_history R wp \<Longrightarrow> started_ok wp"
proof (induction rule: pool_history.induct)
  case (history_new ident idents ctxType ctx n ns conns backoffs wp)
  then show ?case by (auto simp: NewWorkerPoolWithOptions_def started_ok_def split: if_splits sum.splits)
next
  case (history_middleware wp fn wp')
  then show ?case by (auto simp: Middleware_def update_workers_def started_ok_def split: sum.splits)
next
  case (history_job wp name jobOpts hn wp')
  then show ?case by (auto simp: JobWithOptions_def update_workers_def started_ok_def split: sum.splits)
next
  case (history_periodic wp parse spec name wp')
  then show ?case by (auto simp: PeriodicallyEnqueue_def started_ok_def split: sum.splits)
next
  case (history_start wp pid host w wp' w')
  then show ?case
    by (auto simp: Start_def Let_def startRequeuers_def started_ok_def newDeadPoolReaper_def newWorkerPoolHeartbeater_def split: if_splits)
next
  case (history_stop wp w wp' w')
  then show ?case by (auto simp: Stop_def Let_def started_ok_def split: if_splits option.splits prod.splits)
qed

lemma removed_kept: "queue_keys_kept (hNamespace h) d (removed_effect h d)"
proof -
  let ?d = "upd (redisKeyWorkerPools (hNamespace h)) (vset (smem d (redisKeyWorkerPools (hNamespace h)) - {hPoolID h})) d"
  have "queue_keys_kept (hNamespace h) d ?d" "queue_keys_kept (hNamespace h) ?d (upd (redisKeyHeartbeat (hNamespace h) (hPoolID h)) None ?d)"
    by (rule other_key_kept [where p = "hPoolID h"], simp)+
  then show ?thesis by (simp add: removed_effect_def Let_def queue_keys_kept_def)
qed

context redis_link
begin

lemma Stop_up:
  assumes "pool_history R wp" and "started wp" and "up w" and "ns = wpNamespace wp" and "p = workerPoolID wp"
    and "names = map fst (wpJobTypes wp)" and "cluster_ok ns P (db w)" and "q_room ns (db w)" and "p \<in> P"
    and "\<forall>n\<in>set names. plain n" and "set_type (kv (db w) (redisKeyWorkerPools ns))"
  shows "\<exists>w'. Stop R (wp, w) = Some (wp\<lparr>started := False\<rparr>, w') \<and> up w' \<and>
    abs_q ns (db w') = q_abandon p (set names) (abs_q ns (db w)) \<and>
    p \<notin> smem (db w') (redisKeyWorkerPools ns) \<and> kv (db w') (redisKeyHeartbeat ns p) = None"
proof -
  obtain rp h where rp: "deadPoolReaper wp = Some rp" "dNamespace rp = ns" and
    h: "heartbeater wp = Some h" "hNamespace h = ns" "hPoolID h = p"
    using pool_history_started [OF assms(1)] assms(2,4,5) by (auto simp: started_ok_def)
  have d: "distinct names" using pool_history_inv [OF assms(1)] assms(6) by (simp add: pool_inv_def types_ok_def)
  obtain w1 where w1: "requeueInProgressJobs R rp p names w = Some (Inr (), w1)" "up w1" "cluster_ok ns P (db w1)"
    "abs_q ns (db w1) = q_abandon p (set names) (abs_q ns (db w))" "q_room ns (db w1)"
    "kv (db w1) (redisKeyWorkerPools ns) = kv (db w) (redisKeyWorkerPools ns)"
    using requeue_all_up [OF assms(3,7,8,9,10) rp(2)] by blast
  obtain w2 where w2: "cleanStaleLockInfo R rp p names w1 = (Inr (), w2)" "up w2"
    "db w2 = fold (reap_effect p) (map (\<lambda>n. sample_of ns p n 0) names) (db w1)"
    using cleanStale_up [OF w1(2,3,5) assms(9,10) d rp(2)] by blast
  have "abs_q ns (db w2) = fold (q_release p) names (abs_q ns (db w1))"
    unfolding w2(3) using w1(3) reap_typed_ok [OF w1(3,5) assms(9)] assms(10) d
    by (intro fold_reap) (auto simp: cluster_ok_def q_inv_def)
  also have "\<dots> = abs_q ns (db w1)"
    by (rule release_idle [OF w1(3) assms(9)]) (simp add: w1(4) q_abandon_def)
  finally have abs: "abs_q ns (db w2) = abs_q ns (db w1)" .
  have "set_type (kv (db w2) (redisKeyWorkerPools (hNamespace h)))"
    unfolding w2(3) h(2) fold_reap_pools using w1(6) assms(11) by simp
  from removeHeartbeat_up [OF w2(2) this]
  have w3: "up (removeHeartbeat R h w2)" "db (removeHeartbeat R h w2) = removed_effect h (db w2)" by blast+
  have "abs_q ns (removed_effect h (db w2)) = abs_q ns (db w2)" using kept_abs [OF removed_kept [of h "db w2"]] h(2) by simp
  moreover have "p \<notin> smem (removed_effect h (db w2)) (redisKeyWorkerPools ns)" "kv (removed_effect h (db w2)) (redisKeyHeartbeat ns p) = None"
    by (simp_all add: removed_effect_def h Let_def obs_simps heartbeat_key_other [symmetric])
  moreover have "Stop R (wp, w) = Some (wp\<lparr>started := False\<rparr>, removeHeartbeat R h w2)"
    using assms(2,5,6) rp(1) h(1) w1(1) w2(1) by (simp add: Stop_def Let_def logged_def)
  ultimately show ?thesis using w1(4) w3 abs by auto
qed

end

section \<open>What a pool promises\<close>

text \<open>C34: whatever is registered with a pool and however often it is started and stopped, its workers have
  its namespace, job types and middleware, a sampler with one item of positive priority per job type,
  and there are as many of them as its concurrency says.\<close>

theorem pool_invariant:
  assumes "pool_history R wp"
  shows "length (workers wp) = concurrency wp \<and> types_ok (wpJobTypes wp) \<and> (\<forall>wk\<in>set (workers wp). worker_ok wp wk)"
  using pool_history_inv [OF assms] by (simp add: pool_inv_def)

text \<open>A pool with one worker and one job type, started.\<close>

lemma sample_pool:
  obtains wp :: "unit workerPool" where "pool_history mem_redis wp" "started wp" "wpNamespace wp = ''w''" "workerPoolID wp = ''p''"
    "map fst (wpJobTypes wp) = [''a'']" "concurrency wp = 5"
proof -
  let ?fn = "\<lparr>FnType = TFunc None [type_Job] [type_error] False, FnBody = (\<lambda>s. (Returned None, s))\<rparr> :: unit handler go_func"
  obtain wp0 :: "unit workerPool" where wp0: "NewWorkerPoolWithOptions ''p'' (replicate 5 ''x'') (TStruct ''c'') () 5 ''w'' True [] = Inr wp0"
    by (simp add: NewWorkerPoolWithOptions_def validateContextType_def)
  then have f0: "wpNamespace wp0 = ''w''" "workerPoolID wp0 = ''p''" "wpJobTypes wp0 = []" "\<not> started wp0" "concurrency wp0 = 5"
    by (auto simp: NewWorkerPoolWithOptions_def validateContextType_def)
  have "isValidHandlerType (contextType wp0) (FnType ?fn)" by (auto simp: valid_handler_iff)
  then obtain wp1 where wp1: "JobWithOptions ''a'' default_options ?fn wp0 = Inr wp1"
    by (simp add: JobWithOptions_def applyDefaultsAndValidate_def default_options_def validateHandlerType_def)
  then have f1: "wpNamespace wp1 = ''w''" "workerPoolID wp1 = ''p''" "map fst (wpJobTypes wp1) = [''a'']" "\<not> started wp1" "concurrency wp1 = 5"
    using f0 by (auto simp: JobWithOptions_def update_workers_def put_type_def split: sum.splits)
  obtain wp2 w2 where wp2: "Start mem_redis 7 None (wp1, sample_world) = (wp2, w2)" by (cases "Start mem_redis 7 None (wp1, sample_world)")
  then have "wpNamespace wp2 = ''w''" "workerPoolID wp2 = ''p''" "map fst (wpJobTypes wp2) = [''a'']" "started wp2" "concurrency wp2 = 5"
    using f1 by (auto simp: Start_def Let_def startRequeuers_def)
  moreover have "pool_history mem_redis wp2"
    by (rule history_start [OF history_job [OF history_new [OF wp0] wp1] wp2])
  ultimately show ?thesis using that by simp
qed

theorem pool_invariant_witness:
  "\<exists>wp :: unit workerPool. pool_history mem_redis wp \<and> length (workers wp) = 5 \<and> types_ok (wpJobTypes wp)"
proof -
  obtain wp :: "unit workerPool" where wp: "pool_history mem_redis wp" "concurrency wp = 5" by (rule sample_pool)
  with pool_invariant [OF wp(1)] show ?thesis by auto
qed



text \<open>C26: stopping a pool ends; the jobs its workers left in progress are back at the front of their queues,
  the locks it held are free, and the pool and its heartbeat are gone.\<close>

theorem stop_returns_jobs:
  assumes "redis_link R db up" and "pool_history R wp" and "started wp" and "up w" and "ns = wpNamespace wp" and "p = workerPoolID wp"
    and "names = map fst (wpJobTypes wp)" and "cluster_ok ns P (db w)" and "q_room ns (db w)" and "p \<in> P"
    and "\<forall>n\<in>set names. plain n" and "set_type (kv (db w) (redisKeyWorkerPools ns))"
  shows "\<exists>w'. Stop R (wp, w) = Some (wp\<lparr>started := False\<rparr>, w') \<and> up w' \<and>
    p \<notin> smem (db w') (redisKeyWorkerPools ns) \<and> kv (db w') (redisKeyHeartbeat ns p) = None \<and>
    (\<forall>n\<in>set names.
       lst (db w') (redisKeyJobs ns n) = lst (db w) (redisKeyJobsInProgress ns p n) @ lst (db w) (redisKeyJobs ns n) \<and>
       lst (db w') (redisKeyJobsInProgress ns p n) = [] \<and>
       num (db w') (redisKeyJobsLock ns n) = num (db w) (redisKeyJobsLock ns n) - int (length (lst (db w) (redisKeyJobsInProgress ns p n))))"
proof -
  obtain w' where w': "Stop R (wp, w) = Some (wp\<lparr>started := False\<rparr>, w')" "up w'"
    "abs_q ns (db w') = q_abandon p (set names) (abs_q ns (db w))"
    "p \<notin> smem (db w') (redisKeyWorkerPools ns)" "kv (db w') (redisKeyHeartbeat ns p) = None"
    using redis_link.Stop_up [OF assms] by blast
  have p: "plain p" using assms(8,10) by (simp add: cluster_ok_def)
  have "lst (db w') (redisKeyJobs ns n) = lst (db w) (redisKeyJobsInProgress ns p n) @ lst (db w) (redisKeyJobs ns n)"
    "lst (db w') (redisKeyJobsInProgress ns p n) = []"
    "num (db w') (redisKeyJobsLock ns n) = num (db w) (redisKeyJobsLock ns n) - int (length (lst (db w) (redisKeyJobsInProgress ns p n)))"
    if n: "n \<in> set names" for n
    using arg_cong [OF w'(3), of "\<lambda>q. waiting q n"] arg_cong [OF w'(3), of "\<lambda>q. running q p n"]
      arg_cong [OF w'(3), of "\<lambda>q. locks q n"] n assms(11) p
    by (simp_all add: q_abandon_def abs_q_fields)
  with w' show ?thesis by blast
qed

theorem stop_returns_jobs_witness:
  "\<exists>(wp :: unit workerPool) w'. Stop mem_redis (wp, running_world) = Some (wp\<lparr>started := False\<rparr>, w') \<and>
     lst (mem_db w') (redisKeyJobs ''w'' ''a'') = [sample_raw]"
proof -
  obtain wp :: "unit workerPool" where wp: "pool_history mem_redis wp" "started wp" "wpNamespace wp = ''w''" "workerPoolID wp = ''p''"
    "map fst (wpJobTypes wp) = [''a'']" by (rule sample_pool)
  have "set_type (kv (mem_db running_world) (redisKeyWorkerPools ''w''))" by (simp add: running_world_simps key_simps)
  with stop_returns_jobs [OF mem_link.redis_link_axioms wp(1,2) running_world_simps(1) wp(3) [symmetric] wp(4) [symmetric] wp(5) [symmetric]
      running_world_ok] show ?thesis by (auto simp: running_world_simps key_simps)
qed

text \<open>A drain is over when the next fetch of every worker finds nothing.\<close>

theorem drain_completes:
  assumes "\<forall>l\<in>set ls. 0 \<le> consequtiveNoJobs l \<and> consequtiveNoJobs l < 2 ^ 63 - 1" and "backoffs \<noteq> []"
  shows "\<exists>ls'. map (after_fetch backoffs (Inr None)) (Drain_requests ls) = map Some ls' \<and> Drain_returns ls ls' \<and>
    (\<forall>l\<in>set ls'. \<not> drained l)"
  using assms(1)
proof (induction ls)
  case Nil
  show ?case by (simp add: Drain_requests_def Drain_returns_def)
next
  case (Cons l ls)
  then obtain ls' where ls': "map (after_fetch backoffs (Inr None)) (Drain_requests ls) = map Some ls'" "Drain_returns ls ls'"
    "\<forall>l\<in>set ls'. \<not> drained l" by auto
  obtain l' where "after_fetch backoffs (Inr None) (l\<lparr>drained := True, timer := 0\<rparr>) = Some l'" "drainAcks l' = Suc (drainAcks l)" "\<not> drained l'"
    using after_fetch_idle [OF assms(2), of "l\<lparr>drained := True, timer := 0\<rparr>"] Cons.prems by auto
  with ls' show ?case by (intro exI [of _ "l' # ls'"]) (simp add: Drain_requests_def Drain_returns_def)
qed

theorem drain_completes_witness:
  "\<exists>ls'. map (after_fetch sleepBackoffsInMilliseconds (Inr None)) (Drain_requests [loop_init, loop_init]) = map Some ls' \<and>
     Drain_returns [loop_init, loop_init] ls'"
  using drain_completes [of "[loop_init, loop_init]" sleepBackoffsInMilliseconds]
  by (auto simp: loop_init_def sleepBackoffsInMilliseconds_def)

end
