(* ===== verification/Client.thy ===== *)
theory Client
  imports Enqueuer
begin

text \<open>
  \<open>client.go\<close>: what the web UI shows and does. It reads heartbeats, observations, queues and the
  three sorted sets, and deletes and retries jobs in them.
\<close>

section \<open>Helpers\<close>

text \<open>A received reply, passed through a reply helper.\<close>

definition received_as :: "('r \<Rightarrow> rerr + 'a) \<Rightarrow> go_err + 'r \<Rightarrow> go_err + 'a" where
  "received_as h r = (case r of Inl err \<Rightarrow> Inl err | Inr x \<Rightarrow> lift_err (h x))"

text \<open>A loop that appends a result for each element and returns at the first error.\<close>

fun collect :: "('a \<Rightarrow> 'e + 'b) \<Rightarrow> 'a list \<Rightarrow> 'e + 'b list" where
  "collect f [] = Inr []"
| "collect f (x # xs) = (case f x of Inl err \<Rightarrow> Inl err | Inr y \<Rightarrow> map_sum id (Cons y) (collect f xs))"

section \<open>Heartbeats\<close>

record workerPoolHeartbeat =
  WorkerPoolID :: string
  HbStartedAt :: int
  HeartbeatAt :: int
  JobNames :: "string list"
  Concurrency :: nat
  Host :: string
  Pid :: int
  WorkerIDs :: "string list"

definition new_heartbeat :: "string \<Rightarrow> workerPoolHeartbeat" where
  "new_heartbeat wpid =
     \<lparr>WorkerPoolID = wpid, HbStartedAt = 0, HeartbeatAt = 0, JobNames = [], Concurrency = 0, Host = [], Pid = 0,
       WorkerIDs = []\<rparr>"

definition heartbeat_field :: "string \<Rightarrow> string \<Rightarrow> workerPoolHeartbeat \<Rightarrow> go_err + workerPoolHeartbeat" where
  "heartbeat_field key val hb =
     (let int_field = (\<lambda>set_it. case strconv_ParseInt val of None \<Rightarrow> Inl (NumError ''ParseInt'' val (num_reason (unsigned_part val))) | Some n \<Rightarrow> Inr (set_it n)) in
      if key = ''heartbeat_at'' then int_field (\<lambda>n. hb\<lparr>HeartbeatAt := n\<rparr>)
      else if key = ''started_at'' then int_field (\<lambda>n. hb\<lparr>HbStartedAt := n\<rparr>)
      else if key = ''job_names'' then Inr (hb\<lparr>JobNames := sort (strings_Split val CHR '','')\<rparr>)
      else if key = ''concurrency'' then
        (case strconv_ParseUint val of None \<Rightarrow> Inl (NumError ''ParseUint'' val (num_reason val)) | Some n \<Rightarrow> Inr (hb\<lparr>Concurrency := n\<rparr>))
      else if key = ''host'' then Inr (hb\<lparr>Host := val\<rparr>)
      else if key = ''pid'' then int_field (\<lambda>n. hb\<lparr>Pid := n\<rparr>)
      else if key = ''worker_ids'' then Inr (hb\<lparr>WorkerIDs := sort (strings_Split val CHR '','')\<rparr>)
      else Inr hb)"

text \<open>The loops over field and value pairs; an odd element at the end is ignored.\<close>

fun over_pairs :: "(string \<Rightarrow> string \<Rightarrow> 'a \<Rightarrow> 'e + 'a) \<Rightarrow> string list \<Rightarrow> 'a \<Rightarrow> 'e + 'a" where
  "over_pairs f (key # val # rest) x = (case f key val x of Inl err \<Rightarrow> Inl err | Inr y \<Rightarrow> over_pairs f rest y)"
| "over_pairs f _ x = Inr x"

definition read_heartbeat :: "'w redis \<Rightarrow> string \<times> (go_err + reply) \<Rightarrow> go_err + workerPoolHeartbeat" where
  "read_heartbeat R x =
     (case received_as (redis_Strings R) (snd x) of
        Inl err \<Rightarrow> Inl err
      | Inr vals \<Rightarrow> over_pairs heartbeat_field vals (new_heartbeat (fst x)))"

definition WorkerPoolHeartbeats :: "'w redis \<Rightarrow> string \<Rightarrow> ('w, workerPoolHeartbeat list) go" where
  "WorkerPoolHeartbeats R ns =
     ebind (conn_Do R (SMEMBERS (redisKeyWorkerPools ns))) (\<lambda>r.
     ebind (conv (redis_Strings R) r) (\<lambda>ids. \<lambda>w.
       let wpids = sort ids in
       case pipeline R (map (\<lambda>wpid. call R (HGETALL (redisKeyHeartbeat ns wpid))) wpids) w of (rs, w') \<Rightarrow>
         (collect (read_heartbeat R) (zip wpids rs), w')))"

section \<open>Observations\<close>

record workerObservation =
  WorkerID :: string
  IsBusy :: bool
  ObJobName :: string
  ObJobID :: string
  ObStartedAt :: int
  ArgsJSON :: string
  ObCheckin :: string
  ObCheckinAt :: int

definition new_observation :: "string \<Rightarrow> workerObservation" where
  "new_observation wid =
     \<lparr>WorkerID = wid, IsBusy = False, ObJobName = [], ObJobID = [], ObStartedAt = 0, ArgsJSON = [], ObCheckin = [],
       ObCheckinAt = 0\<rparr>"

definition observation_field :: "string \<Rightarrow> string \<Rightarrow> workerObservation \<Rightarrow> go_err + workerObservation" where
  "observation_field key val ob0 =
     (let ob = ob0\<lparr>IsBusy := True\<rparr>;
          int_field = (\<lambda>set_it. case strconv_ParseInt val of None \<Rightarrow> Inl (NumError ''ParseInt'' val (num_reason (unsigned_part val))) | Some n \<Rightarrow> Inr (set_it n)) in
      if key = ''job_name'' then Inr (ob\<lparr>ObJobName := val\<rparr>)
      else if key = ''job_id'' then Inr (ob\<lparr>ObJobID := val\<rparr>)
      else if key = ''started_at'' then int_field (\<lambda>n. ob\<lparr>ObStartedAt := n\<rparr>)
      else if key = ''args'' then Inr (ob\<lparr>ArgsJSON := val\<rparr>)
      else if key = ''checkin'' then Inr (ob\<lparr>ObCheckin := val\<rparr>)
      else if key = ''checkin_at'' then int_field (\<lambda>n. ob\<lparr>ObCheckinAt := n\<rparr>)
      else Inr ob)"

definition read_observation :: "'w redis \<Rightarrow> string \<times> (go_err + reply) \<Rightarrow> go_err + workerObservation" where
  "read_observation R x =
     (case received_as (redis_Strings R) (snd x) of
        Inl err \<Rightarrow> Inl err
      | Inr vals \<Rightarrow> over_pairs observation_field vals (new_observation (fst x)))"

definition WorkerObservations :: "'w redis \<Rightarrow> string \<Rightarrow> ('w, workerObservation list) go" where
  "WorkerObservations R ns =
     ebind (WorkerPoolHeartbeats R ns) (\<lambda>hbs. \<lambda>w.
       let wids = concat (map WorkerIDs hbs) in
       case pipeline R (map (\<lambda>wid. call R (HGETALL (redisKeyWorkerObservation ns wid))) wids) w of (rs, w') \<Rightarrow>
         (collect (read_observation R) (zip wids rs), w'))"

section \<open>Queues\<close>

record queue =
  JobName :: string
  Count :: int
  Latency :: int
  QMaxConcurrency :: int
  LockCount :: int

text \<open>A missing counter is zero.\<close>

definition nil_is_zero :: "go_err + int \<Rightarrow> go_err + int" where
  "nil_is_zero r = (if r = Inl (RedisErr ErrNil) then Inr 0 else r)"

fun read_queues :: "'w redis \<Rightarrow> string list \<Rightarrow> (go_err + reply) list \<Rightarrow> go_err + queue list" where
  "read_queues R (jobName # names) (r1 # r2 # r3 # rs) =
     (case received_as (redis_Int64 R) r1 of
        Inl err \<Rightarrow> Inl err
      | Inr cnt \<Rightarrow>
          (case nil_is_zero (received_as (redis_Int64 R) r2) of
             Inl err \<Rightarrow> Inl err
           | Inr maxConcurrency \<Rightarrow>
               (case nil_is_zero (received_as (redis_Int64 R) r3) of
                  Inl err \<Rightarrow> Inl err
                | Inr lockCount \<Rightarrow>
                    map_sum id (Cons \<lparr>JobName = jobName, Count = cnt, Latency = 0, QMaxConcurrency = maxConcurrency,
                                  LockCount = lockCount\<rparr>) (read_queues R names rs))))"
| "read_queues R _ _ = Inr []"

text \<open>A job that cannot be read is logged and then dereferenced.\<close>

definition read_latency :: "'w redis \<Rightarrow> int \<Rightarrow> queue \<Rightarrow> go_err + reply \<Rightarrow> go_err + queue" where
  "read_latency R now q r =
     (case received_as (redis_String R) r of
        Inl err \<Rightarrow> if err = RedisErr ErrNil then Inr q else Inl err
      | Inr b \<Rightarrow>
          (case newJob b [] [] of
             None \<Rightarrow> Inl (GoPanic ''invalid memory address or nil pointer dereference'')
           | Some j \<Rightarrow> Inr (q\<lparr>Latency := wrap_i64 (now - EnqueuedAt j)\<rparr>)))"

fun read_latencies :: "'w redis \<Rightarrow> int \<Rightarrow> queue list \<Rightarrow> (go_err + reply) list \<Rightarrow> go_err + queue list" where
  "read_latencies R now [] rs = Inr []"
| "read_latencies R now (q # qs) rs =
     (if 0 < Count q then
        (case rs of
           [] \<Rightarrow> Inl (RedisErr NetErr)
         | r # rs' \<Rightarrow>
             (case read_latency R now q r of
                Inl err \<Rightarrow> Inl err
              | Inr q' \<Rightarrow> map_sum id (Cons q') (read_latencies R now qs rs')))
      else map_sum id (Cons q) (read_latencies R now qs rs))"

definition queue_requests :: "'w redis \<Rightarrow> string \<Rightarrow> string \<Rightarrow> script list" where
  "queue_requests R ns jobName =
     [call R (LLEN (redisKeyJobs ns jobName)), call R (GET (redisKeyJobsConcurrency ns jobName)),
      call R (GET (redisKeyJobsLock ns jobName))]"

definition latency_requests :: "'w redis \<Rightarrow> string \<Rightarrow> queue list \<Rightarrow> script list" where
  "latency_requests R ns qs =
     map (\<lambda>q. call R (LINDEX_LAST (redisKeyJobs ns (JobName q)))) (filter (\<lambda>q. 0 < Count q) qs)"

definition Queues :: "'w redis \<Rightarrow> string \<Rightarrow> int \<Rightarrow> ('w, queue list) go" where
  "Queues R ns now =
     ebind (conn_Do R (SMEMBERS (redisKeyKnownJobs ns))) (\<lambda>r.
     ebind (conv (redis_Strings R) r) (\<lambda>names0. \<lambda>w.
       let names = sort names0 in
       case pipeline R (concat (map (queue_requests R ns) names)) w of (rs, w1) \<Rightarrow>
         (case read_queues R names rs of
            Inl err \<Rightarrow> (Inl err, w1)
          | Inr qs \<Rightarrow>
              (case pipeline R (latency_requests R ns qs) w1 of (rs', w2) \<Rightarrow>
                 (read_latencies R now qs rs', w2)))))"

section \<open>Pages of the sorted sets\<close>

record retryJob =
  RetryAt :: int
  RJob :: job

record deadJob =
  DiedAt :: int
  DJob :: job

record jobScore =
  JobBytes :: string
  Score :: int
  jsJob :: job

definition with_job :: "string \<times> int \<Rightarrow> go_err + jobScore" where
  "with_job x =
     (case newJob (fst x) [] [] of
        None \<Rightarrow> Inl UnmarshalErr
      | Some j \<Rightarrow> Inr \<lparr>JobBytes = fst x, Score = snd x, jsJob = j\<rparr>)"

text \<open>\<open>page\<close> is a 64-bit unsigned number, and so is the offset.\<close>

definition getZsetPage :: "'w redis \<Rightarrow> string \<Rightarrow> nat \<Rightarrow> ('w, jobScore list \<times> int) go" where
  "getZsetPage R key page =
     (let p = (if page = 0 then 1 else page) in
      ebind (conn_Do R (ZRANGEBYSCORE_WITHSCORES key None None (Some ((p - 1) * 20 mod 2 ^ 64, 20)))) (\<lambda>r.
      ebind (conv (redis_Values R) r) (\<lambda>vals.
      ebind (conv (redis_ScanSlice R) vals) (\<lambda>xs.
      ebind (received (collect with_job xs)) (\<lambda>jobs.
      ebind (conn_Do R (ZCARD key)) (\<lambda>c.
      ebind (conv (redis_Int64 R) c) (\<lambda>n.
      eret (jobs, n))))))))"

definition ScheduledJobs :: "'w redis \<Rightarrow> string \<Rightarrow> nat \<Rightarrow> ('w, scheduledJob list \<times> int) go" where
  "ScheduledJobs R ns page =
     ebind (getZsetPage R (redisKeyScheduled ns) page) (\<lambda>(js, n).
     eret (map (\<lambda>x. \<lparr>RunAt = Score x, SJob = jsJob x\<rparr>) js, n))"

definition RetryJobs :: "'w redis \<Rightarrow> string \<Rightarrow> nat \<Rightarrow> ('w, retryJob list \<times> int) go" where
  "RetryJobs R ns page =
     ebind (getZsetPage R (redisKeyRetry ns) page) (\<lambda>(js, n).
     eret (map (\<lambda>x. \<lparr>RetryAt = Score x, RJob = jsJob x\<rparr>) js, n))"

definition DeadJobs :: "'w redis \<Rightarrow> string \<Rightarrow> nat \<Rightarrow> ('w, deadJob list \<times> int) go" where
  "DeadJobs R ns page =
     ebind (getZsetPage R (redisKeyDead ns) page) (\<lambda>(js, n).
     eret (map (\<lambda>x. \<lparr>DiedAt = Score x, DJob = jsJob x\<rparr>) js, n))"

section \<open>Deleting and retrying\<close>

text \<open>
  The number of values is checked before the error, so an error of the script shows as a wrong
  number of elements.
\<close>

definition deleteZsetJob :: "'w redis \<Rightarrow> string \<Rightarrow> int \<Rightarrow> string \<Rightarrow> ('w, bool \<times> string) go" where
  "deleteZsetJob R zsetKey zscore jobID =
     ebind (etry (ebind (script_Do R (redisLuaDeleteSingleCmd R zsetKey zscore jobID)) (conv (redis_Values R)))) (\<lambda>r.
       let vals = (case r of Inl (err :: go_err) \<Rightarrow> [] | Inr vs \<Rightarrow> vs) in
       if length vals \<noteq> 2 then efail (Errorf ''need 2 elements back from redis command'')
       else
         ebind (conv (redis_Int64 R) (vals ! 0)) (\<lambda>cnt.
         ebind (conv (redis_String R) (vals ! 1)) (\<lambda>jobBytes.
         eret (0 < cnt, jobBytes))))"

definition DeleteDeadJob :: "'w redis \<Rightarrow> string \<Rightarrow> int \<Rightarrow> string \<Rightarrow> ('w, unit) go" where
  "DeleteDeadJob R ns diedAt jobID =
     ebind (deleteZsetJob R (redisKeyDead ns) diedAt jobID) (\<lambda>(ok, _). if ok then eret () else efail ErrNotDeleted)"

definition DeleteRetryJob :: "'w redis \<Rightarrow> string \<Rightarrow> int \<Rightarrow> string \<Rightarrow> ('w, unit) go" where
  "DeleteRetryJob R ns retryAt jobID =
     ebind (deleteZsetJob R (redisKeyRetry ns) retryAt jobID) (\<lambda>(ok, _). if ok then eret () else efail ErrNotDeleted)"

text \<open>The unique key is computed from the arguments of the job.\<close>

definition delete_unique_key :: "'w redis \<Rightarrow> string \<Rightarrow> string \<Rightarrow> ('w, unit) go" where
  "delete_unique_key R ns jobBytes =
     (if jobBytes = [] then eret ()
      else
        (case newJob jobBytes [] [] of
           None \<Rightarrow> efail UnmarshalErr
         | Some j \<Rightarrow>
             if \<not> Unique j then eret ()
             else
               (case redisKeyUniqueJob ns (Name j) (Args j) of
                  None \<Rightarrow> efail MarshalErr
                | Some uniqueKey \<Rightarrow> ebind (conn_Do R (DEL uniqueKey)) (\<lambda>_. eret ()))))"

definition DeleteScheduledJob :: "'w redis \<Rightarrow> string \<Rightarrow> int \<Rightarrow> string \<Rightarrow> ('w, unit) go" where
  "DeleteScheduledJob R ns scheduledFor jobID =
     ebind (deleteZsetJob R (redisKeyScheduled ns) scheduledFor jobID) (\<lambda>(ok, jobBytes).
     ebind (delete_unique_key R ns jobBytes) (\<lambda>_.
     if ok then eret () else efail ErrNotDeleted))"

definition DeleteAllDeadJobs :: "'w redis \<Rightarrow> string \<Rightarrow> ('w, unit) go" where
  "DeleteAllDeadJobs R ns = ebind (conn_Do R (DEL (redisKeyDead ns))) (\<lambda>_. eret ())"

definition dead_keys :: "string \<Rightarrow> queue list \<Rightarrow> string list" where
  "dead_keys ns queues = redisKeyDead ns # map (\<lambda>q. redisKeyJobs ns (JobName q)) queues"

definition RetryDeadJob :: "'w redis \<Rightarrow> string \<Rightarrow> int \<Rightarrow> int \<Rightarrow> int \<Rightarrow> string \<Rightarrow> ('w, unit) go" where
  "RetryDeadJob R ns now now' diedAt jobID =
     ebind (Queues R ns now) (\<lambda>queues.
     ebind (script_Do R (redisLuaRequeueSingleDeadCmd R (dead_keys ns queues) (redisKeyJobsPrefix ns) now' diedAt jobID)) (\<lambda>r.
     ebind (conv (redis_Int64 R) r) (\<lambda>cnt.
     if cnt = 0 then efail ErrNotRetried else eret ())))"

fun retry_rounds :: "'w redis \<Rightarrow> string list \<Rightarrow> string \<Rightarrow> int \<Rightarrow> nat \<Rightarrow> ('w, unit) go" where
  "retry_rounds R keys prefix now 0 = eret ()"
| "retry_rounds R keys prefix now (Suc n) =
     ebind (script_Do R (redisLuaRequeueAllDeadCmd R keys prefix now 1000)) (\<lambda>r.
     ebind (conv (redis_Int64 R) r) (\<lambda>res.
     if res = 0 then eret () else retry_rounds R keys prefix now n))"

definition RetryAllDeadJobs :: "'w redis \<Rightarrow> string \<Rightarrow> int \<Rightarrow> int \<Rightarrow> ('w, unit) go" where
  "RetryAllDeadJobs R ns now now' =
     ebind (Queues R ns now) (\<lambda>queues.
     retry_rounds R (dead_keys ns queues) (redisKeyJobsPrefix ns) now' 1000)"

end
