(* ===== verification/Requeuer_Facts.thy ===== *)
theory Requeuer_Facts
  imports Requeuer
begin

text \<open>
  A round of a requeuer: it ends, and it moves exactly the jobs that are due, each to the queue of
  its name or, if the pool has no job of that name, to the dead jobs.
\<close>

section \<open>One job\<close>

definition stored_job :: "string \<Rightarrow> job" where
  "stored_job m = (case newJob m [] [] of Some j \<Rightarrow> j | None \<Rightarrow> zero_job)"

definition storable :: "string \<Rightarrow> bool" where
  "storable m \<longleftrightarrow> (\<exists>j. lua_job j \<and> serialize j = Some m \<and> Name j \<noteq> [])"

definition moved_text :: "'w redis \<Rightarrow> int \<Rightarrow> string \<Rightarrow> string" where
  "moved_text R now m = cjson_encode R (jset ''t'' (json_int now) (the (cjson_decode R m)))"

definition dead_text :: "'w redis \<Rightarrow> int \<Rightarrow> string \<Rightarrow> string" where
  "dead_text R now m = cjson_encode R (unknown_job now (the (cjson_decode R m)))"

definition move_effect :: "'w redis \<Rightarrow> string \<Rightarrow> string \<Rightarrow> string list \<Rightarrow> int \<Rightarrow> string \<Rightarrow> keyspace \<Rightarrow> keyspace" where
  "move_effect R ns zkey names now m db =
     (if Name (stored_job m) \<in> set names
      then lpush_key (redisKeyJobs ns (Name (stored_job m))) (moved_text R now m) (zrem_key zkey m db)
      else zadd_key (redisKeyDead ns) now (dead_text R now m) (zrem_key zkey m db))"

definition requeue_key :: "string \<Rightarrow> string \<Rightarrow> bool" where
  "requeue_key ns zkey \<longleftrightarrow> zkey = redisKeyRetry ns \<or> zkey = redisKeyScheduled ns"

definition requeue_ready :: "string \<Rightarrow> string \<Rightarrow> string list \<Rightarrow> keyspace \<Rightarrow> bool" where
  "requeue_ready ns zkey names db \<longleftrightarrow> zset_type (kv db zkey) \<and> zset_type (kv db (redisKeyDead ns)) \<and>
     (\<forall>n\<in>set names. list_type (kv db (redisKeyJobs ns n)))"

lemma requeue_key_other:
  assumes "requeue_key ns zkey"
  shows "redisKeyJobs ns n \<noteq> zkey" "redisKeyDead ns \<noteq> zkey" "redisKeyJobs ns n \<noteq> redisKeyDead ns"
  using assms by (auto simp: requeue_key_def key_defs)

lemma redisKeyJobs_inject [simp]: "redisKeyJobs ns n = redisKeyJobs ns n' \<longleftrightarrow> n = n'"
  by (simp add: redisKeyJobs_def)

lemma stored_name: "lua_job j \<Longrightarrow> serialize j = Some m \<Longrightarrow> Name (stored_job m) = Name j"
  using newJob_serialize [of j m "[]" "[]"] by (simp add: stored_job_def lua_job_def reread_def)

lemma moved_kv:
  assumes "requeue_key ns zkey"
  shows "kv (move_effect R ns zkey names now m db) k =
    (if k = zkey then vzset (zrem m (zst db zkey))
     else if Name (stored_job m) \<in> set names
     then (if k = redisKeyJobs ns (Name (stored_job m)) then vlist (moved_text R now m # lst db k) else kv db k)
     else if k = redisKeyDead ns then vzset (zadd now (dead_text R now m) (zst db k)) else kv db k)"
  using requeue_key_other [OF assms] by (auto simp: move_effect_def obs_simps)

lemma requeue_ready_moved:
  assumes "requeue_key ns zkey" and "requeue_ready ns zkey names db"
  shows "requeue_ready ns zkey names (move_effect R ns zkey names now m db)"
  using assms(2) by (auto simp: requeue_ready_def moved_kv [OF assms(1)] requeue_key_other [OF assms(1)]
      requeue_key_other [OF assms(1), symmetric])

context redis_site
begin

lemma decode_storable:
  assumes "storable m"
  obtains v where "cjson_decode R m = Some v" and "jget ''name'' v = Some (JStr (Name (stored_job m)))"
proof -
  from assms obtain j where j: "lua_job j" "serialize j = Some m" "Name j \<noteq> []" by (auto simp: storable_def)
  obtain a where "cjson_decode R m = Some (JObj (job_members j a))" by (rule decode_job [OF j(1,2)])
  with that j show ?thesis by (simp add: jget_job stored_name)
qed

lemma process_script:
  assumes "up w" and "redisLuaZremLpushCmd R (redisRequeueKeys rq) (redisRequeuePrefix rq) now (db w) = (Inr r, d)" and "\<not> is_err r"
  shows "\<exists>w'. process R rq now w = (redis_String R r \<in> {Inr ''dead'', Inr ''ok''}, w') \<and> up w' \<and> db w' = d"
proof -
  have "\<exists>w'. script_Do R (redisLuaZremLpushCmd R (redisRequeueKeys rq) (redisRequeuePrefix rq) now) w = (Inr r, w') \<and> up w' \<and> db w' = d"
    using assms by (rule script_up)
  then show ?thesis
    by (cases "redis_String R r") (auto simp: process_def ebind_def conv_def lift_err_def)
qed

lemma process_none:
  assumes "up w" and "zset_type (kv (db w) zkey)" and "due now (zst (db w) zkey) = []"
  shows "\<exists>w'. process R (newRequeuer ns zkey names) now w = (False, w') \<and> up w' \<and> db w' = db w"
  using process_script [OF assms(1), of "newRequeuer ns zkey names" now RNil "db w"] move_due_none [OF assms(2,3)]
  by (simp add: newRequeuer_def is_err_def String_nil)

lemma process_one:
  assumes "up w" and "requeue_key ns zkey" and "requeue_ready ns zkey names (db w)" and "score_ok now"
    and "due now (zst (db w) zkey) = (s, m) # ds" and "storable m"
  shows "\<exists>w'. process R (newRequeuer ns zkey names) now w = (True, w') \<and> up w' \<and> db w' = move_effect R ns zkey names now m (db w)"
proof -
  obtain v where v: "cjson_decode R m = Some v" "jget ''name'' v = Some (JStr (Name (stored_job m)))"
    by (rule decode_storable [OF assms(6)])
  have q: "lua_concat (redisKeyJobsPrefix ns) (jget ''name'' v) = Some (redisKeyJobs ns (Name (stored_job m)))"
    by (simp add: v(2) lua_concat_def redisKeyJobs_def)
  note other = requeue_key_other [OF assms(2)]
  obtain r where "redisLuaZremLpushCmd R (redisRequeueKeys (newRequeuer ns zkey names)) (redisRequeuePrefix (newRequeuer ns zkey names)) now (db w) =
      (Inr (RBulk r), move_effect R ns zkey names now m (db w))" "r \<in> {''dead'', ''ok''}"
  proof (cases "Name (stored_job m) \<in> set names")
    case True
    with assms(3) other that [of "''ok''"] show ?thesis
      by (auto simp: newRequeuer_def requeue_ready_def move_effect_def moved_text_def v move_due_known [OF _ assms(5) v(1) q])
  next
    case False
    then have "redisKeyJobs ns (Name (stored_job m)) \<notin> set (zkey # redisKeyDead ns # map (redisKeyJobs ns) names)"
      by (auto simp: other)
    from move_due_unknown [OF _ assms(5) v(1) q this _ assms(4)] False assms(3) that [of "''dead''"] show ?thesis
      by (simp add: newRequeuer_def requeue_ready_def move_effect_def dead_text_def v)
  qed
  with process_script [OF assms(1) this(1)] show ?thesis by (auto simp: is_err_def String_bulk)
qed

end

section \<open>A round\<close>

lemma due_zrem: "due now (zrem m z) = filter (\<lambda>x. snd x \<noteq> m) (due now z)"
  unfolding due_def zrem_def filter_filter by (rule filter_cong) auto

lemma due_first:
  assumes "due now z = (s, m) # ds" and "distinct (map snd z)"
  shows "due now (zrem m z) = ds" "distinct (map snd (zrem m z))" "length (zrem m z) < length z" "set (zrem m z) \<subseteq> set z"
proof -
  have "distinct (map snd (due now z))" using assms(2) by (simp add: due_def distinct_map inj_on_def)
  then show "due now (zrem m z) = ds" unfolding due_zrem assms(1) by (auto simp: filter_id_conv)
  show "distinct (map snd (zrem m z))" using assms(2) by (simp add: zrem_def distinct_map inj_on_def)
  have "(s, m) \<in> set (due now z)" by (simp add: assms(1))
  then have "(s, m) \<in> set z" by (simp add: due_def)
  then show "length (zrem m z) < length z" by (auto simp: zrem_def intro: length_filter_less)
  show "set (zrem m z) \<subseteq> set z" by (auto simp: zrem_def)
qed

lemma moved_zset: "requeue_key ns zkey \<Longrightarrow> zst (move_effect R ns zkey names now m db) zkey = zrem m (zst db zkey)"
  by (simp add: moved_kv)

context redis_site
begin

lemma process_all_up:
  assumes "up w" and "requeue_key ns zkey" and "requeue_ready ns zkey names (db w)" and "score_ok now"
    and "distinct (map snd (zst (db w) zkey))" and "\<forall>x\<in>set (due now (zst (db w) zkey)). storable (snd x)"
  shows "\<exists>w'. process_all R (newRequeuer ns zkey names) (\<lambda>_. now) k w = Some w' \<and> up w' \<and>
    db w' = fold (move_effect R ns zkey names now) (map snd (due now (zst (db w) zkey))) (db w)"
  using assms
proof (induction "due now (zst (db w) zkey)" arbitrary: w k)
  case Nil
  then obtain w' where "process R (newRequeuer ns zkey names) now w = (False, w')" "up w'" "db w' = db w"
    using process_none [OF Nil.prems(1) _ Nil.hyps [symmetric], of ns names] Nil.prems(3) by (auto simp: requeue_ready_def)
  with Nil(1) show ?case by (subst process_all.simps) simp
next
  case (Cons x ds)
  obtain s m where x: "x = (s, m)" by (cases x)
  note d = Cons.hyps(2) [symmetric, unfolded x]
  have "storable m" using Cons.prems(6) d by simp
  then obtain w1 where w1: "process R (newRequeuer ns zkey names) now w = (True, w1)" "up w1"
    "db w1 = move_effect R ns zkey names now m (db w)"
    using process_one [OF Cons.prems(1-4) d] by blast
  have z: "zst (db w1) zkey = zrem m (zst (db w) zkey)" by (simp add: w1(3) moved_zset [OF assms(2)])
  note f = due_first [OF d Cons.prems(5)]
  have "\<exists>w'. process_all R (newRequeuer ns zkey names) (\<lambda>_. now) (Suc k) w1 = Some w' \<and> up w' \<and>
      db w' = fold (move_effect R ns zkey names now) (map snd (due now (zst (db w1) zkey))) (db w1)"
    using Cons.prems(3,4,6) d w1(2) f
    by (intro Cons.hyps(1)) (auto simp: w1(3) moved_zset assms(2) requeue_ready_moved)
  then show ?case using w1 f(1) by (subst process_all.simps) (simp add: d moved_zset assms(2))
qed

text \<open>The clock may advance during the round: the number of stored jobs still decreases.\<close>

lemma process_all_ends:
  assumes "up w" and "requeue_key ns zkey" and "requeue_ready ns zkey names (db w)" and "\<forall>i. score_ok (now i)"
    and "distinct (map snd (zst (db w) zkey))" and "\<forall>x\<in>set (zst (db w) zkey). storable (snd x)"
  shows "\<exists>w' n. process_all R (newRequeuer ns zkey names) now k w = Some w' \<and> up w' \<and> k \<le> n \<and> n \<le> k + length (zst (db w) zkey) \<and>
    due (now n) (zst (db w') zkey) = []"
  using assms
proof (induction "length (zst (db w) zkey)" arbitrary: w k rule: less_induct)
  case less
  show ?case
  proof (cases "due (now k) (zst (db w) zkey)")
    case Nil
    then obtain w' where "process R (newRequeuer ns zkey names) (now k) w = (False, w')" "up w'" "db w' = db w"
      using process_none [OF less.prems(1) _ Nil, of ns names] less.prems(3) by (auto simp: requeue_ready_def)
    moreover from this(1) have "process_all R (newRequeuer ns zkey names) now k w = Some w'" by (subst process_all.simps) simp
    ultimately show ?thesis using Nil by (intro exI [of _ w'] exI [of _ k]) simp
  next
    case (Cons x ds)
    then obtain s m where d: "due (now k) (zst (db w) zkey) = (s, m) # ds" by (cases x) auto
    then have "(s, m) \<in> set (due (now k) (zst (db w) zkey))" by simp
    then have "(s, m) \<in> set (zst (db w) zkey)" by (simp add: due_def)
    then have "storable m" using less.prems(6) by fastforce
    then obtain w1 where w1: "process R (newRequeuer ns zkey names) (now k) w = (True, w1)" "up w1"
      "db w1 = move_effect R ns zkey names (now k) m (db w)"
      using process_one [OF less.prems(1-3) spec [OF less.prems(4)] d] by blast
    have z: "zst (db w1) zkey = zrem m (zst (db w) zkey)" by (simp add: w1(3) moved_zset [OF less.prems(2)])
    note f = due_first [OF d less.prems(5)]
    have "\<exists>w' n. process_all R (newRequeuer ns zkey names) now (Suc k) w1 = Some w' \<and> up w' \<and> Suc k \<le> n \<and>
        n \<le> Suc k + length (zst (db w1) zkey) \<and> due (now n) (zst (db w') zkey) = []"
    proof (rule less.hyps)
      show "length (zst (db w1) zkey) < length (zst (db w) zkey)" "distinct (map snd (zst (db w1) zkey))" using f z by simp_all
      show "\<forall>x\<in>set (zst (db w1) zkey). storable (snd x)" unfolding z using f(4) less.prems(6) by blast
      show "requeue_ready ns zkey names (db w1)" unfolding w1(3) using less.prems(2,3) by (rule requeue_ready_moved)
    qed (rule w1 less.prems)+
    then obtain w' n where "process_all R (newRequeuer ns zkey names) now (Suc k) w1 = Some w'" "up w'" "Suc k \<le> n"
      "n \<le> Suc k + length (zst (db w1) zkey)" "due (now n) (zst (db w') zkey) = []" by blast
    moreover have "process_all R (newRequeuer ns zkey names) now k w = process_all R (newRequeuer ns zkey names) now (Suc k) w1"
      by (subst process_all.simps) (simp add: w1(1))
    ultimately show ?thesis using f(3) by (intro exI [of _ w'] exI [of _ n]) (simp add: z)
  qed
qed

end

section \<open>Where the jobs are\<close>

lemma fold_move_zset:
  "requeue_key ns zkey \<Longrightarrow> zst (fold (move_effect R ns zkey names now) ms db) zkey = filter (\<lambda>x. snd x \<notin> set ms) (zst db zkey)"
  by (induction ms arbitrary: db) (auto simp: moved_zset zrem_def intro: filter_cong)

lemma fold_move_queue:
  assumes "requeue_key ns zkey" and "n \<in> set names"
  shows "lst (fold (move_effect R ns zkey names now) ms db) (redisKeyJobs ns n) =
    rev (map (moved_text R now) (filter (\<lambda>m. Name (stored_job m) = n) ms)) @ lst db (redisKeyJobs ns n)"
  using assms(2)
  by (induction ms arbitrary: db) (auto simp: moved_kv [OF assms(1)] requeue_key_other [OF assms(1)])

lemma fold_move_dead:
  assumes "requeue_key ns zkey"
  shows "zst (fold (move_effect R ns zkey names now) ms db) (redisKeyDead ns) =
    fold (zadd now) (map (dead_text R now) (filter (\<lambda>m. Name (stored_job m) \<notin> set names) ms)) (zst db (redisKeyDead ns))"
  by (induction ms arbitrary: db)
    (auto simp: moved_kv [OF assms] requeue_key_other [OF assms] requeue_key_other [OF assms, symmetric])

lemma not_due:
  assumes "distinct (map snd z)"
  shows "filter (\<lambda>x. snd x \<notin> set (map snd (due now z))) z = filter (\<lambda>x. now < fst x) z"
proof (rule filter_cong [OF refl])
  fix x assume x: "x \<in> set z"
  have "snd x \<in> set (map snd (due now z)) \<longleftrightarrow> fst x \<le> now"
  proof
    assume "snd x \<in> set (map snd (due now z))"
    then obtain y where "y \<in> set z" "fst y \<le> now" "snd y = snd x" by (auto simp: due_def)
    with assms x show "fst x \<le> now" by (auto simp: distinct_map dest: inj_onD)
  qed (use x in \<open>force simp: due_def\<close>)
  then show "(snd x \<notin> set (map snd (due now z))) = (now < fst x)" by auto
qed

section \<open>What a requeuer does\<close>

text \<open>C20: a round of a requeuer ends, and it moves exactly the jobs that are due: each job of a known name
  to the front of its queue in the order of the due times, every other one to the dead jobs; the jobs
  that are not due stay.\<close>

theorem requeuer_moves_due:
  assumes "redis_site R db up" and "up w" and "requeue_key ns zkey" and "requeue_ready ns zkey names (db w)"
    and "score_ok now" and "distinct (map snd (zst (db w) zkey))" and "\<forall>x\<in>set (due now (zst (db w) zkey)). storable (snd x)"
    and "ms = map snd (due now (zst (db w) zkey))"
  shows "\<exists>w'. process_all R (newRequeuer ns zkey names) (\<lambda>_. now) 0 w = Some w' \<and> up w' \<and>
    zst (db w') zkey = filter (\<lambda>x. now < fst x) (zst (db w) zkey) \<and>
    (\<forall>n\<in>set names. lst (db w') (redisKeyJobs ns n) =
       rev (map (moved_text R now) (filter (\<lambda>m. Name (stored_job m) = n) ms)) @ lst (db w) (redisKeyJobs ns n)) \<and>
    zst (db w') (redisKeyDead ns) =
      fold (zadd now) (map (dead_text R now) (filter (\<lambda>m. Name (stored_job m) \<notin> set names) ms)) (zst (db w) (redisKeyDead ns))"
  using redis_site.process_all_up [OF assms(1-7), of 0]
  by (auto simp: fold_move_zset fold_move_queue fold_move_dead assms(3,8) not_due [OF assms(6), simplified])

definition due_world :: mem_world where
  "due_world = \<lparr>mem_db = upd (redisKeyScheduled ''w'') (vzset [(5, sample_raw), (9, ''later'')]) empty_keyspace, mem_faults = []\<rparr>"

lemma due_world_simps:
  "mem_up due_world" "kv (mem_db due_world) k = (if k = redisKeyScheduled ''w'' then vzset [(5, sample_raw), (9, ''later'')] else None)"
  by (simp_all add: due_world_def mem_up_def obs_simps empty_keyspace_def)

lemma sample_lua_job: "lua_job sample_job"
  using sample_job_wf by (simp add: lua_job_members lua_int_text_json sample_job_def zero_job_def args_json_def)

lemma sample_raw_head: "sample_raw \<noteq> ''later''"
proof -
  obtain a where raw: "CHR ''{'' # print_members (job_members sample_job a) = sample_raw"
    using serialize_sample by (auto simp: serialize_def job_json_def split: option.splits)
  show ?thesis unfolding raw [symmetric] by simp
qed

lemma sample_storable: "storable sample_raw"
  using sample_lua_job serialize_sample by (auto simp: storable_def sample_job_def zero_job_def)

theorem requeuer_moves_due_witness:
  "\<exists>w'. process_all mem_redis (newRequeuer ''w'' (redisKeyScheduled ''w'') [''a'']) (\<lambda>_. 7) 0 due_world = Some w' \<and>
     zst (mem_db w') (redisKeyScheduled ''w'') = [(9, ''later'')] \<and>
     lst (mem_db w') (redisKeyJobs ''w'' ''a'') = [moved_text mem_redis 7 sample_raw]"
proof -
  have "Name (stored_job sample_raw) = ''a''"
    using stored_name [OF sample_lua_job serialize_sample] by (simp add: sample_job_def zero_job_def)
  moreover have k: "requeue_key ''w'' (redisKeyScheduled ''w'')" by (simp add: requeue_key_def)
  ultimately show ?thesis
    using requeuer_moves_due [OF mem_site.redis_site_axioms due_world_simps(1) k, of "[''a'']" 7]
    by (auto simp: requeue_ready_def due_world_simps due_def score_ok_def sample_storable sample_raw_head requeue_key_other [OF k])
qed


definition one_due :: mem_world where
  "one_due = \<lparr>mem_db = upd (redisKeyRetry ''w'') (vzset [(5, sample_raw)]) empty_keyspace, mem_faults = []\<rparr>"

lemma clock_ok: "\<forall>i. score_ok (int (min i 3))"
  by (simp add: score_ok_def min_def)


text \<open>A job that was moved is read by a worker as the job that was stored, with the time of the move as
  its enqueue time; one sent to the dead jobs keeps everything but its error and failure time.\<close>

theorem moved_job_reads_back:
  assumes "lua_cjson R" and "lua_job j" and "serialize j = Some raw" and "lua_time now"
  shows "newJob (moved_text R now raw) from inprog = Some (reread (moved_text R now raw) from inprog (retimed now j)) \<and>
    newJob (dead_text R now raw) from inprog = Some (reread (dead_text R now raw) from inprog (given_up now j))"
proof -
  obtain a where "cjson_decode R raw = Some (JObj (job_members j a))" by (rule lua_cjson.decode_job [OF assms(1-3)])
  then show ?thesis
    using lua_cjson.newJob_retimed [OF assms] lua_cjson.newJob_given_up [OF assms] by (simp add: moved_text_def dead_text_def)
qed

theorem moved_job_reads_back_witness:
  "newJob (moved_text mem_redis 7 sample_raw) ''q'' ''p'' =
     Some (reread (moved_text mem_redis 7 sample_raw) ''q'' ''p'' (sample_job\<lparr>EnqueuedAt := 7\<rparr>))"
  using moved_job_reads_back [OF mem_cjson.lua_cjson_axioms sample_lua_job serialize_sample, of 7 "''q''" "''p''"]
  by (simp add: lua_time_def retimed_def)

text \<open>C22: a due job without a name is removed and lost: the script takes it out before it fails.\<close>

theorem nameless_job_lost:
  assumes "redis_server R" and "zset_type (kv db zkey)" and "due now (zst db zkey) = (s, m) # ds"
    and "cjson_decode R m = Some j" and "jget ''name'' j = None"
  shows "\<exists>e. redisLuaZremLpushCmd R (redisRequeueKeys (newRequeuer ns zkey names)) (redisRequeuePrefix (newRequeuer ns zkey names)) now db =
    (Inl e, zrem_key zkey m db)"
  using redis_server.move_due_nameless [OF assms] by (simp add: newRequeuer_def)

theorem nameless_job_lost_witness:
  "\<exists>e. redisLuaZremLpushCmd mem_redis (redisRequeueKeys (newRequeuer ''w'' ''z'' [])) (redisRequeuePrefix (newRequeuer ''w'' ''z'' [])) 7
     (upd ''z'' (vzset [(5, ''{}'')]) empty_keyspace) = (Inl e, upd ''z'' (vzset []) (upd ''z'' (vzset [(5, ''{}'')]) empty_keyspace))"
  using nameless_job_lost [OF mem.redis_server_axioms, of "upd ''z'' (vzset [(5, ''{}'')]) empty_keyspace" "''z''" 7 5 "''{}''" "[]" "JObj []"]
    json_parse_print [of "JObj []"]
  by (simp add: obs_simps due_def zrem_def jget_def)

end
