(* ===== verification/Client_Facts.thy ===== *)
theory Client_Facts
  imports Client Requeuer_Facts
begin

text \<open>
  What the client reads and does, on a connection that is up: the queues, pages of the sorted sets, and
  deleting and retrying dead jobs.
\<close>

section \<open>Pages\<close>

definition page_of :: "nat \<Rightarrow> 'a list \<Rightarrow> 'a list" where
  "page_of page xs = take 20 (drop ((page - 1) * 20) xs)"

lemma collect_map: "\<forall>x\<in>set xs. f x = Inr (g x) \<Longrightarrow> collect f xs = Inr (map g xs)"
  by (induction xs) auto

lemma collect_comp: "collect f (map g xs) = collect (f \<circ> g) xs"
  by (induction xs) (auto split: sum.split)

lemma score_ok_i64: "score_ok s \<Longrightarrow> in_i64 s"
  by (auto simp: score_ok_def in_i64_def)

definition score_of :: "int \<times> string \<Rightarrow> jobScore" where
  "score_of x = \<lparr>JobBytes = snd x, Score = fst x, jsJob = the (newJob (snd x) [] [])\<rparr>"

context redis_link
begin

lemma getZsetPage_up:
  assumes "up w" and "zset_type (kv (db w) k)" and "1 \<le> page" and "page \<le> 2 ^ 58"
    and "\<forall>x\<in>set (zst (db w) k). score_ok (fst x) \<and> newJob (snd x) [] [] \<noteq> None"
  shows "\<exists>w'. getZsetPage R k page w = (Inr (map score_of (page_of page (zst (db w) k)), int (length (zst (db w) k))), w') \<and>
    up w' \<and> db w' = db w"
proof -
  let ?xs = "page_of page (zst (db w) k)"
  let ?r = "concat (map (\<lambda>x. [RBulk (snd x), RBulk (string_of_int (fst x))]) ?xs)"
  have off: "(page - 1) * 20 < 2 ^ 63" using assms(3,4) by auto
  have mem: "x \<in> set (zst (db w) k)" if "x \<in> set ?xs" for x
    using that by (auto simp: page_of_def dest: in_set_takeD in_set_dropD)
  have all: "zrange None None z = z" for z by (simp add: zrange_def)
  have "call R (ZRANGEBYSCORE_WITHSCORES k None None (Some ((page - 1) * 20 mod 2 ^ 64, 20))) (db w) = (RArr ?r, db w)"
    using zrangebyscore_ws [OF assms(2), of "Some ((page - 1) * 20, 20)" None None] assms(5) off
    by (simp add: zlimit_def limit_ok_def in_i64_def page_of_def all)
  from Do_up [OF assms(1) this] obtain w1 where
    w1: "conn_Do R (ZRANGEBYSCORE_WITHSCORES k None None (Some ((page - 1) * 20 mod 2 ^ 64, 20))) w = (Inr (RArr ?r), w1)" "up w1" "db w1 = db w"
    by (auto simp: is_err_def)
  have "\<forall>x\<in>set ?xs. in_i64 (fst x)" using mem assms(5) score_ok_i64 by blast
  from ScanSlice_pairs [OF this] have scan: "redis_ScanSlice R ?r = Inr (map (\<lambda>x. (snd x, fst x)) ?xs)" .
  have jobs: "collect with_job (map (\<lambda>x. (snd x, fst x)) ?xs) = Inr (map score_of ?xs)"
    using collect_map [of ?xs "with_job \<circ> (\<lambda>x. (snd x, fst x))" score_of] mem assms(5)
    by (auto simp: with_job_def score_of_def collect_comp split: option.splits)
  have "call R (ZCARD k) (db w1) = (RInt (int (length (zst (db w) k))), db w)" using zcard assms(2) by (simp add: w1(3))
  from Do_up [OF w1(2) this] obtain w2 where
    "conn_Do R (ZCARD k) w1 = (Inr (RInt (int (length (zst (db w) k)))), w2)" "up w2" "db w2 = db w"
    by (auto simp: is_err_def)
  with w1 scan jobs assms(3) show ?thesis
    by (simp add: getZsetPage_def Let_def ebind_def conv_def lift_err_def received_def eret_def Values_arr Int64_int)
qed

end

section \<open>Deleting\<close>

context redis_site
begin

lemma has_id_storable: "storable m \<Longrightarrow> has_id R i m \<longleftrightarrow> ID (stored_job m) = i"
proof -
  assume "storable m"
  then obtain j where j: "lua_job j" "serialize j = Some m" by (auto simp: storable_def)
  obtain a where "cjson_decode R m = Some (JObj (job_members j a))" by (rule decode_job [OF j])
  moreover have "ID (stored_job m) = ID j"
    using newJob_serialize [of j m "[]" "[]"] j by (simp add: stored_job_def lua_job_def reread_def)
  ultimately show ?thesis by (simp add: has_id_def jget_job)
qed

lemma deleteZsetJob_up:
  assumes "up w" and "zset_type (kv (db w) k)" and "z = zst (db w) k" and "distinct (map snd z)" and "\<forall>x\<in>set z. storable (snd x)"
    and "hits = filter (\<lambda>x. fst x = score \<and> ID (stored_job (snd x)) = jobID) z"
  shows "\<exists>w'. deleteZsetJob R k score jobID w = (Inr (hits \<noteq> [], if hits = [] then [] else snd (last hits)), w') \<and> up w' \<and>
    zst (db w') k = filter (\<lambda>x. x \<notin> set hits) z \<and> (\<forall>k'. k' \<noteq> k \<longrightarrow> kv (db w') k' = kv (db w) k')"
proof -
  let ?ms = "map snd hits" and ?m = "redisLuaDeleteSingleCmd R k score jobID"
  have dec: "cjson_decode R (snd x) \<noteq> None" if "x \<in> set z" for x
    by (rule decode_storable [OF assms(5) [rule_format, OF that]]) simp
  have "filter (has_id R jobID) (map snd (filter (\<lambda>x. fst x = score) z)) = ?ms"
    using assms(5) unfolding assms(6) filter_map filter_filter
    by (intro arg_cong [where f = "map snd"] filter_cong) (auto simp: has_id_storable)
  then have "?m (db w) = (Inr (RArr [RInt (int (length hits)), RBulk (if hits = [] then [] else snd (last hits))]), fold (zrem_key k) ?ms (db w))"
    using delete_single_effect [OF assms(2), of score jobID] dec assms(3) by (simp add: Let_def last_map)
  from script_up [where m = ?m, OF assms(1) this] obtain w' where
    w': "script_Do R ?m w = (Inr (RArr [RInt (int (length hits)), RBulk (if hits = [] then [] else snd (last hits))]), w')" "up w'"
    "db w' = fold (zrem_key k) ?ms (db w)" by (auto simp: is_err_def)
  have "filter (\<lambda>x. snd x \<notin> set ?ms) z = filter (\<lambda>x. x \<notin> set hits) z"
    using assms(4) unfolding assms(6) by (intro filter_cong) (auto simp: distinct_map inj_on_def)
  with w' zrem_all [of k ?ms "db w"] zrem_all_other [of _ k ?ms "db w"] assms(3) show ?thesis
    by (simp add: deleteZsetJob_def ebind_def etry_def conv_def lift_err_def eret_def Values_arr Int64_int String_bulk)
qed

end

section \<open>Queues\<close>

definition queue_of :: "string \<Rightarrow> int \<Rightarrow> keyspace \<Rightarrow> string \<Rightarrow> queue" where
  "queue_of ns now d n =
     \<lparr>JobName = n, Count = int (length (lst d (redisKeyJobs ns n))),
       Latency = (if lst d (redisKeyJobs ns n) = [] then 0 else wrap_i64 (now - EnqueuedAt (stored_job (last (lst d (redisKeyJobs ns n)))))),
       QMaxConcurrency = num d (redisKeyJobsConcurrency ns n), LockCount = num d (redisKeyJobsLock ns n)\<rparr>"

definition queue_ok :: "string \<Rightarrow> keyspace \<Rightarrow> string \<Rightarrow> bool" where
  "queue_ok ns d n \<longleftrightarrow>
     list_type (kv d (redisKeyJobs ns n)) \<and> num_type (kv d (redisKeyJobsConcurrency ns n)) \<and> num_type (kv d (redisKeyJobsLock ns n)) \<and>
     (lst d (redisKeyJobs ns n) \<noteq> [] \<longrightarrow> newJob (last (lst d (redisKeyJobs ns n))) [] [] \<noteq> None)"

context redis_link
begin

lemma received_num:
  assumes "num_type (kv d k)"
  shows "nil_is_zero (received_as (redis_Int64 R) (Inr (opt_bulk (str d k)))) = Inr (num d k)"
proof (cases "str d k")
  case None
  then show ?thesis by (simp add: answer_def lift_err_def received_as_def Int64_nil nil_is_zero_def num_of_def)
next
  case (Some s)
  then obtain n where "int_of_string s = Some n" "in_i64 n" "num d k = n"
    using assms by (auto simp: num_type_def num_of_def str_of_def int_text_def split: option.splits rval.splits)
  with Some show ?thesis by (simp add: answer_def lift_err_def received_as_def Int64_bulk nil_is_zero_def)
qed

lemma received_simps:
  "received_as (redis_Int64 R) (Inr (RInt n)) = Inr n"
  "received_as (redis_String R) (Inr (RBulk s)) = Inr s"
  "\<not> is_err (opt_bulk so)" "\<not> is_err (RInt n)" "\<not> is_err (RBulk s)"
  by (simp_all add: received_as_def lift_err_def Int64_int String_bulk is_err_def opt_bulk_def split: option.split)

lemma run_queue_requests:
  assumes "\<forall>n\<in>set names. queue_ok ns d n"
  shows "run_all (concat (map (queue_requests R ns) names)) d =
    (concat (map (\<lambda>n. [RInt (int (length (lst d (redisKeyJobs ns n)))), opt_bulk (str d (redisKeyJobsConcurrency ns n)),
       opt_bulk (str d (redisKeyJobsLock ns n))]) names), d)"
  using assms by (induction names) (auto simp: queue_requests_def queue_ok_def llen get)

lemma read_queues_all:
  assumes "\<forall>n\<in>set names. queue_ok ns d n"
  shows "read_queues R names (map (\<lambda>r. lift_err (answer r)) (concat (map (\<lambda>n. [RInt (int (length (lst d (redisKeyJobs ns n)))),
      opt_bulk (str d (redisKeyJobsConcurrency ns n)), opt_bulk (str d (redisKeyJobsLock ns n))]) names))) =
    Inr (map (\<lambda>n. (queue_of ns now d n)\<lparr>Latency := 0\<rparr>) names)"
  using assms
  by (induction names)
    (auto simp: queue_ok_def received_num received_simps queue_of_def)

lemma run_latency_requests:
  assumes "\<forall>n\<in>set names. queue_ok ns d n"
  shows "run_all (latency_requests R ns (map (\<lambda>n. (queue_of ns now d n)\<lparr>Latency := 0\<rparr>) names)) d =
    (map (\<lambda>n. RBulk (last (lst d (redisKeyJobs ns n)))) (filter (\<lambda>n. lst d (redisKeyJobs ns n) \<noteq> []) names), d)"
  using assms by (induction names) (auto simp: latency_requests_def queue_ok_def queue_of_def lindex_last)

lemma read_latencies_all:
  assumes "\<forall>n\<in>set names. queue_ok ns d n"
  shows "read_latencies R now (map (\<lambda>n. (queue_of ns now d n)\<lparr>Latency := 0\<rparr>) names)
      (map (\<lambda>r. lift_err (answer r)) (map (\<lambda>n. RBulk (last (lst d (redisKeyJobs ns n)))) (filter (\<lambda>n. lst d (redisKeyJobs ns n) \<noteq> []) names))) =
    Inr (map (queue_of ns now d) names)"
  using assms
  by (induction names)
    (auto simp: queue_ok_def queue_of_def read_latency_def received_simps stored_job_def)

lemma Queues_up:
  assumes "up w" and "set_type (kv (db w) (redisKeyKnownJobs ns))" and "finite (smem (db w) (redisKeyKnownJobs ns))"
    and "\<forall>n\<in>smem (db w) (redisKeyKnownJobs ns). queue_ok ns (db w) n"
  shows "\<exists>w'. Queues R ns now w = (Inr (map (queue_of ns now (db w)) (sorted_list_of_set (smem (db w) (redisKeyKnownJobs ns)))), w') \<and>
    up w' \<and> db w' = db w"
proof -
  let ?k = "redisKeyKnownJobs ns"
  obtain xs where xs: "call R (SMEMBERS ?k) (db w) = (RArr (map RBulk xs), db w)" "distinct xs" "set xs = smem (db w) ?k"
    using smembers [OF assms(2,3)] by blast
  let ?names = "sort xs"
  have names: "?names = sorted_list_of_set (smem (db w) ?k)" using xs(2,3) by (metis sorted_list_of_set_sort_remdups distinct_remdups_id)
  have ok: "\<forall>n\<in>set ?names. queue_ok ns (db w) n" using assms(4) xs(3) by simp
  from Do_up [OF assms(1) xs(1)] obtain w1 where w1: "conn_Do R (SMEMBERS ?k) w = (Inr (RArr (map RBulk xs)), w1)" "up w1" "db w1 = db w"
    by (auto simp: is_err_def)
  from pipe_up [OF w1(2)] run_queue_requests [OF ok] obtain w2 where
    w2: "pipeline R (concat (map (queue_requests R ns) ?names)) w1 =
      (map (\<lambda>r. lift_err (answer r)) (concat (map (\<lambda>n. [RInt (int (length (lst (db w) (redisKeyJobs ns n)))),
         opt_bulk (str (db w) (redisKeyJobsConcurrency ns n)), opt_bulk (str (db w) (redisKeyJobsLock ns n))]) ?names)), w2)"
    "up w2" "db w2 = db w" unfolding w1(3) by blast
  from pipe_up [OF w2(2)] run_latency_requests [OF ok, of now] obtain w3 where
    w3: "pipeline R (latency_requests R ns (map (\<lambda>n. (queue_of ns now (db w) n)\<lparr>Latency := 0\<rparr>) ?names)) w2 =
      (map (\<lambda>r. lift_err (answer r)) (map (\<lambda>n. RBulk (last (lst (db w) (redisKeyJobs ns n))))
         (filter (\<lambda>n. lst (db w) (redisKeyJobs ns n) \<noteq> []) ?names)), w3)" "up w3" "db w3 = db w" unfolding w2(3) by blast
  show ?thesis
    using w1 w2 w3 read_queues_all [OF ok, of now] read_latencies_all [OF ok, of now]
    by (simp add: Queues_def ebind_def conv_def lift_err_def Strings_arr Let_def names [symmetric])
qed

end

section \<open>Retrying dead jobs\<close>

lemma dead_typed_fold: "dead_typed keys d \<Longrightarrow> dead_typed keys (fold (revive_effect R keys prefix now) ms d)"
  by (induction ms arbitrary: d) (auto simp: dead_typed_revive)

lemma due_rest:
  assumes "distinct (map snd z)"
  shows "due now (filter (\<lambda>x. snd x \<notin> set (map snd (take n (due now z)))) z) = drop n (due now z)"
    and "distinct (map snd (filter (\<lambda>x. snd x \<notin> set (map snd (take n (due now z)))) z))"
proof -
  let ?xs = "due now z" and ?P = "\<lambda>x. snd x \<notin> set (map snd (take n (due now z)))"
  have d: "distinct (map snd (take n ?xs @ drop n ?xs))" using assms by (simp add: due_def distinct_map inj_on_def)
  have "due now (filter ?P z) = filter ?P (take n ?xs @ drop n ?xs)"
    unfolding append_take_drop_id by (auto simp: due_def intro: filter_cong)
  also have "\<dots> = drop n ?xs"
    using d unfolding filter_append map_append distinct_append
    by (auto simp: filter_empty_conv filter_id_conv)
  finally show "due now (filter ?P z) = drop n ?xs" .
  show "distinct (map snd (filter ?P z))" using assms by (simp add: distinct_map inj_on_def)
qed

context redis_link
begin

lemma retry_rounds_up:
  assumes "up w" and "dead_typed keys (db w)" and "z = zst (db w) (hd keys)" and "distinct (map snd z)"
    and "\<forall>x\<in>set (due now z). dead_known R keys prefix (snd x)" and "score_ok (now + 5)"
  shows "\<exists>w'. retry_rounds R keys prefix now n w = (Inr (), w') \<and> up w' \<and>
    db w' = fold (revive_effect R keys prefix now) (map snd (take (1000 * n) (due now z))) (db w)"
  using assms
proof (induction n arbitrary: w z)
  case (Suc n)
  let ?ms = "map snd (take 1000 (due now z))" and ?m = "redisLuaRequeueAllDeadCmd R keys prefix now 1000"
  let ?d = "fold (revive_effect R keys prefix now) ?ms (db w)"
  have known: "\<forall>m\<in>set ?ms. dead_known R keys prefix m" using Suc.prems(5) by (auto dest: in_set_takeD)
  have ok: "\<forall>x\<in>set (due now (zst (db w) (hd keys))). dead_ok R keys prefix (snd x)"
    using Suc.prems(2,3,5) by (fastforce simp: dead_known_def dead_ok_def dead_typed_def split: option.splits)
  have "?m (db w) = (Inr (RInt (int (length ?ms))), ?d)"
    using requeue_all_effect [OF Suc.prems(2) ok Suc.prems(6), of 1000] known Suc.prems(3)
    by (simp add: Let_def in_i64_def filter_id_conv)
  from script_up [where m = ?m, OF Suc.prems(1) this] obtain w1 where
    w1: "script_Do R ?m w = (Inr (RInt (int (length ?ms))), w1)" "up w1" "db w1 = ?d" by (auto simp: is_err_def)
  show ?case
  proof (cases "due now z")
    case Nil
    with w1 show ?thesis by (simp add: ebind_def conv_def lift_err_def Int64_int eret_def)
  next
    case (Cons x xs)
    have z1: "zst ?d (hd keys) = filter (\<lambda>x. snd x \<notin> set ?ms) z"
      using revive_all_known(1) [OF known Suc.prems(2)] Suc.prems(3) by simp
    have typed: "dead_typed keys ?d" by (rule dead_typed_fold [OF Suc.prems(2)])
    note rest = due_rest [where now = now and n = 1000, OF Suc.prems(4)]
    have "\<exists>w'. retry_rounds R keys prefix now n w1 = (Inr (), w') \<and> up w' \<and>
        db w' = fold (revive_effect R keys prefix now) (map snd (take (1000 * n) (drop 1000 (due now z)))) (db w1)"
      unfolding rest(1) [symmetric]
    proof (rule Suc.IH [OF w1(2) _ _ rest(2) _ Suc.prems(6)])
      show "dead_typed keys (db w1)" using typed w1(3) by simp
      show "filter (\<lambda>x. snd x \<notin> set ?ms) z = zst (db w1) (hd keys)" using z1 w1(3) by simp
      show "\<forall>x\<in>set (due now (filter (\<lambda>x. snd x \<notin> set ?ms) z)). dead_known R keys prefix (snd x)"
        unfolding rest(1) using Suc.prems(5) by (auto dest: in_set_dropD)
    qed
    moreover have "retry_rounds R keys prefix now (Suc n) w = retry_rounds R keys prefix now n w1"
      using w1(1) Cons by (simp add: ebind_def conv_def lift_err_def Int64_int)
    moreover have "take (1000 * Suc n) (due now z) = take 1000 (due now z) @ take (1000 * n) (drop 1000 (due now z))"
      using take_add [of 1000 "1000 * n" "due now z"] by simp
    ultimately show ?thesis using w1(3) by simp
  qed
qed (simp add: eret_def)

end

definition revived_text :: "'w redis \<Rightarrow> int \<Rightarrow> string \<Rightarrow> string" where
  "revived_text R now m = cjson_encode R (revived now (the (cjson_decode R m)))"

context redis_site
begin

lemma dead_queue_storable: "storable m \<Longrightarrow> dead_queue R (redisKeyJobsPrefix ns) m = Some (redisKeyJobs ns (Name (stored_job m)))"
  by (erule decode_storable) (simp add: dead_queue_def lua_concat_def redisKeyJobs_def)

lemma RetryAllDeadJobs_up:
  assumes "up w" and "K = smem (db w) (redisKeyKnownJobs ns)" and "set_type (kv (db w) (redisKeyKnownJobs ns))" and "finite K"
    and "\<forall>n\<in>K. queue_ok ns (db w) n" and "zset_type (kv (db w) (redisKeyDead ns))" and "z = zst (db w) (redisKeyDead ns)"
    and "distinct (map snd z)" and "ms = map snd (due now' z)" and "\<forall>m\<in>set ms. storable m \<and> Name (stored_job m) \<in> K"
    and "length ms \<le> 1000000" and "score_ok (now' + 5)"
  shows "\<exists>w'. RetryAllDeadJobs R ns now now' w = (Inr (), w') \<and> up w' \<and>
    zst (db w') (redisKeyDead ns) = filter (\<lambda>x. now' < fst x) z \<and>
    (\<forall>n\<in>K. lst (db w') (redisKeyJobs ns n) =
       rev (map (revived_text R now') (filter (\<lambda>m. Name (stored_job m) = n) ms)) @ lst (db w) (redisKeyJobs ns n))"
proof -
  let ?names = "sorted_list_of_set K" and ?prefix = "redisKeyJobsPrefix ns"
  let ?keys = "dead_keys ns (map (queue_of ns now (db w)) ?names)"
  have keys: "?keys = redisKeyDead ns # map (redisKeyJobs ns) ?names" by (simp add: dead_keys_def queue_of_def o_def)
  have other: "redisKeyJobs ns n \<noteq> redisKeyDead ns" for n by (simp add: key_defs)
  obtain w1 where w1: "Queues R ns now w = (Inr (map (queue_of ns now (db w)) ?names), w1)" "up w1" "db w1 = db w"
    using Queues_up [of w ns now] assms(1-5) by auto
  have typed: "dead_typed ?keys (db w)"
    using assms(4,5,6) other by (auto simp: dead_typed_def keys queue_ok_def)
  have known: "\<forall>m\<in>set ms. dead_known R ?keys ?prefix m"
    using assms(4,10) by (auto simp: dead_known_def keys dead_queue_storable)
  have "\<exists>w'. retry_rounds R ?keys ?prefix now' 1000 w1 = (Inr (), w') \<and> up w' \<and>
      db w' = fold (revive_effect R ?keys ?prefix now') (map snd (take (1000 * 1000) (due now' z))) (db w1)"
    using typed known assms(7,9) w1(3) by (intro retry_rounds_up [OF w1(2) _ _ assms(8) _ assms(12)]) (simp_all add: keys)
  moreover have "map snd (take (1000 * 1000) (due now' z)) = ms" using assms(9,11) by simp
  ultimately obtain w' where w': "retry_rounds R ?keys ?prefix now' 1000 w1 = (Inr (), w')" "up w'"
    "db w' = fold (revive_effect R ?keys ?prefix now') ms (db w)" using w1(3) by auto
  have "zst (db w') (redisKeyDead ns) = filter (\<lambda>x. now' < fst x) z"
    using revive_all_known(1) [OF known typed, of now'] not_due [OF assms(8), of now'] assms(7,9) by (simp add: w'(3) keys)
  moreover have "lst (db w') (redisKeyJobs ns n) =
      rev (map (revived_text R now') (filter (\<lambda>m. Name (stored_job m) = n) ms)) @ lst (db w) (redisKeyJobs ns n)" for n
  proof -
    have "filter (\<lambda>m. dead_queue R ?prefix m = Some (redisKeyJobs ns n)) ms = filter (\<lambda>m. Name (stored_job m) = n) ms"
      using assms(10) by (intro filter_cong) (auto simp: dead_queue_storable)
    then show ?thesis
      using revive_all_known(2) [OF known typed, of "redisKeyJobs ns n" now'] other by (simp add: w'(3) keys revived_text_def [abs_def])
  qed
  ultimately show ?thesis using w1(1) w'(1,2) by (simp add: RetryAllDeadJobs_def ebind_def)
qed

end

section \<open>What the client does\<close>

text \<open>C28: deleting a dead job removes the entries with its time of death and identifier and nothing else; if
  there is none, the error says so.\<close>

theorem delete_dead_job:
  assumes "redis_site R db up" and "up w" and "zset_type (kv (db w) (redisKeyDead ns))" and "z = zst (db w) (redisKeyDead ns)"
    and "distinct (map snd z)" and "\<forall>x\<in>set z. storable (snd x)"
    and "hits = filter (\<lambda>x. fst x = diedAt \<and> ID (stored_job (snd x)) = jobID) z"
  shows "\<exists>w'. DeleteDeadJob R ns diedAt jobID w = (if hits = [] then Inl ErrNotDeleted else Inr (), w') \<and> up w' \<and>
    zst (db w') (redisKeyDead ns) = filter (\<lambda>x. x \<notin> set hits) z \<and>
    (\<forall>k. k \<noteq> redisKeyDead ns \<longrightarrow> kv (db w') k = kv (db w) k)"
  using redis_site.deleteZsetJob_up [OF assms] by (auto simp: DeleteDeadJob_def ebind_def eret_def efail_def)

definition dead_world :: mem_world where
  "dead_world = \<lparr>mem_db = upd (redisKeyDead ''w'') (vzset [(5, sample_raw)]) (upd (redisKeyKnownJobs ''w'') (vset {''a''}) empty_keyspace), mem_faults = []\<rparr>"

lemma dead_world_simps:
  "mem_up dead_world" "kv (mem_db dead_world) k =
     (if k = redisKeyDead ''w'' then vzset [(5, sample_raw)] else if k = redisKeyKnownJobs ''w'' then vset {''a''} else None)"
  by (simp_all add: dead_world_def mem_up_def obs_simps empty_keyspace_def)

lemma stored_sample: "Name (stored_job sample_raw) = ''a''" "ID (stored_job sample_raw) = ''1''"
  using newJob_serialize [OF sample_job_wf serialize_sample, of "[]" "[]"]
  by (simp_all add: stored_job_def reread_def sample_job_def zero_job_def)

theorem delete_dead_job_witness:
  "\<exists>w'. DeleteDeadJob mem_redis ''w'' 5 ''1'' dead_world = (Inr (), w') \<and> zst (mem_db w') (redisKeyDead ''w'') = []"
  using delete_dead_job [OF mem_site.redis_site_axioms dead_world_simps(1) _ refl _ _ refl, of "''w''" 5 "''1''"]
  by (auto simp: dead_world_simps sample_storable stored_sample)



end
