(* ===== verification/Heartbeat_Facts.thy ===== *)
theory Heartbeat_Facts
  imports Client Heartbeater
begin

text \<open>
  The heartbeats as the client sees them: what worker pools write and \<open>WorkerPoolHeartbeats\<close> reads is a
  map from pool identifiers to the last heartbeat of each pool.
\<close>

section \<open>Reading a hash of fields\<close>

definition int_fields :: "string set" where
  "int_fields = {''heartbeat_at'', ''started_at'', ''pid''}"

definition readable :: "string \<Rightarrow> string \<Rightarrow> bool" where
  "readable key val \<longleftrightarrow> (key \<in> int_fields \<longrightarrow> strconv_ParseInt val \<noteq> None) \<and> (key = ''concurrency'' \<longrightarrow> strconv_ParseUint val \<noteq> None)"

definition field :: "(string \<Rightarrow> string option) \<Rightarrow> string \<Rightarrow> (string \<Rightarrow> 'a) \<Rightarrow> 'a \<Rightarrow> 'a" where
  "field m key f old = (case m key of None \<Rightarrow> old | Some val \<Rightarrow> f val)"

lemma field_simps:
  "m key = None \<Longrightarrow> field m key f old = old" "m key = Some val \<Longrightarrow> field m key f old = f val"
  "field (m(key' \<mapsto> val)) key f old = (if key' = key then f val else field m key f old)"
  by (simp_all add: field_def)

definition seen :: "(string \<Rightarrow> string option) \<Rightarrow> workerPoolHeartbeat \<Rightarrow> workerPoolHeartbeat" where
  "seen m hb =
     \<lparr>WorkerPoolID = WorkerPoolID hb,
      HbStartedAt = field m ''started_at'' (the \<circ> strconv_ParseInt) (HbStartedAt hb),
      HeartbeatAt = field m ''heartbeat_at'' (the \<circ> strconv_ParseInt) (HeartbeatAt hb),
      JobNames = field m ''job_names'' (\<lambda>s. sort (strings_Split s CHR '','')) (JobNames hb),
      Concurrency = field m ''concurrency'' (the \<circ> strconv_ParseUint) (Concurrency hb),
      Host = field m ''host'' id (Host hb),
      Pid = field m ''pid'' (the \<circ> strconv_ParseInt) (Pid hb),
      WorkerIDs = field m ''worker_ids'' (\<lambda>s. sort (strings_Split s CHR '','')) (WorkerIDs hb)\<rparr>"

lemma heartbeat_field_seen:
  assumes "readable key val" and "m key = None"
  shows "\<exists>hb'. Client.heartbeat_field key val hb = Inr hb' \<and> seen m hb' = seen (m(key \<mapsto> val)) hb"
proof -
  note defs = Client.heartbeat_field_def readable_def int_fields_def seen_def field_simps Let_def
  consider (int) "key \<in> int_fields" | (uint) "key = ''concurrency''" | (host) "key = ''host''"
    | (names) "key = ''job_names''" | (ids) "key = ''worker_ids''"
    | (other) "key \<notin> int_fields \<union> {''concurrency'', ''host'', ''job_names'', ''worker_ids''}" by blast
  then show ?thesis
  proof cases
    case int
    then obtain n where "strconv_ParseInt val = Some n" using assms(1) by (auto simp: readable_def)
    with int assms(2) show ?thesis unfolding int_fields_def
      by (elim insertE emptyE) (simp_all add: defs)
  next
    case uint
    then obtain n where "strconv_ParseUint val = Some n" using assms(1) by (auto simp: readable_def)
    with uint assms(2) show ?thesis by (simp add: defs)
  qed (use assms(2) in \<open>simp_all add: defs\<close>)
qed

text \<open>The order in which the server lists the fields is irrelevant.\<close>

lemma over_pairs_seen:
  assumes "distinct (map fst ps)" and "\<forall>x\<in>set ps. readable (fst x) (snd x)"
  shows "over_pairs Client.heartbeat_field (flat_pairs ps) hb = Inr (seen (map_of ps) hb)"
  using assms
proof (induction ps arbitrary: hb)
  case Nil
  then show ?case by (simp add: seen_def field_def)
next
  case (Cons x ps)
  then have "map_of ps (fst x) = None" by (simp add: map_of_eq_None_iff)
  with Cons.prems(2) obtain hb' where hb: "Client.heartbeat_field (fst x) (snd x) hb = Inr hb'"
    "seen (map_of ps) hb' = seen ((map_of ps)(fst x \<mapsto> snd x)) hb"
    using heartbeat_field_seen [of "fst x" "snd x" "map_of ps" hb] by auto
  have "over_pairs Client.heartbeat_field (flat_pairs (x # ps)) hb = over_pairs Client.heartbeat_field (flat_pairs ps) hb'"
    using hb(1) by (cases x) simp
  also have "\<dots> = Inr (seen (map_of ps) hb')" using Cons.prems by (intro Cons.IH) simp_all
  also have "seen (map_of ps) hb' = seen (map_of (x # ps)) hb" unfolding hb(2) by (cases x) (simp only: map_of.simps prod.sel)
  finally show ?case .
qed

section \<open>The map of heartbeats\<close>

type_synonym beats = "string \<Rightarrow> (workerPoolHeartbeater \<times> int) option"

definition sendable :: "workerPoolHeartbeater \<Rightarrow> int \<Rightarrow> bool" where
  "sendable h t \<longleftrightarrow> in_i64 t \<and> in_i64 (hStartedAt h) \<and> in_i64 (hPid h) \<and> hConcurrency h < 2 ^ 64"

definition shown :: "workerPoolHeartbeater \<times> int \<Rightarrow> workerPoolHeartbeat" where
  "shown = (\<lambda>(h, t).
     \<lparr>WorkerPoolID = hPoolID h, HbStartedAt = hStartedAt h, HeartbeatAt = t,
      JobNames = sort (strings_Split (hJobNames h) CHR '',''), Concurrency = hConcurrency h, Host = hHostname h,
      Pid = hPid h, WorkerIDs = sort (strings_Split (hWorkerIDs h) CHR '','')\<rparr>)"

definition stored_beat :: "string \<Rightarrow> string \<Rightarrow> (workerPoolHeartbeater \<times> int) option \<Rightarrow> rval option \<Rightarrow> bool" where
  "stored_beat ns p b v \<longleftrightarrow>
     (case b of
        None \<Rightarrow> v = None
      | Some (h, t) \<Rightarrow> hNamespace h = ns \<and> hPoolID h = p \<and> sendable h t \<and> hash_type v \<and>
          map_of (hash_of v) = map_of (heartbeat_fields h t))"

definition announced :: "string \<Rightarrow> beats \<Rightarrow> keyspace \<Rightarrow> bool" where
  "announced ns bs d \<longleftrightarrow>
     finite (dom bs) \<and> set_type (kv d (redisKeyWorkerPools ns)) \<and> smem d (redisKeyWorkerPools ns) = dom bs \<and>
     (\<forall>p. stored_beat ns p (bs p) (kv d (redisKeyHeartbeat ns p)))"

lemma readable_fields: "sendable h t \<Longrightarrow> map_of (heartbeat_fields h t) key = Some val \<Longrightarrow> readable key val"
  by (auto simp: sendable_def heartbeat_fields_def readable_def int_fields_def ParseInt_string_of_int ParseUint_string_of_int
      split: if_splits)

lemma seen_fields: "sendable h t \<Longrightarrow> seen (map_of (heartbeat_fields h t)) (new_heartbeat (hPoolID h)) = shown (h, t)"
  by (simp add: sendable_def seen_def field_def heartbeat_fields_def new_heartbeat_def shown_def
      ParseInt_string_of_int ParseUint_string_of_int)

lemma heartbeat_key_inj: "redisKeyHeartbeat ns p = redisKeyHeartbeat ns q \<longleftrightarrow> p = q"
  by (simp add: redisKeyHeartbeat_def)

text \<open>A heartbeat and its removal are an update of the map.\<close>

lemma announced_heartbeat:
  assumes "announced ns bs d" and "hNamespace h = ns" and "hPoolID h = p" and "sendable h t"
  shows "announced ns (bs(p \<mapsto> (h, t))) (heartbeat_effect h t d)"
proof -
  let ?d = "heartbeat_effect h t d"
  have old: "map_of (hsh d (redisKeyHeartbeat ns p)) f = None" if "map_of (heartbeat_fields h t) f = None" for f
  proof -
    have "stored_beat ns p (bs p) (kv d (redisKeyHeartbeat ns p))" using assms(1) by (simp add: announced_def)
    with that show ?thesis by (auto simp: stored_beat_def heartbeat_fields_def hash_of_def split: option.splits if_splits)
  qed
  have own: "map_of (hsh ?d (redisKeyHeartbeat ns p)) = map_of (heartbeat_fields h t)"
    using Heartbeater.heartbeat_field [of h t d] old assms(2,3) by (auto simp: fun_eq_iff split: option.splits)
  have "hash_type (kv ?d (redisKeyHeartbeat ns p))" using assms(2,3) by (simp add: heartbeat_effect_def Let_def obs_simps)
  then have own': "stored_beat ns p (Some (h, t)) (kv ?d (redisKeyHeartbeat ns p))"
    using assms(2-) own by (simp add: stored_beat_def)
  have other: "kv ?d (redisKeyHeartbeat ns q) = kv d (redisKeyHeartbeat ns q)" if "q \<noteq> p" for q
    using that assms(2,3) by (simp add: heartbeat_effect_def Let_def obs_simps heartbeat_key_inj heartbeat_key_other)
  have pools: "set_type (kv ?d (redisKeyWorkerPools ns))" "smem ?d (redisKeyWorkerPools ns) = insert p (smem d (redisKeyWorkerPools ns))"
    using assms(2,3) by (simp_all add: heartbeat_effect_def Let_def obs_simps heartbeat_key_other [symmetric])
  have "stored_beat ns q ((bs(p \<mapsto> (h, t))) q) (kv ?d (redisKeyHeartbeat ns q))" for q
    using own' other assms(1) by (cases "q = p") (simp_all add: announced_def)
  moreover have "dom (bs(p \<mapsto> (h, t))) = insert p (dom bs)" by auto
  ultimately show ?thesis using pools assms(1) unfolding announced_def by (intro conjI allI) simp_all
qed

lemma announced_removed:
  assumes "announced ns bs d" and "hNamespace h = ns" and "hPoolID h = p"
  shows "announced ns (bs(p := None)) (removed_effect h d)"
proof -
  let ?d = "removed_effect h d"
  have "kv ?d (redisKeyHeartbeat ns q) = (if q = p then None else kv d (redisKeyHeartbeat ns q))" for q
    using assms(2,3) by (simp add: removed_effect_def Let_def obs_simps heartbeat_key_inj heartbeat_key_other)
  moreover have "set_type (kv ?d (redisKeyWorkerPools ns))" "smem ?d (redisKeyWorkerPools ns) = smem d (redisKeyWorkerPools ns) - {p}"
    using assms(2,3) by (simp_all add: removed_effect_def Let_def obs_simps heartbeat_key_other [symmetric])
  ultimately show ?thesis using assms(1) by (auto simp: announced_def stored_beat_def [of ns p None])
qed

context redis_link
begin

lemma read_announced:
  assumes "announced ns bs d" and "bs p = Some b"
  shows "\<exists>r. call R (HGETALL (redisKeyHeartbeat ns p)) d = (r, d) \<and> read_heartbeat R (p, lift_err (answer r)) = Inr (shown b)"
proof -
  obtain h t where b: "b = (h, t)" by (cases b)
  have h: "hPoolID h = p" "sendable h t" "hash_type (kv d (redisKeyHeartbeat ns p))"
    "map_of (hsh d (redisKeyHeartbeat ns p)) = map_of (heartbeat_fields h t)"
    using assms unfolding announced_def by (auto dest!: spec [of _ p] simp: b stored_beat_def)
  obtain ps where ps: "call R (HGETALL (redisKeyHeartbeat ns p)) d = (RArr (map RBulk (flat_pairs ps)), d)"
    "distinct (map fst ps)" "map_of ps = map_of (heartbeat_fields h t)" using hgetall [OF h(3)] h(4) by auto
  have "readable (fst x) (snd x)" if "x \<in> set ps" for x
    using readable_fields [OF h(2), of "fst x" "snd x"] map_of_is_SomeI [OF ps(2), of "fst x" "snd x"] that ps(3) by simp
  then have "over_pairs Client.heartbeat_field (flat_pairs ps) (new_heartbeat p) = Inr (shown b)"
    using over_pairs_seen [OF ps(2)] seen_fields [OF h(2)] h(1) ps(3) b by simp
  with ps(1) show ?thesis by (simp add: read_heartbeat_def received_as_def is_err_def answer_def lift_err_def Strings_arr)
qed

lemma run_announced:
  assumes "announced ns bs d" and "set ps \<subseteq> dom bs"
  shows "\<exists>rs. run_all (map (\<lambda>p. call R (HGETALL (redisKeyHeartbeat ns p))) ps) d = (rs, d) \<and>
    collect (read_heartbeat R) (zip ps (map (\<lambda>r. lift_err (answer r)) rs)) = Inr (map (\<lambda>p. shown (the (bs p))) ps)"
  using assms(2)
proof (induction ps)
  case (Cons p ps)
  then obtain b rs where "bs p = Some b" and rs: "run_all (map (\<lambda>p. call R (HGETALL (redisKeyHeartbeat ns p))) ps) d = (rs, d)"
    "collect (read_heartbeat R) (zip ps (map (\<lambda>r. lift_err (answer r)) rs)) = Inr (map (\<lambda>p. shown (the (bs p))) ps)" by auto
  moreover from read_announced [OF assms(1) this(1)] obtain r where
    "call R (HGETALL (redisKeyHeartbeat ns p)) d = (r, d)" "read_heartbeat R (p, lift_err (answer r)) = Inr (shown b)" by blast
  ultimately show ?case by (intro exI [of _ "r # rs"]) simp
qed simp

lemma WorkerPoolHeartbeats_up:
  assumes "up w" and "announced ns bs (db w)"
  shows "\<exists>w'. WorkerPoolHeartbeats R ns w = (Inr (map (\<lambda>p. shown (the (bs p))) (sorted_list_of_set (dom bs))), w') \<and>
    up w' \<and> db w' = db w"
proof -
  let ?k = "redisKeyWorkerPools ns"
  have k: "set_type (kv (db w) ?k)" "finite (smem (db w) ?k)" "smem (db w) ?k = dom bs" using assms(2) by (simp_all add: announced_def)
  obtain xs where xs: "call R (SMEMBERS ?k) (db w) = (RArr (map RBulk xs), db w)" "distinct xs" "set xs = dom bs"
    using smembers [OF k(1,2)] k(3) by blast
  have ps: "sorted_list_of_set (dom bs) = sort xs" using xs(2,3) by (metis sorted_list_of_set_sort_remdups distinct_remdups_id)
  from Do_up [OF assms(1) xs(1)] obtain w1 where w1: "conn_Do R (SMEMBERS ?k) w = (Inr (RArr (map RBulk xs)), w1)" "up w1" "db w1 = db w"
    by (auto simp: is_err_def)
  obtain rs where rs: "run_all (map (\<lambda>p. call R (HGETALL (redisKeyHeartbeat ns p))) (sort xs)) (db w) = (rs, db w)"
    "collect (read_heartbeat R) (zip (sort xs) (map (\<lambda>r. lift_err (answer r)) rs)) = Inr (map (\<lambda>p. shown (the (bs p))) (sort xs))"
    using run_announced [OF assms(2), of "sort xs"] xs(3) by auto
  from pipe_up [OF w1(2), unfolded w1(3), OF rs(1)] obtain w2 where
    "pipeline R (map (\<lambda>p. call R (HGETALL (redisKeyHeartbeat ns p))) (sort xs)) w1 = (map (\<lambda>r. lift_err (answer r)) rs, w2)"
    "up w2" "db w2 = db w" by blast
  with w1 rs(2) show ?thesis
    by (simp add: WorkerPoolHeartbeats_def ebind_def conv_def lift_err_def Strings_arr Let_def ps)
qed

end

section \<open>Pools that come, beat and go\<close>

definition beat_all :: "'w redis \<Rightarrow> (workerPoolHeartbeater \<times> hb_event) list \<Rightarrow> 'w \<Rightarrow> 'w" where
  "beat_all R evs w = fold (\<lambda>(h, ev) w. snd (hb_step R ev (h, w))) evs w"

definition record_beat :: "workerPoolHeartbeater \<times> hb_event \<Rightarrow> beats \<Rightarrow> beats" where
  "record_beat = (\<lambda>(h, ev) bs. case ev of HTick t \<Rightarrow> bs(hPoolID h \<mapsto> (h, t)) | HStop \<Rightarrow> bs(hPoolID h := None))"

definition proper_beat :: "string \<Rightarrow> workerPoolHeartbeater \<times> hb_event \<Rightarrow> bool" where
  "proper_beat ns = (\<lambda>(h, ev). hNamespace h = ns \<and> (case ev of HTick t \<Rightarrow> sendable h t | HStop \<Rightarrow> True))"

text \<open>A new pool is shown with the job names and worker identifiers it was created with.\<close>

lemma shown_new:
  assumes "names \<noteq> []" "wids \<noteq> []" "\<forall>n\<in>set names \<union> set wids. CHR '','' \<notin> set n"
  shows "shown (newWorkerPoolHeartbeater ns p names c wids pid host, t) =
    \<lparr>WorkerPoolID = p, HbStartedAt = 0, HeartbeatAt = t, JobNames = sort names, Concurrency = c,
     Host = (case host of None \<Rightarrow> ''hostname_errored'' | Some h \<Rightarrow> h), Pid = pid, WorkerIDs = sort wids\<rparr>"
proof -
  have "strings_Split (strings_Join (sort xs) CHR '','') CHR '','' = sort xs" if "xs \<noteq> []" "\<forall>x\<in>set xs. CHR '','' \<notin> set x" for xs :: "string list"
    using that by (intro strings_Split_Join) (use that in \<open>metis set_empty set_sort\<close>, simp)
  with assms show ?thesis by (simp add: shown_def newWorkerPoolHeartbeater_def sorted_sort_id)
qed

context redis_link
begin

lemma step_announced:
  assumes "up w" and "announced ns bs (db w)" and "proper_beat ns (h, ev)" and "w1 = snd (hb_step R ev (h, w))"
  shows "up w1" and "announced ns (record_beat (h, ev) bs) (db w1)"
proof -
  have ns: "hNamespace h = ns" using assms(3) by (simp add: proper_beat_def)
  have set: "set_type (kv (db w) (redisKeyWorkerPools (hNamespace h)))" using assms(2) ns by (simp add: announced_def)
  have "stored_beat ns (hPoolID h) (bs (hPoolID h)) (kv (db w) (redisKeyHeartbeat ns (hPoolID h)))"
    using assms(2) by (simp add: announced_def)
  then have hash: "hash_type (kv (db w) (redisKeyHeartbeat (hNamespace h) (hPoolID h)))"
    by (auto simp: stored_beat_def ns split: option.splits)
  have "up w1 \<and> announced ns (record_beat (h, ev) bs) (db w1)"
  proof (cases ev)
    case HStop
    then show ?thesis
      using removeHeartbeat_up [OF assms(1) set] announced_removed [OF assms(2) ns refl]
      by (simp add: assms(4) hb_step_def record_beat_def)
  next
    case (HTick t)
    then show ?thesis
      using heartbeat_up [OF assms(1) set hash, of t] announced_heartbeat [OF assms(2) ns refl, of t] assms(3)
      by (simp add: assms(4) hb_step_def record_beat_def proper_beat_def)
  qed
  then show "up w1" and "announced ns (record_beat (h, ev) bs) (db w1)" by simp_all
qed

lemma beat_all_announced:
  assumes "up w" and "announced ns bs (db w)" and "\<forall>e\<in>set evs. proper_beat ns e"
  shows "up (beat_all R evs w) \<and> announced ns (fold record_beat evs bs) (db (beat_all R evs w))"
  using assms
proof (induction evs arbitrary: w bs)
  case (Cons e evs)
  obtain h ev where e: "e = (h, ev)" by (cases e)
  note step = step_announced [OF Cons.prems(1,2) _ refl, of h ev]
  from Cons.IH [OF step] Cons.prems(3) show ?case by (simp add: e beat_all_def)
qed (simp add: beat_all_def)

end

text \<open>C29: after any sequence of heartbeats and stops of any number of pools, the client lists exactly the
  pools that have not stopped since their last heartbeat, in order, each with that heartbeat.\<close>

theorem client_sees_heartbeats:
  assumes "redis_link R db up" and "up w" and "announced ns bs (db w)" and "\<forall>e\<in>set evs. proper_beat ns e"
    and "bs' = fold record_beat evs bs" and "w1 = beat_all R evs w"
  shows "\<exists>w2. WorkerPoolHeartbeats R ns w1 = (Inr (map (\<lambda>p. shown (the (bs' p))) (sorted_list_of_set (dom bs'))), w2) \<and>
    up w2 \<and> db w2 = db w1"
  using redis_link.beat_all_announced [OF assms(1-4)] redis_link.WorkerPoolHeartbeats_up [OF assms(1)] assms(5,6) by simp

definition sample_beater :: "string \<Rightarrow> workerPoolHeartbeater" where
  "sample_beater p = newWorkerPoolHeartbeater ''w'' p [''b'', ''a''] 2 [''y'', ''x''] 7 None"

lemma sample_proper: "proper_beat ''w'' (sample_beater p, HTick 5)" "proper_beat ''w'' (sample_beater p, HStop)"
  by (simp_all add: proper_beat_def sample_beater_def newWorkerPoolHeartbeater_def sendable_def in_i64_def)

lemma announced_none: "announced ns (\<lambda>_. None) empty_keyspace"
  by (simp add: announced_def stored_beat_def empty_keyspace_def obs_simps)

theorem client_sees_heartbeats_witness:
  "\<exists>w2. WorkerPoolHeartbeats mem_redis ''w'' (beat_all mem_redis [(sample_beater ''q'', HTick 5), (sample_beater ''p'', HTick 5), (sample_beater ''q'', HStop)]
       \<lparr>mem_db = empty_keyspace, mem_faults = []\<rparr>) =
     (Inr [\<lparr>WorkerPoolID = ''p'', HbStartedAt = 0, HeartbeatAt = 5, JobNames = [''a'', ''b''], Concurrency = 2,
            Host = ''hostname_errored'', Pid = 7, WorkerIDs = [''x'', ''y'']\<rparr>], w2)"
proof -
  let ?evs = "[(sample_beater ''q'', HTick 5), (sample_beater ''p'', HTick 5), (sample_beater ''q'', HStop)]"
  have id: "hPoolID (sample_beater p) = p" for p by (simp add: sample_beater_def newWorkerPoolHeartbeater_def)
  have bs: "fold record_beat ?evs (\<lambda>_. None) = [''p'' \<mapsto> (sample_beater ''p'', 5)]"
    by (simp add: record_beat_def id fun_eq_iff)
  have "sort [''b'', ''a''] = [''a'', ''b'']" "sort [''y'', ''x''] = [''x'', ''y'']" by code_simp+
  then have "shown (sample_beater ''p'', 5) = \<lparr>WorkerPoolID = ''p'', HbStartedAt = 0, HeartbeatAt = 5, JobNames = [''a'', ''b''], Concurrency = 2,
      Host = ''hostname_errored'', Pid = 7, WorkerIDs = [''x'', ''y'']\<rparr>"
    unfolding sample_beater_def by (subst shown_new) simp_all
  then show ?thesis
    using client_sees_heartbeats [OF mem_link.redis_link_axioms _ _ _ bs [symmetric] refl, of "\<lparr>mem_db = empty_keyspace, mem_faults = []\<rparr>" "''w''"]
      announced_none sample_proper by (auto simp: mem_up_def)
qed

end
