(* ===== verification/Json_Indent.thy ===== *)
theory Json_Indent
  imports Json_Text
begin

text \<open>
  The text of \<open>json.MarshalIndent(v, "", "\t")\<close>: every element and member on a line of its own,
  indented by its depth. The text is read back as the document it shows.
\<close>

section \<open>Indented text\<close>

definition json_newline :: "nat \<Rightarrow> string" where
  "json_newline d = CHR 0x0A # replicate d (CHR 0x09)"

text \<open>\<open>d\<close> is the depth of the value; the elements of an array or object are one deeper.\<close>

fun json_indent :: "nat \<Rightarrow> json \<Rightarrow> string"
  and indent_elems :: "nat \<Rightarrow> json list \<Rightarrow> string"
  and indent_members :: "nat \<Rightarrow> (string \<times> json) list \<Rightarrow> string" where
  "json_indent d (JArr xs) = (if xs = [] then ''[]'' else CHR ''['' # json_newline (Suc d) @ indent_elems d xs)"
| "json_indent d (JObj kvs) = (if kvs = [] then ''{}'' else CHR ''{'' # json_newline (Suc d) @ indent_members d kvs)"
| "json_indent d v = json_print v"
| "indent_elems d [] = []"
| "indent_elems d (x # xs) =
     json_indent (Suc d) x @
     (if xs = [] then json_newline d @ '']'' else CHR '','' # json_newline (Suc d) @ indent_elems d xs)"
| "indent_members d [] = []"
| "indent_members d ((k, v) # kvs) =
     json_string k @ '': '' @ json_indent (Suc d) v @
     (if kvs = [] then json_newline d @ ''}'' else CHR '','' # json_newline (Suc d) @ indent_members d kvs)"

section \<open>Reading it back\<close>

lemma is_ws_blank [simp]: "is_ws (CHR 0x0A)" "is_ws (CHR 0x09)" "is_ws (CHR '' '')"
  by (simp_all add: is_ws_def)

lemma skip_ws_append: "list_all is_ws w \<Longrightarrow> skip_ws (w @ s) = skip_ws s"
  by (induction w) (simp_all add: skip_ws_def)

lemma newline_ws: "list_all is_ws (json_newline d)"
  by (simp add: json_newline_def list_all_iff)

lemma skip_newline [simp]: "skip_ws (json_newline d @ s) = skip_ws s"
  by (rule skip_ws_append [OF newline_ws])

lemma skip_blank [simp]: "skip_ws (CHR '' '' # s) = skip_ws s"
  by (simp add: skip_ws_def)

lemma ends_newline [simp]: "ends_value (json_newline d @ s)"
  by (simp add: json_newline_def)

lemma parse_val_ws: "skip_ws s = skip_ws t \<Longrightarrow> parse_val n s = parse_val n t"
  by (cases n) simp_all

lemma parse_elems_ws: "skip_ws s = skip_ws t \<Longrightarrow> parse_elems n s = parse_elems n t"
  by (cases n) (simp_all add: parse_val_ws [of s t] del: parse_val.simps)

lemma parse_members_ws: "skip_ws s = skip_ws t \<Longrightarrow> parse_members n s = parse_members n t"
  by (cases n) simp_all

lemma indent_fuel:
  "json_wf j \<Longrightarrow> val_fuel j \<le> length (json_indent d j)"
  "list_all json_wf xs \<Longrightarrow> elems_fuel xs \<le> length (indent_elems d xs)"
  "list_all (\<lambda>(k, v). json_wf v) kvs \<Longrightarrow> members_fuel kvs \<le> length (indent_members d kvs)"
  by (induction d j and d xs and d kvs rule: json_indent_indent_elems_indent_members.induct)
    (auto simp: json_string_def json_newline_def Suc_le_eq)

lemma indent_nonws: "json_wf j \<Longrightarrow> \<exists>c cs. json_indent d j = c # cs \<and> \<not> is_ws c \<and> c \<noteq> CHR '']'' \<and> c \<noteq> CHR ''}''"
  using print_nonws [of j] by (cases j) auto

lemma indent_elems_nonws:
  "xs \<noteq> [] \<Longrightarrow> list_all json_wf xs \<Longrightarrow> \<exists>c cs. indent_elems d xs = c # cs \<and> \<not> is_ws c \<and> c \<noteq> CHR '']''"
  using indent_nonws [of "hd xs" "Suc d"] by (cases xs) auto

lemma indent_members_nonws: "kvs \<noteq> [] \<Longrightarrow> \<exists>cs. indent_members d kvs = CHR 0x22 # cs"
  by (cases kvs) (auto simp: json_string_def)

lemma parse_indent_arr:
  assumes "xs \<noteq> []" and "list_all json_wf xs" and "parse_elems n (indent_elems d xs @ r) = Some (xs, r)"
  shows "parse_val (Suc n) (json_indent d (JArr xs) @ r) = Some (JArr xs, r)"
proof -
  obtain c cs where c: "indent_elems d xs = c # cs" "\<not> is_ws c" "c \<noteq> CHR '']''" using indent_elems_nonws [OF assms(1,2)] by blast
  have "parse_elems n (json_newline (Suc d) @ indent_elems d xs @ r) = Some (xs, r)"
    using parse_elems_ws [of "json_newline (Suc d) @ indent_elems d xs @ r" "indent_elems d xs @ r"] assms(3) by simp
  moreover have "skip_ws (json_newline (Suc d) @ indent_elems d xs @ r) = c # cs @ r" using c by (simp add: skip_ws_nonws)
  ultimately show ?thesis using assms(1) c by (simp add: skip_ws_nonws)
qed

lemma parse_indent_obj:
  assumes "kvs \<noteq> []" and "parse_members n (indent_members d kvs @ r) = Some (kvs, r)"
  shows "parse_val (Suc n) (json_indent d (JObj kvs) @ r) = Some (JObj kvs, r)"
proof -
  obtain cs where c: "indent_members d kvs = CHR 0x22 # cs" using indent_members_nonws [OF assms(1)] by blast
  have "parse_members n (json_newline (Suc d) @ indent_members d kvs @ r) = Some (kvs, r)"
    using parse_members_ws [of "json_newline (Suc d) @ indent_members d kvs @ r" "indent_members d kvs @ r"] assms(2) by simp
  moreover have "skip_ws (json_newline (Suc d) @ indent_members d kvs @ r) = CHR 0x22 # cs @ r" using c by (simp add: skip_ws_nonws)
  ultimately show ?thesis using assms(1) c by (simp add: skip_ws_nonws)
qed

lemma parse_elems_cons:
  assumes "parse_val n s = Some (v, r1)" and "skip_ws r1 = CHR '','' # t" and "parse_elems n t = Some (vs, r)"
  shows "parse_elems (Suc n) s = Some (v # vs, r)"
  using assms by simp

lemma parse_members_item:
  assumes "parse_val n s = Some (v, r1)"
  shows "skip_ws r1 = CHR ''}'' # r \<Longrightarrow> parse_members (Suc n) (json_string k @ CHR '':'' # s) = Some ([(k, v)], r)"
    and "skip_ws r1 = CHR '','' # t \<Longrightarrow> parse_members n t = Some (ms, r) \<Longrightarrow>
      parse_members (Suc n) (json_string k @ CHR '':'' # s) = Some ((k, v) # ms, r)"
  using assms by (simp_all add: json_string_def parse_str_json_string skip_ws_nonws del: parse_val.simps)

lemma parse_indent:
  "json_wf j \<Longrightarrow> ends_value r \<Longrightarrow> val_fuel j \<le> n \<Longrightarrow> parse_val n (json_indent d j @ r) = Some (j, r)"
  "xs \<noteq> [] \<Longrightarrow> list_all json_wf xs \<Longrightarrow> elems_fuel xs \<le> n \<Longrightarrow>
     parse_elems n (indent_elems d xs @ r) = Some (xs, r)"
  "kvs \<noteq> [] \<Longrightarrow> list_all (\<lambda>(k, v). json_wf v) kvs \<Longrightarrow> members_fuel kvs \<le> n \<Longrightarrow>
     parse_members n (indent_members d kvs @ r) = Some (kvs, r)"
proof (induction d j and d xs and d kvs arbitrary: n r and n r and n r
    rule: json_indent_indent_elems_indent_members.induct)
  case (1 d xs)
  then obtain m where n: "n = Suc m" by (cases n) auto
  show ?case
  proof (cases "xs = []")
    case False
    with 1 n have "parse_elems m (indent_elems d xs @ r) = Some (xs, r)" by simp
    with 1 n False show ?thesis by (simp only: json_wf.simps) (rule parse_indent_arr)
  qed (use n in \<open>simp add: skip_ws_nonws\<close>)
next
  case (2 d kvs)
  then obtain m where n: "n = Suc m" by (cases n) auto
  show ?case
  proof (cases "kvs = []")
    case False
    with 2 n have "parse_members m (indent_members d kvs @ r) = Some (kvs, r)" by simp
    with n False show ?thesis by (simp only:) (rule parse_indent_obj)
  qed (use n in \<open>simp add: skip_ws_nonws\<close>)
next
  case (5 d x xs)
  then obtain m where n: "n = Suc m" by (cases n) auto
  let ?t = "if xs = [] then json_newline d @ CHR '']'' # r else CHR '','' # json_newline (Suc d) @ indent_elems d xs @ r"
  have x: "parse_val m (json_indent (Suc d) x @ ?t) = Some (x, ?t)" using 5 n by simp
  show ?case
  proof (cases "xs = []")
    case True
    with x n show ?thesis by (simp add: skip_ws_nonws del: parse_val.simps)
  next
    case False
    have "parse_elems m (json_newline (Suc d) @ indent_elems d xs @ r) = Some (xs, r)"
      using 5 n False parse_elems_ws [of "json_newline (Suc d) @ indent_elems d xs @ r" "indent_elems d xs @ r" m] by simp
    with parse_elems_cons [OF x, of "json_newline (Suc d) @ indent_elems d xs @ r" xs r] False n show ?thesis
      by (simp add: skip_ws_nonws del: parse_elems.simps)
  qed
next
  case (7 d k v kvs)
  then obtain m where n: "n = Suc m" by (cases n) auto
  let ?t = "if kvs = [] then json_newline d @ CHR ''}'' # r else CHR '','' # json_newline (Suc d) @ indent_members d kvs @ r"
  have "parse_val m (json_indent (Suc d) v @ ?t) = Some (v, ?t)" using 7 n by simp
  then have v: "parse_val m (CHR '' '' # json_indent (Suc d) v @ ?t) = Some (v, ?t)"
    using parse_val_ws [of "CHR '' '' # json_indent (Suc d) v @ ?t" "json_indent (Suc d) v @ ?t" m] by simp
  show ?case
  proof (cases "kvs = []")
    case True
    with parse_members_item(1) [OF v, of r k] n show ?thesis by (simp add: skip_ws_nonws del: parse_members.simps)
  next
    case False
    have "parse_members m (json_newline (Suc d) @ indent_members d kvs @ r) = Some (kvs, r)"
      using 7 n False parse_members_ws [of "json_newline (Suc d) @ indent_members d kvs @ r" "indent_members d kvs @ r" m] by simp
    with parse_members_item(2) [OF v, of "json_newline (Suc d) @ indent_members d kvs @ r" kvs r k] False n show ?thesis
      by (simp add: skip_ws_nonws del: parse_members.simps)
  qed
qed (simp_all only: json_indent.simps parse_print(1), simp_all)

lemma json_parse_indent:
  assumes "json_wf j"
  shows "json_parse (json_indent d j) = Some j"
proof -
  have "val_fuel j \<le> Suc (length (json_indent d j))" using indent_fuel(1) [OF assms, of d] by simp
  then have "parse_val (Suc (length (json_indent d j))) (json_indent d j) = Some (j, [])"
    using parse_indent(1) [OF assms, of "[]"] by (simp del: parse_val.simps)
  then show ?thesis by (simp add: json_parse_def skip_ws_def del: parse_val.simps)
qed

end
