(* ===== verification/Assets.thy ===== *)
theory Assets
  imports Go_Text
begin

text \<open>
  \<open>webui/internal/assets/assets.go\<close>: the files of the web UI, embedded as compressed data, with a
  table and a tree to find them by name and functions to write them to a directory. The embedded data,
  the decompression and the operating system are parameters; so is the order in which \<open>range\<close> visits a map.
\<close>

section \<open>Reading embedded data\<close>

text \<open>
  What \<open>gzip\<close> makes of the data: no header, or the bytes copied with the errors of copying and of closing.
\<close>

datatype gz_outcome = BadHeader string | Inflated string "string option" "string option"

type_synonym gz = "string \<Rightarrow> gz_outcome"

definition read_error :: "string \<Rightarrow> string \<Rightarrow> string" where
  "read_error name err = ''read '' @ strconv_Quote name @ '': '' @ err"

text \<open>An error of closing is answered with the error of copying, which is nil there: no bytes and no error.\<close>

definition bindataRead :: "gz \<Rightarrow> string \<Rightarrow> string \<Rightarrow> string + string" where
  "bindataRead gz data name =
     (case gz data of
        BadHeader err \<Rightarrow> Inl (read_error name err)
      | Inflated buf copyErr clErr \<Rightarrow>
          (case copyErr of
             Some err \<Rightarrow> Inl (read_error name err)
           | None \<Rightarrow> if clErr \<noteq> None then Inr [] else Inr buf))"

section \<open>The assets\<close>

record bindataFileInfo =
  fi_name :: string
  fi_size :: int
  fi_mode :: nat
  fi_modTime :: int

record asset =
  abytes :: string
  ainfo :: bindataFileInfo
  adigest :: "nat list"

text \<open>The embedded data.\<close>

record embedded =
  e_indexHtml :: string
  e_workJs :: string
  e_workJsLicenseTxt :: string

definition indexHtmlBytes :: "gz \<Rightarrow> embedded \<Rightarrow> string + string" where
  "indexHtmlBytes gz e = bindataRead gz (e_indexHtml e) ''index.html''"

definition indexHtml :: "gz \<Rightarrow> embedded \<Rightarrow> string + asset" where
  "indexHtml gz e =
     (case indexHtmlBytes gz e of
        Inl err \<Rightarrow> Inl err
      | Inr bs \<Rightarrow> Inr
          \<lparr>abytes = bs,
           ainfo = \<lparr>fi_name = ''index.html'', fi_size = 217, fi_mode = 420, fi_modTime = 1760696323\<rparr>,
           adigest = [74, 75, 61, 235, 238, 96, 101, 136, 79, 128, 161, 221, 212, 103, 127, 158, 94, 32, 88, 81, 234, 15,
             144, 140, 184, 34, 34, 75, 237, 130, 12, 184]\<rparr>)"

definition workJsBytes :: "gz \<Rightarrow> embedded \<Rightarrow> string + string" where
  "workJsBytes gz e = bindataRead gz (e_workJs e) ''work.js''"

definition workJs :: "gz \<Rightarrow> embedded \<Rightarrow> string + asset" where
  "workJs gz e =
     (case workJsBytes gz e of
        Inl err \<Rightarrow> Inl err
      | Inr bs \<Rightarrow> Inr
          \<lparr>abytes = bs,
           ainfo = \<lparr>fi_name = ''work.js'', fi_size = 204275, fi_mode = 420, fi_modTime = 1776160989\<rparr>,
           adigest = [133, 72, 166, 91, 176, 29, 241, 32, 186, 8, 155, 168, 238, 167, 107, 57, 83, 33, 114, 123, 239, 214, 99,
             250, 30, 8, 117, 38, 14, 174, 149, 210]\<rparr>)"

definition workJsLicenseTxtBytes :: "gz \<Rightarrow> embedded \<Rightarrow> string + string" where
  "workJsLicenseTxtBytes gz e = bindataRead gz (e_workJsLicenseTxt e) ''work.js.LICENSE.txt''"

definition workJsLicenseTxt :: "gz \<Rightarrow> embedded \<Rightarrow> string + asset" where
  "workJsLicenseTxt gz e =
     (case workJsLicenseTxtBytes gz e of
        Inl err \<Rightarrow> Inl err
      | Inr bs \<Rightarrow> Inr
          \<lparr>abytes = bs,
           ainfo = \<lparr>fi_name = ''work.js.LICENSE.txt'', fi_size = 1402, fi_mode = 420, fi_modTime = 1776160989\<rparr>,
           adigest = [146, 53, 61, 47, 17, 50, 193, 68, 195, 57, 130, 207, 212, 24, 184, 224, 234, 148, 50, 223, 198, 245, 57,
             151, 179, 26, 185, 238, 42, 164, 251, 66]\<rparr>)"

definition bindata :: "gz \<Rightarrow> embedded \<Rightarrow> (string \<times> (string + asset)) list" where
  "bindata gz e =
     [(''index.html'', indexHtml gz e), (''work.js'', workJs gz e), (''work.js.LICENSE.txt'', workJsLicenseTxt gz e)]"

section \<open>Looking assets up\<close>

text \<open>\<open>strings.Replace(name, "\\", "/", -1)\<close>.\<close>

definition canonicalName :: "string \<Rightarrow> string" where
  "canonicalName name = map (\<lambda>c. if c = CHR 0x5C then CHR ''/'' else c) name"

text \<open>\<open>Asset\<close>, \<open>AssetInfo\<close> and \<open>AssetDigest\<close> differ in the part of the asset and in the name in their errors.\<close>

definition asset_part :: "string \<Rightarrow> (asset \<Rightarrow> 'a) \<Rightarrow> gz \<Rightarrow> embedded \<Rightarrow> string \<Rightarrow> string + 'a" where
  "asset_part what f gz e name =
     (case map_of (bindata gz e) (canonicalName name) of
        Some (Inl err) \<Rightarrow> Inl (what @ '' '' @ name @ '' can'' @ [CHR 0x27] @ ''t read by error: '' @ err)
      | Some (Inr a) \<Rightarrow> Inr (f a)
      | None \<Rightarrow> Inl (what @ '' '' @ name @ '' not found''))"

definition Asset :: "gz \<Rightarrow> embedded \<Rightarrow> string \<Rightarrow> string + string" where
  "Asset = asset_part ''Asset'' abytes"

definition AssetInfo :: "gz \<Rightarrow> embedded \<Rightarrow> string \<Rightarrow> string + bindataFileInfo" where
  "AssetInfo = asset_part ''AssetInfo'' ainfo"

definition AssetDigest :: "gz \<Rightarrow> embedded \<Rightarrow> string \<Rightarrow> string + nat list" where
  "AssetDigest = asset_part ''AssetDigest'' adigest"

text \<open>\<open>MustAsset\<close>: \<open>Inl\<close> is the value of its panic.\<close>

definition MustAsset :: "gz \<Rightarrow> embedded \<Rightarrow> string \<Rightarrow> string + string" where
  "MustAsset gz e name =
     (case Asset gz e name of Inl err \<Rightarrow> Inl (''asset: Asset('' @ name @ ''): '' @ err) | Inr a \<Rightarrow> Inr a)"

text \<open>The variants that return a string convert the bytes, which changes nothing here.\<close>

definition AssetString :: "gz \<Rightarrow> embedded \<Rightarrow> string \<Rightarrow> string + string" where
  "AssetString gz e name = Asset gz e name"

definition MustAssetString :: "gz \<Rightarrow> embedded \<Rightarrow> string \<Rightarrow> string + string" where
  "MustAssetString gz e name = MustAsset gz e name"

text \<open>\<open>rng\<close> is the order in which \<open>range\<close> visits a map with the given keys.\<close>

fun digests_of :: "(string \<times> (string + asset)) list \<Rightarrow> string list \<Rightarrow> string + (string \<times> nat list) list" where
  "digests_of tab [] = Inr []"
| "digests_of tab (n # ns) =
     (case map_of tab n of
        Some (Inr a) \<Rightarrow> map_sum id (Cons (n, adigest a)) (digests_of tab ns)
      | Some (Inl err) \<Rightarrow> Inl err
      | None \<Rightarrow> digests_of tab ns)"

definition Digests :: "(string list \<Rightarrow> string list) \<Rightarrow> gz \<Rightarrow> embedded \<Rightarrow> string + (string \<times> nat list) list" where
  "Digests rng gz e = digests_of (bindata gz e) (rng (map fst (bindata gz e)))"

definition AssetNames :: "(string list \<Rightarrow> string list) \<Rightarrow> gz \<Rightarrow> embedded \<Rightarrow> string list" where
  "AssetNames rng gz e = rng (map fst (bindata gz e))"

section \<open>The tree\<close>

datatype bintree = Bintree (bt_func: "(string + asset) option") (bt_children: "(string \<times> bintree) list")

definition root_bintree :: "gz \<Rightarrow> embedded \<Rightarrow> bintree" where
  "root_bintree gz e = Bintree None
     [(''index.html'', Bintree (Some (indexHtml gz e)) []), (''work.js'', Bintree (Some (workJs gz e)) []),
      (''work.js.LICENSE.txt'', Bintree (Some (workJsLicenseTxt gz e)) [])]"

fun bt_walk :: "bintree \<Rightarrow> string list \<Rightarrow> bintree option" where
  "bt_walk node [] = Some node"
| "bt_walk node (p # ps) = (case map_of (bt_children node) p of None \<Rightarrow> None | Some node' \<Rightarrow> bt_walk node' ps)"

definition AssetDir :: "(string list \<Rightarrow> string list) \<Rightarrow> gz \<Rightarrow> embedded \<Rightarrow> string \<Rightarrow> string + string list" where
  "AssetDir rng gz e name =
     (let path = (if name = [] then [] else strings_Split (canonicalName name) CHR ''/'') in
      case bt_walk (root_bintree gz e) path of
        None \<Rightarrow> Inl (''Asset '' @ name @ '' not found'')
      | Some node \<Rightarrow>
          if bt_func node \<noteq> None then Inl (''Asset '' @ name @ '' not found'')
          else Inr (rng (map fst (bt_children node))))"

section \<open>Writing assets to a directory\<close>

text \<open>The calls of the operating system, on a state of their own.\<close>

record 'f os =
  os_MkdirAll :: "string \<Rightarrow> nat \<Rightarrow> ('f, string, unit) act"
  os_WriteFile :: "string \<Rightarrow> string \<Rightarrow> nat \<Rightarrow> ('f, string, unit) act"
  os_Chtimes :: "string \<Rightarrow> int \<Rightarrow> int \<Rightarrow> ('f, string, unit) act"

definition filePath :: "string \<Rightarrow> string \<Rightarrow> string" where
  "filePath dir name = filepath_Join (dir # strings_Split (canonicalName name) CHR ''/'')"

definition RestoreAsset :: "'f os \<Rightarrow> gz \<Rightarrow> embedded \<Rightarrow> string \<Rightarrow> string \<Rightarrow> ('f, string, unit) act" where
  "RestoreAsset os gz e dir name =
     (case Asset gz e name of
        Inl err \<Rightarrow> efail err
      | Inr data \<Rightarrow>
          (case AssetInfo gz e name of
             Inl err \<Rightarrow> efail err
           | Inr info \<Rightarrow>
               ebind (os_MkdirAll os (filePath dir (filepath_Dir name)) 493) (\<lambda>_.
               ebind (os_WriteFile os (filePath dir name) data (fi_mode info)) (\<lambda>_.
               os_Chtimes os (filePath dir name) (fi_modTime info) (fi_modTime info)))))"

text \<open>The recursion follows the tree; \<open>None\<close> means that the fuel did not suffice.\<close>

fun restore_children :: "(string \<Rightarrow> 'f \<Rightarrow> ((string + unit) \<times> 'f) option) \<Rightarrow> string list \<Rightarrow> 'f \<Rightarrow> ((string + unit) \<times> 'f) option" where
  "restore_children rec [] s = Some (Inr (), s)"
| "restore_children rec (c # cs) s =
     (case rec c s of
        None \<Rightarrow> None
      | Some (Inl err, s') \<Rightarrow> Some (Inl err, s')
      | Some (Inr _, s') \<Rightarrow> restore_children rec cs s')"

fun RestoreAssets :: "'f os \<Rightarrow> (string list \<Rightarrow> string list) \<Rightarrow> gz \<Rightarrow> embedded \<Rightarrow> nat \<Rightarrow> string \<Rightarrow> string \<Rightarrow> 'f \<Rightarrow> ((string + unit) \<times> 'f) option" where
  "RestoreAssets os rng gz e 0 dir name s = None"
| "RestoreAssets os rng gz e (Suc n) dir name s =
     (case AssetDir rng gz e name of
        Inl _ \<Rightarrow> Some (RestoreAsset os gz e dir name s)
      | Inr children \<Rightarrow>
          restore_children (\<lambda>child. RestoreAssets os rng gz e n dir (filepath_Join [name, child])) children s)"

section \<open>The table and the tree agree\<close>

definition asset_files :: "string list" where
  "asset_files = [''index.html'', ''work.js'', ''work.js.LICENSE.txt'']"

lemma bindata_names: "map fst (bindata gz e) = asset_files" "map fst (bt_children (root_bintree gz e)) = asset_files"
  by (simp_all add: bindata_def root_bintree_def asset_files_def)

lemma canonical_names: "n \<in> set asset_files \<Longrightarrow> canonicalName n = n"
  by (auto simp: asset_files_def canonicalName_def)

lemma join_names: "n \<in> set asset_files \<Longrightarrow> filepath_Join [[], n] = n"
  by (auto simp: asset_files_def filepath_Join_def filepath_Clean_def)

lemma AssetDir_root: "AssetDir rng gz e [] = Inr (AssetNames rng gz e)"
  by (simp add: AssetDir_def AssetNames_def bindata_names) (simp add: root_bintree_def)

text \<open>Every entry but the root is a file, so no other name is a directory.\<close>

lemma AssetDir_file:
  assumes "name \<noteq> []"
  shows "\<exists>err. AssetDir rng gz e name = Inl err"
proof -
  obtain p ps where path: "strings_Split (canonicalName name) CHR ''/'' = p # ps"
    using strings_Split_nonempty [of "canonicalName name" "CHR ''/''"] by (cases "strings_Split (canonicalName name) CHR ''/''") auto
  show ?thesis using assms by (cases ps) (auto simp: AssetDir_def path root_bintree_def)
qed

lemma RestoreAssets_file:
  assumes "name \<noteq> []"
  shows "RestoreAssets os rng gz e (Suc n) dir name s = Some (RestoreAsset os gz e dir name s)"
  using AssetDir_file [OF assms, of rng gz e] by auto

lemma restore_children_files:
  assumes "set cs \<subseteq> set asset_files"
  shows "restore_children (\<lambda>child. RestoreAssets os rng gz e (Suc n) dir (filepath_Join [[], child])) cs s =
    Some (eiter (RestoreAsset os gz e dir) cs s)"
  using assms
proof (induction cs arbitrary: s)
  case (Cons c cs)
  have "c \<noteq> []" "filepath_Join [[], c] = c" using Cons.prems join_names [of c] by (auto simp: asset_files_def)
  then have "RestoreAssets os rng gz e (Suc n) dir (filepath_Join [[], c]) s = Some (RestoreAsset os gz e dir c s)"
    using RestoreAssets_file [OF \<open>c \<noteq> []\<close>] by (simp only:)
  with Cons show ?case by (auto simp: ebind_def split: prod.split sum.split simp del: RestoreAssets.simps)
qed (simp add: eret_def)

text \<open>A failing \<open>Close\<close> is taken for success.\<close>

lemma close_error_hidden:
  assumes "gz (e_workJs e) = Inflated buf None (Some err)"
  shows "Asset gz e ''work.js'' = Inr []"
  using assms by (simp add: Asset_def asset_part_def bindata_def workJs_def workJsBytes_def bindataRead_def canonicalName_def)

text \<open>Restoring the assets ends, whatever the file system does: the directory is restored file by file
  until a call fails, in the order in which the names are listed, and any other name is restored as one
  file.\<close>

theorem restore_follows_tree:
  assumes "\<forall>xs. mset (rng xs) = mset xs"
  shows "RestoreAssets os rng gz e (Suc (Suc n)) dir name s =
    Some (if name = [] then eiter (RestoreAsset os gz e dir) (AssetNames rng gz e) s else RestoreAsset os gz e dir name s)"
proof (cases "name = []")
  case True
  have "set (AssetNames rng gz e) = set asset_files"
    using mset_eq_setD [OF assms [rule_format, of asset_files]] by (simp add: AssetNames_def bindata_names)
  with True restore_children_files [of "AssetNames rng gz e" os rng gz e n dir s] show ?thesis
    by (subst RestoreAssets.simps) (simp add: AssetDir_root del: RestoreAssets.simps)
qed (simp add: RestoreAssets_file del: RestoreAssets.simps)

text \<open>A file system that accepts everything and remembers the calls.\<close>

datatype os_call = Mkdir string nat | Write string string nat | Times string int

definition log_os :: "os_call list os" where
  "log_os = \<lparr>os_MkdirAll = (\<lambda>p m s. (Inr (), s @ [Mkdir p m])), os_WriteFile = (\<lambda>p d m s. (Inr (), s @ [Write p d m])),
     os_Chtimes = (\<lambda>p a b s. (Inr (), s @ [Times p b]))\<rparr>"

theorem restore_follows_tree_witness:
  "RestoreAssets log_os rev (\<lambda>d. Inflated d None None) \<lparr>e_indexHtml = ''h'', e_workJs = ''j'', e_workJsLicenseTxt = ''l''\<rparr> 2 ''/srv/'' [] [] =
    Some (Inr (), [Mkdir ''/srv'' 493, Write ''/srv/work.js.LICENSE.txt'' ''l'' 420, Times ''/srv/work.js.LICENSE.txt'' 1776160989,
      Mkdir ''/srv'' 493, Write ''/srv/work.js'' ''j'' 420, Times ''/srv/work.js'' 1776160989,
      Mkdir ''/srv'' 493, Write ''/srv/index.html'' ''h'' 420, Times ''/srv/index.html'' 1760696323])"
proof -
  let ?e = "\<lparr>e_indexHtml = ''h'', e_workJs = ''j'', e_workJsLicenseTxt = ''l''\<rparr>" and ?gz = "\<lambda>d. Inflated d None None"
  have "eiter (RestoreAsset log_os ?gz ?e ''/srv/'') (AssetNames rev ?gz ?e) [] =
    (Inr (), [Mkdir ''/srv'' 493, Write ''/srv/work.js.LICENSE.txt'' ''l'' 420, Times ''/srv/work.js.LICENSE.txt'' 1776160989,
      Mkdir ''/srv'' 493, Write ''/srv/work.js'' ''j'' 420, Times ''/srv/work.js'' 1776160989,
      Mkdir ''/srv'' 493, Write ''/srv/index.html'' ''h'' 420, Times ''/srv/index.html'' 1760696323])"
    by code_simp
  then show ?thesis using restore_follows_tree [of rev log_os ?gz ?e 0 "''/srv/''" "[]" "[]"] by (simp add: numeral_2_eq_2 del: RestoreAssets.simps)
qed

end
