(* ===== verification/Webui.thy ===== *)
theory Webui
  imports Client Json_Indent Assets
begin

text \<open>
  \<open>webui/webui.go\<close> and \<open>webui/handler.go\<close>: the HTTP interface to the client. A request is routed by
  the segments of its path and its method; the response has a status, a content type and the bytes
  that the handler writes.
\<close>

section \<open>Requests and routes\<close>

text \<open>
  A request with a clean path, which is \<open>/\<close> for no segments; the multiplexer redirects the others
  before it looks for a handler. \<open>form\<close> is the error of \<open>ParseForm\<close> or the value of \<open>page\<close>, empty if
  missing.
\<close>

record http_request =
  rmethod :: string
  rpath :: "string list"
  form :: "string + string"

datatype route =
    R_ping | R_queues | R_workerPools | R_busyWorkers | R_retryJobs | R_scheduledJobs | R_deadJobs
  | R_deleteDeadJob string string | R_retryDeadJob string string
  | R_deleteAllDeadJobs | R_retryAllDeadJobs | R_indexPage | R_workJS

text \<open>
  The registered patterns: the method and the handler of a path. A wildcard matches one segment
  that is not empty.
\<close>

definition mux_match :: "string list \<Rightarrow> (string \<times> route) option" where
  "mux_match path =
     (case path of
        [] \<Rightarrow> Some (''GET'', R_indexPage)
      | [p] \<Rightarrow>
          (if p = ''ping'' then Some (''GET'', R_ping)
           else if p = ''queues'' then Some (''GET'', R_queues)
           else if p = ''worker_pools'' then Some (''GET'', R_workerPools)
           else if p = ''busy_workers'' then Some (''GET'', R_busyWorkers)
           else if p = ''retry_jobs'' then Some (''GET'', R_retryJobs)
           else if p = ''scheduled_jobs'' then Some (''GET'', R_scheduledJobs)
           else if p = ''dead_jobs'' then Some (''GET'', R_deadJobs)
           else if p = ''delete_all_dead_jobs'' then Some (''POST'', R_deleteAllDeadJobs)
           else if p = ''retry_all_dead_jobs'' then Some (''POST'', R_retryAllDeadJobs)
           else if p = ''work.js'' then Some (''GET'', R_workJS)
           else None)
      | [p, died_at, job_id] \<Rightarrow>
          (if died_at = [] \<or> job_id = [] then None
           else if p = ''delete_dead_job'' then Some (''POST'', R_deleteDeadJob died_at job_id)
           else if p = ''retry_dead_job'' then Some (''POST'', R_retryDeadJob died_at job_id)
           else None)
      | _ \<Rightarrow> None)"

text \<open>A pattern with the method \<open>GET\<close> matches \<open>HEAD\<close> as well.\<close>

definition method_matches :: "string \<Rightarrow> string \<Rightarrow> bool" where
  "method_matches pat m \<longleftrightarrow> m = pat \<or> pat = ''GET'' \<and> m = ''HEAD''"

text \<open>What the multiplexer does with a request: a handler, or one of its two own answers.\<close>

datatype dispatch = Handle route | NotFound | MethodNotAllowed

definition NewHandler :: "http_request \<Rightarrow> dispatch" where
  "NewHandler r =
     (case mux_match (rpath r) of
        None \<Rightarrow> NotFound
      | Some (pat, rt) \<Rightarrow> if method_matches pat (rmethod r) then Handle rt else MethodNotAllowed)"

section \<open>Responses\<close>

text \<open>\<open>RespAborted\<close> is the response of a handler that panics: the HTTP server closes the connection.\<close>

datatype response = Response nat string string | RespNotFound | RespMethodNotAllowed | RespAborted

text \<open>
  What a handler sees besides Redis: the decompressor and the embedded files, the texts of the errors
  of other libraries, the formatted current time, and the clock as the client reads it.
\<close>

record web_env =
  we_gz :: gz
  we_embedded :: embedded
  we_texts :: "go_err \<Rightarrow> string"
  we_stamp :: string
  we_now :: int
  we_now' :: int

definition json_type :: string where
  "json_type = ''application/json; charset=utf-8''"

definition err_text :: "web_env \<Rightarrow> go_err \<Rightarrow> string" where
  "err_text env err =
     (case err of
        NumError fn s why \<Rightarrow> num_error_text fn s why
      | ErrNotDeleted \<Rightarrow> ''nothing deleted''
      | ErrNotRetried \<Rightarrow> ''nothing retried''
      | Errorf msg \<Rightarrow> msg
      | _ \<Rightarrow> we_texts env err)"

definition renderError_body :: "string \<Rightarrow> string" where
  "renderError_body msg = ''{'' @ [CHR 0x22] @ ''error'' @ [CHR 0x22] @ '': '' @ [CHR 0x22] @ msg @ [CHR 0x22] @ ''}''"

definition renderError :: "web_env \<Rightarrow> go_err \<Rightarrow> response" where
  "renderError env err = Response 500 json_type (renderError_body (err_text env err))"

text \<open>\<open>render\<close> marshals the document; \<open>None\<close> is the error of \<open>json.MarshalIndent\<close>.\<close>

definition render :: "web_env \<Rightarrow> go_err + json option \<Rightarrow> response" where
  "render env r =
     (case r of
        Inl err \<Rightarrow> renderError env err
      | Inr None \<Rightarrow> renderError env MarshalErr
      | Inr (Some doc) \<Rightarrow> Response 200 json_type (json_indent 0 doc))"

section \<open>Documents\<close>

text \<open>The structs in the order and with the names of their tags. A nil slice is \<open>null\<close>.\<close>

definition json_strings :: "string list \<Rightarrow> json" where
  "json_strings ss = (if ss = [] then JNull else JArr (map JStr ss))"

definition queue_json :: "queue \<Rightarrow> json" where
  "queue_json q = JObj
     [(''job_name'', JStr (JobName q)), (''count'', json_int (Count q)), (''latency'', json_int (Latency q)),
      (''max_concurrency'', json_int (QMaxConcurrency q)), (''lock_count'', json_int (LockCount q))]"

definition heartbeat_json :: "workerPoolHeartbeat \<Rightarrow> json" where
  "heartbeat_json h = JObj
     [(''worker_pool_id'', JStr (WorkerPoolID h)), (''started_at'', json_int (HbStartedAt h)),
      (''heartbeat_at'', json_int (HeartbeatAt h)), (''job_names'', json_strings (JobNames h)),
      (''concurrency'', json_int (int (Concurrency h))), (''host'', JStr (Host h)), (''pid'', json_int (Pid h)),
      (''worker_ids'', json_strings (WorkerIDs h))]"

definition observation_json :: "workerObservation \<Rightarrow> json" where
  "observation_json ob = JObj
     [(''worker_id'', JStr (WorkerID ob)), (''is_busy'', JBool (IsBusy ob)), (''job_name'', JStr (ObJobName ob)),
      (''job_id'', JStr (ObJobID ob)), (''started_at'', json_int (ObStartedAt ob)), (''args_json'', JStr (ArgsJSON ob)),
      (''checkin'', JStr (ObCheckin ob)), (''checkin_at'', json_int (ObCheckinAt ob))]"

text \<open>A job of a sorted set: its time, then the fields of the embedded job.\<close>

definition timed_job_json :: "string \<Rightarrow> int \<Rightarrow> job \<Rightarrow> json option" where
  "timed_job_json tag t j = map_option (\<lambda>a. JObj ((tag, json_int t) # job_members j a)) (args_json (Args j))"

fun all_some :: "'a option list \<Rightarrow> 'a list option" where
  "all_some [] = Some []"
| "all_some (x # xs) = (case (x, all_some xs) of (Some y, Some ys) \<Rightarrow> Some (y # ys) | _ \<Rightarrow> None)"

definition page_json :: "json option list \<Rightarrow> int \<Rightarrow> json option" where
  "page_json js n = map_option (\<lambda>ds. JObj [(''count'', json_int n), (''jobs'', JArr ds)]) (all_some js)"

definition status_ok :: json where
  "status_ok = JObj [(''status'', JStr ''ok'')]"

section \<open>Handlers\<close>

definition parsePage :: "http_request \<Rightarrow> go_err + nat" where
  "parsePage r =
     (case form r of
        Inl msg \<Rightarrow> Inl (Errorf msg)
      | Inr s \<Rightarrow>
          (let pageStr = (if s = [] then ''1'' else s) in
           case strconv_ParseUint pageStr of
             None \<Rightarrow> Inl (NumError ''ParseUint'' pageStr (num_reason pageStr))
           | Some n \<Rightarrow> Inr n))"

text \<open>A handler that runs an action of the client and renders what it returns.\<close>

definition rendered :: "web_env \<Rightarrow> ('a \<Rightarrow> json option) \<Rightarrow> ('w, 'a) go \<Rightarrow> 'w \<Rightarrow> response \<times> 'w" where
  "rendered env f m w =
     (case m w of (r, w') \<Rightarrow> (if is_panic r then RespAborted else render env (map_sum id f r), w'))"

definition paged ::
  "web_env \<Rightarrow> http_request \<Rightarrow> ('a \<times> int \<Rightarrow> json option) \<Rightarrow> (nat \<Rightarrow> ('w, 'a \<times> int) go) \<Rightarrow> 'w \<Rightarrow> response \<times> 'w" where
  "paged env r f m w =
     (case parsePage r of Inl err \<Rightarrow> (renderError env err, w) | Inr page \<Rightarrow> rendered env f (m page) w)"

text \<open>The keys of a map are sorted.\<close>

definition ping :: "web_env \<Rightarrow> response" where
  "ping env = render env (Inr (Some (JObj [(''current_time'', JStr (we_stamp env)), (''ping'', JStr ''pong'')])))"

definition queues :: "'w redis \<Rightarrow> string \<Rightarrow> web_env \<Rightarrow> 'w \<Rightarrow> response \<times> 'w" where
  "queues R ns env = rendered env (\<lambda>qs. Some (JArr (map queue_json qs))) (Queues R ns (we_now env))"

definition workerPools :: "'w redis \<Rightarrow> string \<Rightarrow> web_env \<Rightarrow> 'w \<Rightarrow> response \<times> 'w" where
  "workerPools R ns env = rendered env (\<lambda>hs. Some (JArr (map heartbeat_json hs))) (WorkerPoolHeartbeats R ns)"

text \<open>The slice of busy observations starts as nil.\<close>

definition busyWorkers :: "'w redis \<Rightarrow> string \<Rightarrow> web_env \<Rightarrow> 'w \<Rightarrow> response \<times> 'w" where
  "busyWorkers R ns env =
     rendered env
       (\<lambda>obs. let busy = filter IsBusy obs in Some (if busy = [] then JNull else JArr (map observation_json busy)))
       (WorkerObservations R ns)"

definition retryJobs :: "'w redis \<Rightarrow> string \<Rightarrow> web_env \<Rightarrow> http_request \<Rightarrow> 'w \<Rightarrow> response \<times> 'w" where
  "retryJobs R ns env r =
     paged env r (\<lambda>(js, n). page_json (map (\<lambda>x. timed_job_json ''retry_at'' (RetryAt x) (RJob x)) js) n) (RetryJobs R ns)"

definition scheduledJobs :: "'w redis \<Rightarrow> string \<Rightarrow> web_env \<Rightarrow> http_request \<Rightarrow> 'w \<Rightarrow> response \<times> 'w" where
  "scheduledJobs R ns env r =
     paged env r (\<lambda>(js, n). page_json (map (\<lambda>x. timed_job_json ''run_at'' (RunAt x) (SJob x)) js) n) (ScheduledJobs R ns)"

definition deadJobs :: "'w redis \<Rightarrow> string \<Rightarrow> web_env \<Rightarrow> http_request \<Rightarrow> 'w \<Rightarrow> response \<times> 'w" where
  "deadJobs R ns env r =
     paged env r (\<lambda>(js, n). page_json (map (\<lambda>x. timed_job_json ''died_at'' (DiedAt x) (DJob x)) js) n) (DeadJobs R ns)"

definition deleteDeadJob :: "'w redis \<Rightarrow> string \<Rightarrow> web_env \<Rightarrow> string \<Rightarrow> string \<Rightarrow> 'w \<Rightarrow> response \<times> 'w" where
  "deleteDeadJob R ns env died_at job_id w =
     (case strconv_ParseInt died_at of
        None \<Rightarrow> (renderError env (NumError ''ParseInt'' died_at (num_reason (unsigned_part died_at))), w)
      | Some diedAt \<Rightarrow> rendered env (\<lambda>_. Some status_ok) (DeleteDeadJob R ns diedAt job_id) w)"

definition retryDeadJob :: "'w redis \<Rightarrow> string \<Rightarrow> web_env \<Rightarrow> string \<Rightarrow> string \<Rightarrow> 'w \<Rightarrow> response \<times> 'w" where
  "retryDeadJob R ns env died_at job_id w =
     (case strconv_ParseInt died_at of
        None \<Rightarrow> (renderError env (NumError ''ParseInt'' died_at (num_reason (unsigned_part died_at))), w)
      | Some diedAt \<Rightarrow>
          rendered env (\<lambda>_. Some status_ok) (RetryDeadJob R ns (we_now env) (we_now' env) diedAt job_id) w)"

definition deleteAllDeadJobs :: "'w redis \<Rightarrow> string \<Rightarrow> web_env \<Rightarrow> 'w \<Rightarrow> response \<times> 'w" where
  "deleteAllDeadJobs R ns env = rendered env (\<lambda>_. Some status_ok) (DeleteAllDeadJobs R ns)"

definition retryAllDeadJobs :: "'w redis \<Rightarrow> string \<Rightarrow> web_env \<Rightarrow> 'w \<Rightarrow> response \<times> 'w" where
  "retryAllDeadJobs R ns env = rendered env (\<lambda>_. Some status_ok) (RetryAllDeadJobs R ns (we_now env) (we_now' env))"

text \<open>\<open>mustAsset\<close>: \<open>None\<close> is its panic.\<close>

definition mustAsset :: "web_env \<Rightarrow> string \<Rightarrow> string option" where
  "mustAsset env name = (case Asset (we_gz env) (we_embedded env) name of Inl _ \<Rightarrow> None | Inr b \<Rightarrow> Some b)"

definition file_response :: "string \<Rightarrow> string option \<Rightarrow> response" where
  "file_response ctype b = (case b of None \<Rightarrow> RespAborted | Some bytes \<Rightarrow> Response 200 ctype bytes)"

definition indexPage :: "web_env \<Rightarrow> response" where
  "indexPage env = file_response ''text/html; charset=utf-8'' (mustAsset env ''index.html'')"

definition workJS :: "web_env \<Rightarrow> response" where
  "workJS env = file_response ''application/javascript; charset=utf-8'' (mustAsset env ''work.js'')"

section \<open>Serving\<close>

definition serve :: "'w redis \<Rightarrow> string \<Rightarrow> web_env \<Rightarrow> http_request \<Rightarrow> 'w \<Rightarrow> response \<times> 'w" where
  "serve R ns env r w =
     (case NewHandler r of
        NotFound \<Rightarrow> (RespNotFound, w)
      | MethodNotAllowed \<Rightarrow> (RespMethodNotAllowed, w)
      | Handle rt \<Rightarrow>
          (case rt of
             R_ping \<Rightarrow> (ping env, w)
           | R_queues \<Rightarrow> queues R ns env w
           | R_workerPools \<Rightarrow> workerPools R ns env w
           | R_busyWorkers \<Rightarrow> busyWorkers R ns env w
           | R_retryJobs \<Rightarrow> retryJobs R ns env r w
           | R_scheduledJobs \<Rightarrow> scheduledJobs R ns env r w
           | R_deadJobs \<Rightarrow> deadJobs R ns env r w
           | R_deleteDeadJob died_at job_id \<Rightarrow> deleteDeadJob R ns env died_at job_id w
           | R_retryDeadJob died_at job_id \<Rightarrow> retryDeadJob R ns env died_at job_id w
           | R_deleteAllDeadJobs \<Rightarrow> deleteAllDeadJobs R ns env w
           | R_retryAllDeadJobs \<Rightarrow> retryAllDeadJobs R ns env w
           | R_indexPage \<Rightarrow> (indexPage env, w)
           | R_workJS \<Rightarrow> (workJS env, w)))"

text \<open>
  The server: \<open>ListenAndServe\<close> runs in a goroutine and its error is dropped, so a server that cannot bind
  its address (\<open>bound = False\<close>) stays silent. A server that was shut down does not listen again.
\<close>

datatype server_state = Created | Listening | Closed

record server =
  Addr :: string
  sHandler :: string
  sstate :: server_state

definition NewServer :: "string \<Rightarrow> string \<Rightarrow> server" where
  "NewServer namespace hostPort = \<lparr>Addr = hostPort, sHandler = namespace, sstate = Created\<rparr>"

definition server_Start :: "bool \<Rightarrow> server \<Rightarrow> server" where
  "server_Start bound s = (if sstate s = Created \<and> bound then s\<lparr>sstate := Listening\<rparr> else s)"

definition server_Stop :: "server \<Rightarrow> server" where
  "server_Stop s = s\<lparr>sstate := Closed\<rparr>"

text \<open>A request to the server's address; \<open>None\<close> if nobody listens there.\<close>

definition http_get :: "'w redis \<Rightarrow> server \<Rightarrow> web_env \<Rightarrow> http_request \<Rightarrow> 'w \<Rightarrow> response option \<times> 'w" where
  "http_get R s env r w =
     (if sstate s = Listening then apfst Some (serve R (sHandler s) env r w) else (None, w))"

end
