(* ===== verification/Web_Facts.thy ===== *)
theory Web_Facts
  imports Webui Client_Facts
begin

text \<open>
  The web UI as a whole: which requests can change anything in Redis, what a page of dead jobs shows, and
  what an error looks like.
\<close>

section \<open>Reading changes nothing\<close>

text \<open>The commands that Redis flags as \<open>readonly\<close>.\<close>

definition read_only :: "cmd \<Rightarrow> bool" where
  "read_only c \<longleftrightarrow>
     (case c of
        GET _ \<Rightarrow> True | LLEN _ \<Rightarrow> True | LINDEX_LAST _ \<Rightarrow> True | SMEMBERS _ \<Rightarrow> True | HGET _ _ \<Rightarrow> True | HGETALL _ \<Rightarrow> True
      | ZCARD _ \<Rightarrow> True | ZRANGEBYSCORE _ _ _ _ \<Rightarrow> True | ZRANGEBYSCORE_WITHSCORES _ _ _ _ \<Rightarrow> True | KEYS _ \<Rightarrow> True | _ \<Rightarrow> False)"

definition keeps :: "('w \<Rightarrow> keyspace) \<Rightarrow> ('w, 'a) go \<Rightarrow> bool" where
  "keeps db m \<longleftrightarrow> (\<forall>w. db (snd (m w)) = db w)"

locale redis_reader = redis_conn R db up
  for R :: "'w redis" and db :: "'w \<Rightarrow> keyspace" and up :: "'w \<Rightarrow> bool" +
  assumes read_only: "read_only c \<Longrightarrow> snd (call R c d) = d"
begin

lemma exec_keeps: "snd (f (db w)) = db w \<Longrightarrow> exec_go R f w = (r, w') \<Longrightarrow> db w' = db w"
  using exec_go_once [of f w r w'] by auto

lemma Do_keeps: "read_only c \<Longrightarrow> conn_Do R c w = (r, w') \<Longrightarrow> db w' = db w"
  unfolding conn_Do_def by (rule exec_keeps) (simp_all add: read_only)

lemma pipeline_keeps:
  "\<forall>f\<in>set fs. \<exists>c. f = call R c \<and> read_only c \<Longrightarrow> pipeline R fs w = (rs, w') \<Longrightarrow> db w' = db w"
proof (induction fs arbitrary: w rs)
  case (Cons f fs)
  obtain r w1 where f: "exec_go R f w = (r, w1)" by (cases "exec_go R f w")
  with Cons.prems obtain rs' where "pipeline R fs w1 = (rs', w')" by (auto split: prod.splits)
  with Cons.IH [of w1] Cons.prems(1) have "db w' = db w1" by simp
  also have "snd (f (db w)) = db w" using Cons.prems(1) read_only by auto
  then have "db w1 = db w" using f by (rule exec_keeps)
  finally show ?case .
qed simp

lemma keeps_bind: "keeps db m \<Longrightarrow> (\<And>a. keeps db (f a)) \<Longrightarrow> keeps db (ebind m f)"
  by (simp add: keeps_def ebind_def split: prod.split sum.split) (metis snd_conv)

lemma keeps_basic: "keeps db (eret a)" "keeps db (conv h r)" "keeps db (received r')" "read_only c \<Longrightarrow> keeps db (conn_Do R c)"
  using Do_keeps by (auto simp: keeps_def eret_def conv_def received_def) (metis prod.collapse)

lemma keeps_pipeline:
  assumes "\<forall>f\<in>set fs. \<exists>c. f = call R c \<and> read_only c" and "\<And>rs w. db (snd (g rs w)) = db w"
  shows "keeps db (\<lambda>w. case pipeline R fs w of (rs, w') \<Rightarrow> g rs w')"
  using pipeline_keeps [OF assms(1)] assms(2) by (auto simp: keeps_def split: prod.split)

lemma keeps_heartbeats: "keeps db (WorkerPoolHeartbeats R ns)"
  unfolding WorkerPoolHeartbeats_def Let_def
  by (intro keeps_bind keeps_basic keeps_pipeline) (auto simp: read_only_def)

lemma keeps_observations: "keeps db (WorkerObservations R ns)"
  unfolding WorkerObservations_def Let_def
  by (intro keeps_bind keeps_heartbeats keeps_pipeline) (auto simp: read_only_def)

lemma latencies_keep: "db (snd (case pipeline R (latency_requests R ns qs) w of (rs, w') \<Rightarrow> (g rs, w'))) = db w"
proof -
  have "\<forall>f\<in>set (latency_requests R ns qs). \<exists>c. f = call R c \<and> read_only c"
    by (fastforce simp: latency_requests_def read_only_def)
  from pipeline_keeps [OF this] show ?thesis by (auto split: prod.split)
qed

lemma keeps_queues: "keeps db (Queues R ns now)"
  unfolding Queues_def Let_def
  by (intro keeps_bind keeps_basic keeps_pipeline)
    (auto simp: read_only_def queue_requests_def latencies_keep split: sum.split)

lemma keeps_page: "keeps db (getZsetPage R k page)"
  unfolding getZsetPage_def Let_def by (intro keeps_bind keeps_basic) (simp_all add: read_only_def)

lemma keeps_jobs: "keeps db (RetryJobs R ns page)" "keeps db (ScheduledJobs R ns page)" "keeps db (DeadJobs R ns page)"
  unfolding RetryJobs_def ScheduledJobs_def DeadJobs_def
  by (intro keeps_bind keeps_page, simp add: keeps_def eret_def split: prod.split)+

lemma rendered_keeps: "keeps db m \<Longrightarrow> db (snd (rendered env f m w)) = db w"
  by (auto simp: rendered_def keeps_def split: prod.split) (metis snd_conv)

lemma paged_keeps: "(\<And>page. keeps db (m page)) \<Longrightarrow> db (snd (paged env r f m w)) = db w"
  by (simp add: paged_def rendered_keeps split: sum.split)

lemmas reads_keep = rendered_keeps paged_keeps keeps_heartbeats keeps_observations keeps_queues keeps_jobs

end

interpretation mem_reader: redis_reader mem_redis mem_db mem_up
  by unfold_locales (auto simp: read_only_def wrong_type_def Let_def split: cmd.splits)

text \<open>C30: whatever the network does, a request that changes the data in Redis is a \<open>POST\<close> to one of the
  four routes that delete or retry dead jobs, with a numeric time of death where the route has one.\<close>

theorem web_writes_by_post:
  assumes "redis_reader R db up" and "serve R ns env r w = (resp, w')" and "db w' \<noteq> db w"
  shows "rmethod r = ''POST'' \<and> (rpath r \<in> {[''delete_all_dead_jobs''], [''retry_all_dead_jobs'']} \<or>
    (\<exists>p d j. rpath r = [p, d, j] \<and> p \<in> {''delete_dead_job'', ''retry_dead_job''} \<and> strconv_ParseInt d \<noteq> None))"
proof -
  note keep = redis_reader.reads_keep [OF assms(1)]
  have "db (snd (serve R ns env r w)) \<noteq> db w" using assms(2,3) by simp
  moreover obtain rt where rt: "NewHandler r = Handle rt"
    using assms(2,3) by (cases "NewHandler r") (auto simp: serve_def)
  ultimately have "rt \<in> {R_deleteAllDeadJobs, R_retryAllDeadJobs} \<or>
    (\<exists>d j. rt \<in> {R_deleteDeadJob d j, R_retryDeadJob d j} \<and> strconv_ParseInt d \<noteq> None)"
    by (cases rt)
      (simp_all add: serve_def keep queues_def workerPools_def busyWorkers_def retryJobs_def scheduledJobs_def deadJobs_def
        deleteDeadJob_def retryDeadJob_def split: option.splits)
  with rt show ?thesis by (auto simp: NewHandler_def mux_match_def method_matches_def split: list.splits if_splits option.splits)
qed

definition no_env :: web_env where
  "no_env = \<lparr>we_gz = (\<lambda>d. Inflated d None None), we_embedded = \<lparr>e_indexHtml = [], e_workJs = [], e_workJsLicenseTxt = []\<rparr>,
     we_texts = (\<lambda>_. []), we_stamp = [], we_now = 7, we_now' = 8\<rparr>"

definition post_delete_all :: http_request where
  "post_delete_all = \<lparr>rmethod = ''POST'', rpath = [''delete_all_dead_jobs''], form = Inr []\<rparr>"

theorem web_writes_by_post_witness:
  "\<exists>resp w'. serve mem_redis ''w'' no_env post_delete_all dead_world = (resp, w') \<and> mem_db w' \<noteq> mem_db dead_world \<and>
     rmethod post_delete_all = ''POST''"
proof -
  obtain resp w' where run: "serve mem_redis ''w'' no_env post_delete_all dead_world = (resp, w')"
    by (cases "serve mem_redis ''w'' no_env post_delete_all dead_world")
  moreover have "kv (mem_db w') (redisKeyDead ''w'') \<noteq> kv (mem_db dead_world) (redisKeyDead ''w'')"
    using run by (auto simp: serve_def post_delete_all_def NewHandler_def mux_match_def method_matches_def deleteAllDeadJobs_def
        DeleteAllDeadJobs_def rendered_def ebind_def eret_def conn_Do_def exec_go_def mem_exec_def obs_simps lift_err_def answer_def
        vzset_def dead_world_def split: prod.splits sum.splits)
  then have "mem_db w' \<noteq> mem_db dead_world" by metis
  ultimately show ?thesis using web_writes_by_post [OF mem_reader.redis_reader_axioms run] by blast
qed

section \<open>A page of dead jobs\<close>

lemma reread_wf: "job_wf j \<Longrightarrow> job_wf (reread raw from inprog j)"
  using go_norm_wf(3) go_map_wf_keys [OF norm_members_keys] by (auto simp: job_wf_def reread_def split: option.splits)

lemma storable_newJob:
  assumes "storable m"
  shows "newJob m [] [] = Some (stored_job m)" and "job_wf (stored_job m)"
proof -
  from assms obtain j where "job_wf j" "serialize j = Some m" by (auto simp: storable_def lua_job_def)
  then have "newJob m [] [] = Some (reread m [] [] j)" "job_wf (reread m [] [] j)"
    using newJob_serialize reread_wf by blast+
  then show "newJob m [] [] = Some (stored_job m)" "job_wf (stored_job m)" by (simp_all add: stored_job_def)
qed

text \<open>The document for an entry: its time of death, then the members of the stored job.\<close>

definition dead_doc :: "int \<times> string \<Rightarrow> json" where
  "dead_doc x =
     JObj ((''died_at'', json_int (fst x)) # job_members (stored_job (snd x)) (the (args_json (Args (stored_job (snd x))))))"

lemma timed_job_json_wf:
  assumes "job_wf j"
  shows "\<exists>a. timed_job_json tag t j = Some (JObj ((tag, json_int t) # job_members j a)) \<and> args_json (Args j) = Some a \<and>
    json_wf (JObj ((tag, json_int t) # job_members j a))"
proof -
  from assms obtain a where "args_json (Args j) = Some a" "json_wf a"
    using args_json_wf [of "Args j"] by (auto simp: job_wf_def)
  then show ?thesis by (simp add: timed_job_json_def job_members_def omit_empty_def json_int_def)
qed

lemma dead_doc_json:
  assumes "storable (snd x)"
  shows "timed_job_json ''died_at'' (fst x) (stored_job (snd x)) = Some (dead_doc x)" and "json_wf (dead_doc x)"
  using timed_job_json_wf [OF storable_newJob(2) [OF assms], of "''died_at''" "fst x"] by (auto simp: dead_doc_def)

lemma all_some_map: "\<forall>x\<in>set xs. f x = Some (g x) \<Longrightarrow> all_some (map f xs) = Some (map g xs)"
  by (induction xs) auto

context redis_link
begin

lemma DeadJobs_up:
  assumes "up w" and "zset_type (kv (db w) (redisKeyDead ns))" and "1 \<le> page" and "page \<le> 2 ^ 58"
    and "z = zst (db w) (redisKeyDead ns)" and "\<forall>x\<in>set z. score_ok (fst x) \<and> storable (snd x)"
  shows "\<exists>w'. DeadJobs R ns page w =
      (Inr (map (\<lambda>x. \<lparr>DiedAt = fst x, DJob = stored_job (snd x)\<rparr>) (page_of page z), int (length z)), w') \<and>
    up w' \<and> db w' = db w"
proof -
  have "\<forall>x\<in>set (zst (db w) (redisKeyDead ns)). score_ok (fst x) \<and> newJob (snd x) [] [] \<noteq> None"
    using assms(5,6) storable_newJob(1) by fastforce
  from getZsetPage_up [OF assms(1-4) this] obtain w' where
    "getZsetPage R (redisKeyDead ns) page w = (Inr (map score_of (page_of page z), int (length z)), w')" "up w'" "db w' = db w"
    using assms(5) by blast
  moreover have "jsJob (score_of x) = stored_job (snd x)" "Score (score_of x) = fst x" if "x \<in> set (page_of page z)" for x
    using that assms(6) storable_newJob(1) [of "snd x"]
    by (auto simp: score_of_def page_of_def dest!: in_set_takeD in_set_dropD)
  ultimately show ?thesis by (auto simp: DeadJobs_def ebind_def eret_def)
qed

end


definition get_dead_jobs :: http_request where
  "get_dead_jobs = \<lparr>rmethod = ''GET'', rpath = [''dead_jobs''], form = Inr ''1''\<rparr>"


section \<open>Errors\<close>

text \<open>What is left of a quoted text after white space: its closing quote, an ordinary character or a backslash.\<close>

lemma quote_char_cases: "quote_char c = [c] \<and> c \<noteq> CHR 0x22 \<or> (\<exists>u. quote_char c = CHR 0x5C # u)"
  by (auto simp: quote_char_def Let_def)

lemma skip_ws_quoted:
  fixes s y :: string
  defines "x \<equiv> concat (map quote_char s) @ CHR 0x22 # y"
  shows "skip_ws x = CHR 0x22 # y \<or> (\<exists>u. skip_ws x = CHR 0x5C # u) \<or>
    (\<exists>c s'. c \<noteq> CHR 0x22 \<and> skip_ws x = c # concat (map quote_char s') @ CHR 0x22 # y)"
  unfolding x_def
proof (induction s)
  case (Cons c s)
  show ?case
  proof (cases "quote_char c = [c] \<and> c \<noteq> CHR 0x22")
    case True
    with Cons.IH show ?thesis by (cases "is_ws c") (auto simp: skip_ws_def)
  next
    case False
    then obtain u where "quote_char c = CHR 0x5C # u" using quote_char_cases by blast
    then show ?thesis by (simp add: skip_ws_def is_ws_def)
  qed
qed (simp add: skip_ws_def is_ws_def)

lemma skip_ws_quote: "CHR 0x22 \<in> set u \<Longrightarrow> skip_ws u \<noteq> []"
  by (simp add: skip_ws_def dropWhile_eq_Nil_conv, rule bexI [of _ "CHR 0x22"]) (simp_all add: is_ws_def)

lemma skip_ws_Cons: "skip_ws (c # s) = (if is_ws c then skip_ws s else c # s)"
  by (simp add: skip_ws_def)

definition num_error_tail :: "num_err \<Rightarrow> string" where
  "num_error_tail why = '': '' @ reason_text why @ [CHR 0x22] @ ''}''"

lemma members_after_quote: "parse_members n (concat (map quote_char s) @ CHR 0x22 # num_error_tail why) = None"
proof (cases n)
  case (Suc m)
  have "parse_str (num_error_tail why) = Some ('': '' @ reason_text why, ''}'')"
    by (cases why) (simp_all add: num_error_tail_def reason_text_def)
  then show ?thesis
    using skip_ws_quoted [of s "num_error_tail why"] by (auto simp: Suc skip_ws_Cons is_ws_def)
qed simp

text \<open>After a member whose value ends before a quoted text, no object ends.\<close>

lemma member_then_quoted:
  assumes "parse_members n (json_string k @ '': '' @ json_string v @ concat (map quote_char s) @ CHR 0x22 # num_error_tail why) = Some (ms, r)"
  shows "skip_ws r \<noteq> []"
proof -
  let ?x = "concat (map quote_char s) @ CHR 0x22 # num_error_tail why"
  obtain m where n: "n = Suc m" using assms by (cases n) auto
  obtain i where m: "m = Suc i" using assms by (cases m) (auto simp: n json_string_def parse_str_json_string skip_ws_Cons is_ws_def)
  have ps: "parse_str (concat (map json_esc t) @ CHR 0x22 # u) = Some (t, u)" for t u by (rule parse_str_json_string)
  show ?thesis
    using assms skip_ws_quoted [of s "num_error_tail why"] members_after_quote [of m]
    by (auto simp: n m json_string_def ps skip_ws_Cons is_ws_def split: if_splits option.splits intro!: skip_ws_quote)
qed

lemma error_body_split:
  "renderError_body (num_error_text fn s why) =
    CHR ''{'' # json_string ''error'' @ '': '' @ CHR 0x22 # (''strconv.'' @ fn @ '': parsing '') @
      CHR 0x22 # concat (map quote_char s) @ CHR 0x22 # num_error_tail why"
  by (simp add: renderError_body_def num_error_text_def strconv_Quote_def num_error_tail_def json_string_def json_esc_def)

lemma parse_error_not_json:
  assumes "fn = ''ParseUint'' \<or> fn = ''ParseInt''"
  shows "json_parse (renderError_body (num_error_text fn s why)) = None"
proof -
  have v: "CHR 0x22 # (''strconv.'' @ fn @ '': parsing '') @ CHR 0x22 # x = json_string (''strconv.'' @ fn @ '': parsing '') @ x" for x
    using assms by (auto simp: json_string_def json_esc_def)
  show ?thesis
    unfolding error_body_split v json_parse_def
    using member_then_quoted [of _ "''error''" "''strconv.'' @ fn @ '': parsing ''" s why]
    by (auto simp: skip_ws_Cons is_ws_def json_string_def [of "''error''"] split: option.splits simp del: parse_members.simps)
qed

text \<open>C32: for a page that is not a number in range, whatever it is, the three job lists answer with status 500,
  the content type of JSON and a body that no JSON parser accepts, because the text of the error, which quotes
  the page, is copied between quotes.\<close>

theorem bad_page_body_not_json:
  assumes "rmethod r = ''GET''" and "rpath r \<in> {[''retry_jobs''], [''scheduled_jobs''], [''dead_jobs'']}"
    and "form r = Inr p" and "p \<noteq> []" and "strconv_ParseUint p = None"
  shows "\<exists>body. serve R ns env r w = (Response 500 json_type body, w) \<and> json_parse body = None"
  using assms parse_error_not_json [of "''ParseUint''" p "num_reason p"]
  by (auto simp: serve_def NewHandler_def mux_match_def method_matches_def retryJobs_def scheduledJobs_def deadJobs_def paged_def
      parsePage_def renderError_def err_text_def)

definition get_bad_page :: http_request where
  "get_bad_page = \<lparr>rmethod = ''GET'', rpath = [''dead_jobs''], form = Inr ''-1''\<rparr>"

theorem bad_page_body_not_json_witness:
  "\<exists>body. serve mem_redis ''w'' no_env get_bad_page dead_world = (Response 500 json_type body, dead_world) \<and> json_parse body = None"
proof -
  have "strconv_ParseUint ''-1'' = None" by (simp add: strconv_ParseUint_def is_digit_def)
  then show ?thesis by (intro bad_page_body_not_json [of get_bad_page "''-1''"]) (simp_all add: get_bad_page_def)
qed

end
