(* ===== verification/Commands.thy ===== *)
theory Commands
  imports Webui Worker_Pool Enqueuer_Facts
begin

text \<open>
  The programs under \<open>cmd/\<close>: \<open>workenqueue\<close> pushes one job, \<open>workwebui\<close> runs the web UI, \<open>workfakedata\<close>
  clears a namespace and keeps it busy. What they print is left out. Their flags are arguments.
\<close>

section \<open>Connection pools\<close>

text \<open>How a program's pool dials, and the limits it sets; times are in nanoseconds.\<close>

datatype dialer = DialURL string int | DialTCP string

record redis_pool =
  MaxActive :: nat
  MaxIdle :: nat
  IdleTimeout :: int
  Dial :: dialer
  PoolWait :: bool

definition newPool :: "string \<Rightarrow> redis_pool" where
  "newPool addr = \<lparr>MaxActive = 20, MaxIdle = 20, IdleTimeout = 240 * 1000000000, Dial = DialTCP addr, PoolWait = True\<rparr>"

text \<open>\<open>workfakedata\<close> has its own copy.\<close>

definition fake_newPool :: "string \<Rightarrow> redis_pool" where
  "fake_newPool addr = \<lparr>MaxActive = 20, MaxIdle = 20, IdleTimeout = 240 * 1000000000, Dial = DialTCP addr, PoolWait = True\<rparr>"

definition webui_newPool :: "string \<Rightarrow> int \<Rightarrow> redis_pool" where
  "webui_newPool addr database =
     \<lparr>MaxActive = 3, MaxIdle = 3, IdleTimeout = 240 * 1000000000, Dial = DialURL addr database, PoolWait = True\<rparr>"

section \<open>\<open>workenqueue\<close>\<close>

record enqueue_flags =
  ef_redis :: string
  ef_ns :: string
  ef_job :: string
  ef_args :: string

definition default_enqueue_flags :: enqueue_flags where
  "default_enqueue_flags = \<lparr>ef_redis = ''redis://:6379'', ef_ns = ''work'', ef_job = [], ef_args = ''{}''\<rparr>"

text \<open>\<open>json.Unmarshal\<close> into a nil map.\<close>

definition unmarshal_args :: "string \<Rightarrow> go_args option" where
  "unmarshal_args s = (case json_parse s of None \<Rightarrow> None | Some v \<Rightarrow> as_args v None)"

text \<open>The exit status. The result of \<open>Enqueue\<close> is not looked at.\<close>

definition workenqueue_main :: "'w redis \<Rightarrow> string \<Rightarrow> int \<Rightarrow> int \<Rightarrow> enqueue_flags \<Rightarrow> 'w \<Rightarrow> nat \<times> 'w" where
  "workenqueue_main R ident now now' fl w =
     (if ef_job fl = [] then (1, w)
      else
        (case unmarshal_args (ef_args fl) of
           None \<Rightarrow> (1, w)
         | Some args \<Rightarrow>
             (case Enqueue R ident now now' (ef_job fl) args (NewEnqueuer (ef_ns fl), w) of
                (_, (_, w')) \<Rightarrow> (0, w'))))"

section \<open>\<open>workwebui\<close>\<close>

record webui_flags =
  wf_redis :: string
  wf_database :: string
  wf_ns :: string
  wf_listen :: string

definition default_webui_flags :: webui_flags where
  "default_webui_flags = \<lparr>wf_redis = ''redis://:6379'', wf_database = ''0'', wf_ns = ''work'', wf_listen = '':5040''\<rparr>"

text \<open>
  The server and its pool while the program waits for a signal, and what the signal does; \<open>None\<close>: the
  database is not a number and the program returns.
\<close>

definition workwebui_main :: "bool \<Rightarrow> webui_flags \<Rightarrow> (redis_pool \<times> server) option" where
  "workwebui_main bound fl =
     (case strconv_ParseInt (wf_database fl) of
        None \<Rightarrow> None
      | Some database \<Rightarrow>
          Some (webui_newPool (wf_redis fl) database, server_Start bound (NewServer (wf_ns fl) (wf_listen fl))))"

definition workwebui_signal :: "redis_pool \<times> server \<Rightarrow> redis_pool \<times> server" where
  "workwebui_signal = apsnd server_Stop"

section \<open>\<open>workfakedata\<close>\<close>

text \<open>\<open>rnd\<close> is the number from \<open>rand.IntN(2)\<close>.\<close>

definition epsilonHandler :: "nat \<Rightarrow> 'c handler" where
  "epsilonHandler rnd = (\<lambda>s. (Returned (if rnd = 0 then Some ''random error'' else None), s))"

definition cleanKeyspace :: "'w redis \<Rightarrow> string \<Rightarrow> ('w, unit) go" where
  "cleanKeyspace R ns =
     ebind (map_err (\<lambda>_. GoPanic ''could not get keys'')
       (ebind (conn_Do R (KEYS (ns @ ''*''))) (conv (redis_Strings R)))) (\<lambda>keys.
     eiter (\<lambda>k. map_err (\<lambda>_. GoPanic ''could not del'') (ebind (conn_Do R (DEL k)) (\<lambda>_. eret ()))) keys)"

text \<open>The goroutine that adds the known job.\<close>

definition fake_known_job :: "'w redis \<Rightarrow> string \<Rightarrow> 'w \<Rightarrow> 'w" where
  "fake_known_job R ns = logged (conn_Do R (SADD (ns @ '':known_jobs'') [''foobar'']))"

text \<open>
  One round of the goroutine that enqueues: a new enqueuer and twenty jobs, whatever happens to each of
  them. \<open>reads\<close> gives the identifier and the clock readings of each job.
\<close>

definition fake_job :: "'w redis \<Rightarrow> (nat \<Rightarrow> string \<times> int \<times> int) \<Rightarrow> nat \<Rightarrow> enqueuer \<times> 'w \<Rightarrow> enqueuer \<times> 'w" where
  "fake_job R reads i =
     (case reads i of (ident, now, now') \<Rightarrow>
        logged (Enqueue R ident now now' ''foobar'' (Some [(''i'', GInt KInt (int i))])))"

definition fake_round :: "'w redis \<Rightarrow> (nat \<Rightarrow> string \<times> int \<times> int) \<Rightarrow> string \<Rightarrow> 'w \<Rightarrow> 'w" where
  "fake_round R reads ns w = snd (fold (fake_job R reads) [0..<20] (NewEnqueuer ns, w))"

text \<open>The pool of five workers, with an empty struct as its context.\<close>

definition fake_pool :: "nat \<Rightarrow> string \<Rightarrow> string list \<Rightarrow> string \<Rightarrow> string + unit workerPool" where
  "fake_pool rnd ident idents ns =
     (case NewWorkerPool ident idents (TStruct ''main.context'') () 5 ns True of
        Inl msg \<Rightarrow> Inl msg
      | Inr wp \<Rightarrow>
          Job_register ''foobar'' \<lparr>FnType = TFunc None [type_Job] [type_error] False, FnBody = epsilonHandler rnd\<rparr> wp)"

text \<open>
  \<open>main\<close>: the cleaning, then the two goroutines and the start of the pool, here in the order in which they are
  started; later rounds are \<open>fake_round\<close>. \<open>Inl\<close> is a panic.
\<close>

definition workfakedata_main ::
  "'w redis \<Rightarrow> nat \<Rightarrow> (nat \<Rightarrow> string \<times> int \<times> int) \<Rightarrow> string \<Rightarrow> string list \<Rightarrow> int \<Rightarrow> string option \<Rightarrow> string \<Rightarrow>
   'w \<Rightarrow> (string + unit workerPool) \<times> 'w" where
  "workfakedata_main R rnd reads ident idents pid host ns w =
     (case cleanKeyspace R ns w of
        (Inl err, w1) \<Rightarrow> (Inl (case err of GoPanic msg \<Rightarrow> msg | _ \<Rightarrow> []), w1)
      | (Inr _, w1) \<Rightarrow>
          (let w2 = fake_round R reads ns (fake_known_job R ns w1) in
           case fake_pool rnd ident idents ns of
             Inl msg \<Rightarrow> (Inl msg, w2)
           | Inr wp \<Rightarrow> apfst Inr (Start R pid host (wp, w2))))"

end
