(* ===== verification/Command_Facts.thy ===== *)
theory Command_Facts
  imports Commands
begin

text \<open>
  What the programs under \<open>cmd/\<close> do to Redis: a job given on the command line arrives as it was written, and
  the fake data replaces everything whose key begins with the namespace.
\<close>

section \<open>Arguments from JSON\<close>

text \<open>What comes from a document is well formed and in normal form.\<close>

lemma members_map_put:
  "members_wf m \<Longrightarrow> goany_wf v \<Longrightarrow> norm_members m = m \<Longrightarrow> go_norm v = v \<Longrightarrow>
   members_wf (map_put k v m) \<and> norm_members (map_put k v m) = map_put k v m"
  by (induction k v m rule: map_put.induct) auto

lemma members_go_map_of:
  assumes "members_wf m" and "norm_members m = m"
  shows "members_wf (go_map_of m) \<and> norm_members (go_map_of m) = go_map_of m"
proof -
  have "members_wf acc \<Longrightarrow> norm_members acc = acc \<Longrightarrow>
    members_wf (foldl (\<lambda>m (k, v). map_put k v m) acc m) \<and>
    norm_members (foldl (\<lambda>m (k, v). map_put k v m) acc m) = foldl (\<lambda>m (k, v). map_put k v m) acc m" for acc
    using assms
  proof (induction m arbitrary: acc)
    case (Cons p m)
    then show ?case using members_map_put [of acc "snd p" "fst p"] by (cases p) auto
  qed simp
  then show ?thesis by (simp add: go_map_of_def)
qed

lemma unmarshal_normal:
  "go_unmarshal v = Some g \<Longrightarrow> goany_wf g \<and> go_norm g = g"
  "unmarshal_elems vs = Some gs \<Longrightarrow> elems_wf gs \<and> norm_elems gs = gs"
  "unmarshal_members kvs = Some ms \<Longrightarrow> members_wf ms \<and> norm_members ms = ms"
proof (induction v and vs and kvs arbitrary: g and gs and ms rule: go_unmarshal_unmarshal_elems_unmarshal_members.induct)
  case (3 s)
  then obtain f where f: "parse_float fmt64 s = Some f" "g = GFloat KFloat64 f" by auto
  with parse_float_ok [OF f(1)] show ?case by (auto simp: fmt_of_def)
next
  case (6 kvs)
  then show ?case using members_go_map_of go_map_of_wf by fastforce
qed (auto split: option.splits)

lemma unmarshal_args_normal:
  assumes "unmarshal_args s = Some args"
  shows "(case args of None \<Rightarrow> True | Some m \<Rightarrow> go_map_wf m \<and> members_wf m) \<and> map_option norm_members args = args"
  using assms unmarshal_normal(3) members_go_map_of go_map_of_wf
  by (auto simp: unmarshal_args_def as_args_def split: option.splits json.splits)

section \<open>Enqueueing from the command line\<close>

lemma fresh_args_wf:
  assumes "case args of None \<Rightarrow> True | Some m \<Rightarrow> go_map_wf m \<and> members_wf m" and "in_i64 now"
  shows "job_wf (fresh_job n i now args)"
  using assms by (simp add: job_wf_def fresh_job_def zero_job_def in_i64_def)

text \<open>C33: with the server reachable, \<open>workenqueue\<close> exits with 0 and has pushed one job of the given name,
  which a worker reads with exactly the arguments that the JSON text on the command line denotes.\<close>

theorem workenqueue_delivers:
  assumes "redis_link R db up" and "up w" and "ef_job fl \<noteq> []" and "unmarshal_args (ef_args fl) = Some args" and "in_i64 now"
    and "q = redisKeyJobs (ef_ns fl) (ef_job fl)" and "list_type (kv (db w) q)"
    and "set_type (kv (db w) (redisKeyKnownJobs (ef_ns fl)))"
  shows "\<exists>w' raw. workenqueue_main R ident now now' fl w = (0, w') \<and> lst (db w') q = raw # lst (db w) q \<and>
    newJob raw from inprog =
      Some ((fresh_job (ef_job fl) ident now args)\<lparr>rawJSON := raw, dequeuedFrom := from, inProgQueue := inprog\<rparr>)"
proof -
  let ?j = "fresh_job (ef_job fl) ident now args"
  note normal = unmarshal_args_normal [OF assms(4)]
  have wf: "job_wf ?j" using normal assms(5) by (simp add: fresh_args_wf)
  then obtain raw where raw: "serialize ?j = Some raw" using serialize_Some by blast
  from redis_link.Enqueue_up [OF assms(1,2) new_enqueuer_simps(1) refl raw refl, of "ef_ns fl" now'] assms(6-8)
  obtain e' w' where w': "Enqueue R ident now now' (ef_job fl) args (NewEnqueuer (ef_ns fl), w) = (Inr ?j, (e', w'))"
    "db w' = known_db (NewEnqueuer (ef_ns fl)) now' (ef_job fl) (lpush_key q raw (db w))"
    by auto
  have "kv (db w') q = vlist (raw # lst (db w) q)"
    using known_jobs_other(1) [of "ef_ns fl" "ef_job fl"] assms(6) by (simp add: w'(2) known_db_other obs_simps)
  moreover have "reread raw from inprog ?j = ?j\<lparr>rawJSON := raw, dequeuedFrom := from, inProgQueue := inprog\<rparr>"
    using normal by (simp add: reread_def fresh_job_def zero_job_def)
  ultimately show ?thesis
    using newJob_serialize [OF wf raw, of "from" inprog] w'(1) assms(3,4)
    by (auto simp: workenqueue_main_def obs_simps)
qed

definition sample_flags :: enqueue_flags where
  "sample_flags = \<lparr>ef_redis = ''localhost:6379'', ef_ns = ''w'', ef_job = ''a'', ef_args = ''{'' @ [CHR 0x22] @ ''n'' @ [CHR 0x22] @ '': true}''\<rparr>"

lemma sample_flags_args: "unmarshal_args (ef_args sample_flags) = Some (Some [(''n'', GBool True)])"
  by code_simp

theorem workenqueue_delivers_witness:
  "\<exists>w' raw. workenqueue_main mem_redis ''1'' 42 42 sample_flags sample_world = (0, w') \<and>
    lst (mem_db w') (redisKeyJobs ''w'' ''a'') = [raw] \<and>
    newJob raw [] [] = Some ((fresh_job ''a'' ''1'' 42 (Some [(''n'', GBool True)]))\<lparr>rawJSON := raw\<rparr>)"
proof -
  have "ef_job sample_flags = ''a''" "ef_ns sample_flags = ''w''" by (simp_all add: sample_flags_def)
  then show ?thesis
    using workenqueue_delivers [OF mem_link.redis_link_axioms sample_world_simps(2) _ sample_flags_args _ refl, of 42 "''1''" 42 "[]" "[]"]
    by (auto simp: in_i64_def fresh_job_def zero_job_def)
qed

text \<open>The exit status does not tell whether a job was pushed.\<close>

lemma workenqueue_status:
  "fst (workenqueue_main R ident now now' fl w) = 0 \<longleftrightarrow> ef_job fl \<noteq> [] \<and> unmarshal_args (ef_args fl) \<noteq> None"
  by (auto simp: workenqueue_main_def split: option.splits prod.splits)

text \<open>
  \<open>net.Dial\<close> rejects an address that has a colon before the one of the port and no bracket around its host:
  the default of the flag is a URL, which \<open>newPool\<close> hands to \<open>Dial("tcp", ...)\<close>.
\<close>

definition too_many_colons :: "string \<Rightarrow> bool" where
  "too_many_colons hostport \<longleftrightarrow>
     (hostport = [] \<or> hd hostport \<noteq> CHR ''['') \<and> 1 < length (filter (\<lambda>c. c = CHR '':'') hostport)"

lemma default_address_rejected: "Dial (newPool (ef_redis default_enqueue_flags)) = DialTCP a \<Longrightarrow> too_many_colons a"
  by (auto simp: newPool_def default_enqueue_flags_def too_many_colons_def)

lemma fake_newPool_same: "fake_newPool = newPool"
  by (simp add: fun_eq_iff fake_newPool_def newPool_def)

section \<open>Fake data\<close>

text \<open>\<open>KEYS\<close> with a prefix and a star, as Redis documents it.\<close>

definition glob_free :: "string \<Rightarrow> bool" where
  "glob_free p \<longleftrightarrow> list_all (\<lambda>c. c \<notin> {CHR ''*'', CHR ''?'', CHR ''['', CHR 0x5C}) p"

locale redis_keys = redis_link R db up
  for R :: "'w redis" and db :: "'w \<Rightarrow> keyspace" and up :: "'w \<Rightarrow> bool" +
  assumes keys: "glob_free p \<Longrightarrow> finite (dom (kv d)) \<Longrightarrow>
    \<exists>ks. call R (KEYS (p @ ''*'')) d = (RArr (map RBulk ks), d) \<and> set ks = {k. kv d k \<noteq> None \<and> starts_with p k}"
begin

lemma delete_all:
  "up w \<Longrightarrow> \<exists>w'. eiter (\<lambda>k. map_err (\<lambda>_. GoPanic msg) (ebind (conn_Do R (DEL k)) (\<lambda>_. eret ()))) ks w = (Inr (), w') \<and> up w' \<and>
    (\<forall>k. kv (db w') k = (if k \<in> set ks then None else kv (db w) k))"
proof (induction ks arbitrary: w)
  case Nil
  then show ?case by (simp add: eret_def)
next
  case (Cons k ks)
  from Do_up [OF Cons.prems del [where k = k]] obtain n w1 where w1: "conn_Do R (DEL k) w = (Inr (RInt n), w1)" "up w1" "db w1 = upd k None (db w)"
    by (auto simp: is_err_def)
  from Cons.IH [OF w1(2)] obtain w' where w': "eiter (\<lambda>k. map_err (\<lambda>_. GoPanic msg) (ebind (conn_Do R (DEL k)) (\<lambda>_. eret ()))) ks w1 = (Inr (), w')"
    "up w'" "\<forall>k'. kv (db w') k' = (if k' \<in> set ks then None else kv (db w1) k')" by blast
  have "eiter (\<lambda>k. map_err (\<lambda>_. GoPanic msg) (ebind (conn_Do R (DEL k)) (\<lambda>_. eret ()))) (k # ks) w = (Inr (), w')"
    using w1(1) w'(1) by (simp add: ebind_def map_err_def eret_def)
  with w'(2,3) w1(3) show ?case by (auto simp: obs_simps)
qed

lemma cleanKeyspace_up:
  assumes "up w" and "glob_free ns" and "finite (dom (kv (db w)))"
  shows "\<exists>w'. cleanKeyspace R ns w = (Inr (), w') \<and> up w' \<and>
    (\<forall>k. kv (db w') k = (if starts_with ns k then None else kv (db w) k))"
proof -
  obtain ks where ks: "call R (KEYS (ns @ ''*'')) (db w) = (RArr (map RBulk ks), db w)" "set ks = {k. kv (db w) k \<noteq> None \<and> starts_with ns k}"
    using keys [OF assms(2,3)] by blast
  from Do_up [OF assms(1) ks(1)] obtain w1 where
    w1: "conn_Do R (KEYS (ns @ ''*'')) w = (Inr (RArr (map RBulk ks)), w1)" "up w1" "db w1 = db w" by (auto simp: is_err_def)
  from delete_all [OF w1(2)] obtain w' where
    "eiter (\<lambda>k. map_err (\<lambda>_. GoPanic ''could not del'') (ebind (conn_Do R (DEL k)) (\<lambda>_. eret ()))) ks w1 = (Inr (), w')"
    "up w'" "\<forall>k. kv (db w') k = (if k \<in> set ks then None else kv (db w1) k)" by blast
  with w1 ks(2) show ?thesis
    by (auto simp: cleanKeyspace_def ebind_def map_err_def conv_def lift_err_def Strings_arr)
qed

end

interpretation mem_keys: redis_keys mem_redis mem_db mem_up
proof unfold_locales
  fix p :: string and d :: keyspace
  assume "finite (dom (kv d))"
  then have "finite {k. kv d k \<noteq> None \<and> starts_with p k}" by (rule rev_finite_subset) auto
  then show "\<exists>ks. call mem_redis (KEYS (p @ ''*'')) d = (RArr (map RBulk ks), d) \<and> set ks = {k. kv d k \<noteq> None \<and> starts_with p k}"
    by (auto simp: star_match_def)
qed

text \<open>The text of a fake job, and the state of the enqueuing goroutine.\<close>

definition fake_args :: "nat \<Rightarrow> go_args" where
  "fake_args i = Some [(''i'', GInt KInt (int i))]"

definition fake_text :: "(nat \<Rightarrow> string \<times> int \<times> int) \<Rightarrow> nat \<Rightarrow> string" where
  "fake_text reads i = the (serialize (fresh_job ''foobar'' (fst (reads i)) (fst (snd (reads i))) (fake_args i)))"

definition fake_ok :: "('w \<Rightarrow> bool) \<Rightarrow> ('w \<Rightarrow> keyspace) \<Rightarrow> string \<Rightarrow> enqueuer \<times> 'w \<Rightarrow> bool" where
  "fake_ok up db ns = (\<lambda>(e, w). up w \<and> enq_wf e \<and> Namespace e = ns \<and> \<not> MinWaitEnabled e \<and>
     list_type (kv (db w) (redisKeyJobs ns ''foobar'')) \<and> set_type (kv (db w) (redisKeyKnownJobs ns)))"

lemma fake_serialize:
  assumes "in_i64 (fst (snd (reads i)))" and "i < 20"
  shows "serialize (fresh_job ''foobar'' (fst (reads i)) (fst (snd (reads i))) (fake_args i)) = Some (fake_text reads i)"
proof -
  have "job_wf (fresh_job ''foobar'' (fst (reads i)) (fst (snd (reads i))) (fake_args i))"
    using assms by (intro fresh_args_wf) (simp_all add: fake_args_def go_map_wf_def in_i64_def)
  then show ?thesis using serialize_Some by (fastforce simp: fake_text_def)
qed

context redis_link
begin

lemma Enqueue_plain:
  assumes "fake_ok up db ns (e, w)" and "serialize (fresh_job ''foobar'' ident now args) = Some raw"
  shows "\<exists>r e' w'. Enqueue R ident now now' ''foobar'' args (e, w) = (r, (e', w')) \<and> fake_ok up db ns (e', w') \<and>
    lst (db w') (redisKeyJobs ns ''foobar'') = raw # lst (db w) (redisKeyJobs ns ''foobar'') \<and>
    (\<forall>k. k \<noteq> redisKeyJobs ns ''foobar'' \<longrightarrow> k \<noteq> redisKeyKnownJobs ns \<longrightarrow> kv (db w') k = kv (db w) k)"
proof -
  let ?q = "redisKeyJobs ns ''foobar''" and ?k = "redisKeyKnownJobs ns"
  have ok: "up w" "enq_wf e" "Namespace e = ns" "\<not> MinWaitEnabled e" "list_type (kv (db w) ?q)" "set_type (kv (db w) ?k)"
    using assms(1) by (simp_all add: fake_ok_def)
  have ne: "?q \<noteq> ?k" by (rule known_jobs_other)
  have c: "call R (LPUSH ?q raw) (db w) = (RInt (int (length (lst (db w) ?q)) + 1), lpush_key ?q raw (db w))"
    by (rule lpush [OF ok(5)])
  have t: "set_type (kv (lpush_key ?q raw (db w)) (redisKeyKnownJobs (Namespace e)))" using ok(3,6) ne by (auto simp: obs_simps)
  let ?j = "fresh_job ''foobar'' ident now args"
  have run: "Enqueue R ident now now' ''foobar'' args (e, w) =
    ebind (map_err (\<lambda>err. (err, None)) (on_world (redisDoHelper R e (LPUSH ?q raw)))) (\<lambda>_.
    ebind (map_err (\<lambda>err. (err, Some ?j)) (addToKnownJobs R now' ''foobar'')) (\<lambda>_. eret ?j)) (e, w)"
    using Enqueue_run [OF ok(2) refl assms(2) refl] ok(3) by simp
  from enqueue_up [OF c _ t, of ?j now' "''foobar''"] ok(4) returns2D [where up = up and db = db and w = w, OF _ ok(1) refl]
  obtain w' where "Enqueue R ident now now' ''foobar'' args (e, w) = (Inr ?j, (known_enq now' ''foobar'' e, w'))"
    "db w' = known_db e now' ''foobar'' (lpush_key ?q raw (db w))" "up w'"
    unfolding run by fastforce
  moreover from this(2) have "kv (db w') ?q = vlist (raw # lst (db w) ?q)" "set_type (kv (db w') ?k)"
    "\<forall>k. k \<noteq> ?q \<longrightarrow> k \<noteq> ?k \<longrightarrow> kv (db w') k = kv (db w) k"
    using ok(3,6) ne t by (auto simp: known_db_def obs_simps)
  ultimately show ?thesis using ok by (auto simp: fake_ok_def enq_wf_def MinWaitEnabled_def obs_simps)
qed

lemma fake_jobs_up:
  assumes "fake_ok up db ns s" and "\<forall>i<20. in_i64 (fst (snd (reads i)))" and "n \<le> 20"
  shows "\<exists>s'. fold (fake_job R reads) [0..<n] s = s' \<and> fake_ok up db ns s' \<and>
    lst (db (snd s')) (redisKeyJobs ns ''foobar'') = rev (map (fake_text reads) [0..<n]) @ lst (db (snd s)) (redisKeyJobs ns ''foobar'') \<and>
    (\<forall>k. k \<noteq> redisKeyJobs ns ''foobar'' \<longrightarrow> k \<noteq> redisKeyKnownJobs ns \<longrightarrow> kv (db (snd s')) k = kv (db (snd s)) k)"
  using assms(3)
proof (induction n)
  case (Suc n)
  then obtain e w where ew: "fold (fake_job R reads) [0..<n] s = (e, w)" "fake_ok up db ns (e, w)"
    "lst (db w) (redisKeyJobs ns ''foobar'') = rev (map (fake_text reads) [0..<n]) @ lst (db (snd s)) (redisKeyJobs ns ''foobar'')"
    "\<forall>k. k \<noteq> redisKeyJobs ns ''foobar'' \<longrightarrow> k \<noteq> redisKeyKnownJobs ns \<longrightarrow> kv (db w) k = kv (db (snd s)) k"
    by (cases "fold (fake_job R reads) [0..<n] s") auto
  have "serialize (fresh_job ''foobar'' (fst (reads n)) (fst (snd (reads n))) (fake_args n)) = Some (fake_text reads n)"
    using assms(2) Suc.prems by (intro fake_serialize) simp_all
  from Enqueue_plain [OF ew(2) this, of "snd (snd (reads n))"] ew show ?case
    by (auto simp: fake_job_def [of R reads n] fake_args_def logged_def split: prod.split)
qed (use assms(1) in simp)

end

lemma ns_keys:
  "starts_with ns (redisKeyJobs ns n)" "starts_with ns (redisKeyKnownJobs ns)" "starts_with ns (ns @ k)"
  by (simp_all add: starts_with_def redisKeyJobs_def redisKeyJobsPrefix_def redisKeyKnownJobs_def redisNamespacePrefix_def)

lemma fake_key: "redisKeyJobs ns n \<noteq> ns @ '':known_jobs''"
  by (auto simp: redisKeyJobs_def redisKeyJobsPrefix_def redisNamespacePrefix_def)


definition busy_world :: mem_world where
  "busy_world = \<lparr>mem_db = upd ''w2:dead'' (Some (VStr ''x'')) (upd ''v'' (Some (VStr ''y'')) empty_keyspace), mem_faults = []\<rparr>"


end
