(* ===== verification/Lifecycle.thy ===== *)
theory Lifecycle
  imports Work_Prelude
begin

text \<open>
  Starting, stopping and draining a worker (\<open>start\<close>, \<open>stop\<close>, \<open>drain\<close> and the \<open>select\<close> loops of \<open>worker.go\<close>
  and \<open>observer.go\<close>): two goroutines, the callers of \<open>stop\<close> and \<open>drain\<close>, and the unbuffered channels between
  them. A communication is one step that both sides take together; everything else interleaves. What the
  loops do with Redis is in \<open>Worker\<close> and \<open>Observer\<close>; here only their positions count.
\<close>

section \<open>The goroutines\<close>

text \<open>Where the loop of a worker is. \<open>W_idle\<close>: \<open>go w.loop()\<close> has not been scheduled yet.\<close>

datatype w_pc = W_idle | W_select | W_fetch | W_process | W_ack_drain | W_ack_stop | W_gone

text \<open>Where the loop of its observer is.\<close>

datatype o_pc = O_idle | O_select | O_drain | O_ack_drain | O_ack_stop | O_gone

text \<open>The operations on channels of a caller, in program order.\<close>

datatype chan_op =
    Stop_w | Done_stopping_w | Drain_w | Done_draining_w
  | Stop_o | Done_stopping_o | Drain_o | Done_draining_o

definition observer_stop :: "chan_op list" where
  "observer_stop = [Stop_o, Done_stopping_o]"

definition observer_drain :: "chan_op list" where
  "observer_drain = [Drain_o, Done_draining_o]"

definition worker_stop :: "chan_op list" where
  "worker_stop = [Stop_w, Done_stopping_w] @ observer_drain @ observer_stop"

definition worker_drain :: "chan_op list" where
  "worker_drain = [Drain_w, Done_draining_w] @ observer_drain"

text \<open>
  The system: the two loops, the flag \<open>drained\<close>, the number of observations in the buffered channel, what is
  left of the call of \<open>stop\<close>, and what is left of each call of \<open>drain\<close>.
\<close>

record wsys =
  w_at :: w_pc
  w_drained :: bool
  o_at :: o_pc
  o_buf :: nat
  stopper :: "chan_op list"
  drainers :: "chan_op list multiset"

definition observerBufferSize :: nat where
  "observerBufferSize = 1024"

text \<open>After \<open>start\<close>, with one call of \<open>stop\<close> and \<open>n\<close> calls of \<open>drain\<close> to come.\<close>

definition started_worker :: "nat \<Rightarrow> wsys" where
  "started_worker n =
     \<lparr>w_at = W_idle, w_drained = False, o_at = O_idle, o_buf = 0, stopper = worker_stop,
      drainers = replicate_mset n worker_drain\<rparr>"

section \<open>Steps\<close>

text \<open>A communication: the loop that takes part, if it is at the other end of the channel.\<close>

fun sync :: "chan_op \<Rightarrow> wsys \<Rightarrow> wsys option" where
  "sync Stop_w s = (if w_at s = W_select then Some (s\<lparr>w_at := W_ack_stop\<rparr>) else None)"
| "sync Done_stopping_w s = (if w_at s = W_ack_stop then Some (s\<lparr>w_at := W_gone\<rparr>) else None)"
| "sync Drain_w s = (if w_at s = W_select then Some (s\<lparr>w_drained := True\<rparr>) else None)"
| "sync Done_draining_w s =
     (if w_at s = W_ack_drain then Some (s\<lparr>w_at := W_select, w_drained := False\<rparr>) else None)"
| "sync Stop_o s = (if o_at s = O_select then Some (s\<lparr>o_at := O_ack_stop\<rparr>) else None)"
| "sync Done_stopping_o s = (if o_at s = O_ack_stop then Some (s\<lparr>o_at := O_gone\<rparr>) else None)"
| "sync Drain_o s = (if o_at s = O_select then Some (s\<lparr>o_at := O_drain\<rparr>) else None)"
| "sync Done_draining_o s = (if o_at s = O_ack_drain then Some (s\<lparr>o_at := O_select\<rparr>) else None)"

text \<open>The steps of the worker on its own; a job sends observations, which wait while the buffer is full.\<close>

inductive worker_step :: "wsys \<Rightarrow> wsys \<Rightarrow> bool" where
  run: "w_at s = W_idle \<Longrightarrow> worker_step s (s\<lparr>w_at := W_select\<rparr>)"
| timer: "w_at s = W_select \<Longrightarrow> worker_step s (s\<lparr>w_at := W_fetch\<rparr>)"
| fetch_error: "w_at s = W_fetch \<Longrightarrow> worker_step s (s\<lparr>w_at := W_select\<rparr>)"
| fetched: "w_at s = W_fetch \<Longrightarrow> worker_step s (s\<lparr>w_at := W_process\<rparr>)"
| observe: "w_at s = W_process \<Longrightarrow> o_buf s < observerBufferSize \<Longrightarrow> worker_step s (s\<lparr>o_buf := Suc (o_buf s)\<rparr>)"
| processed: "w_at s = W_process \<Longrightarrow> worker_step s (s\<lparr>w_at := W_select\<rparr>)"
| nothing: "w_at s = W_fetch \<Longrightarrow> worker_step s (s\<lparr>w_at := if w_drained s then W_ack_drain else W_select\<rparr>)"

text \<open>The steps of the observer on its own: ticks change no position.\<close>

inductive observer_step :: "wsys \<Rightarrow> wsys \<Rightarrow> bool" where
  orun: "o_at s = O_idle \<Longrightarrow> observer_step s (s\<lparr>o_at := O_select\<rparr>)"
| take: "o_at s \<in> {O_select, O_drain} \<Longrightarrow> o_buf s = Suc n \<Longrightarrow> observer_step s (s\<lparr>o_buf := n\<rparr>)"
| empty: "o_at s = O_drain \<Longrightarrow> o_buf s = 0 \<Longrightarrow> observer_step s (s\<lparr>o_at := O_ack_drain\<rparr>)"

inductive wstep :: "wsys \<Rightarrow> wsys \<Rightarrow> bool" where
  worker: "worker_step s s' \<Longrightarrow> wstep s s'"
| observer: "observer_step s s' \<Longrightarrow> wstep s s'"
| stop_call: "stopper s = x # xs \<Longrightarrow> sync x s = Some s' \<Longrightarrow> wstep s (s'\<lparr>stopper := xs\<rparr>)"
| drain_call: "(x # xs) \<in># drainers s \<Longrightarrow> sync x s = Some s' \<Longrightarrow>
    wstep s (s'\<lparr>drainers := add_mset xs (drainers s - {#x # xs#})\<rparr>)"

inductive_cases wstepE: "wstep s s'"
inductive_cases worker_stepE: "worker_step s s'"
inductive_cases observer_stepE: "observer_step s s'"

abbreviation wreach :: "wsys \<Rightarrow> wsys \<Rightarrow> bool" where
  "wreach \<equiv> wstep\<^sup>*\<^sup>*"

lemmas calls_simps = worker_stop_def worker_drain_def observer_stop_def observer_drain_def

section \<open>The invariant\<close>

text \<open>What each position of the caller of \<open>stop\<close> says about the loops.\<close>

definition o_running :: "o_pc \<Rightarrow> bool" where
  "o_running p \<longleftrightarrow> p \<noteq> O_ack_stop \<and> p \<noteq> O_gone"

definition stop_phase :: "wsys \<Rightarrow> bool" where
  "stop_phase s \<longleftrightarrow>
     stopper s = worker_stop \<and> w_at s \<notin> {W_ack_stop, W_gone} \<and> o_running (o_at s) \<or>
     stopper s = drop 1 worker_stop \<and> w_at s = W_ack_stop \<and> o_running (o_at s) \<or>
     stopper s = drop 2 worker_stop \<and> w_at s = W_gone \<and> o_running (o_at s) \<or>
     stopper s = drop 3 worker_stop \<and> w_at s = W_gone \<and> (o_at s = O_drain \<or> o_at s = O_ack_drain \<and> o_buf s = 0) \<or>
     stopper s = drop 4 worker_stop \<and> w_at s = W_gone \<and> o_running (o_at s) \<and> o_buf s = 0 \<or>
     stopper s = drop 5 worker_stop \<and> w_at s = W_gone \<and> o_at s = O_ack_stop \<and> o_buf s = 0 \<or>
     stopper s = [] \<and> w_at s = W_gone \<and> o_at s = O_gone \<and> o_buf s = 0"

text \<open>The drain of an observer belongs to exactly one caller.\<close>

definition one_drainer :: "wsys \<Rightarrow> bool" where
  "one_drainer s \<longleftrightarrow>
     count (drainers s) [Done_draining_o] + (if stopper s = drop 3 worker_stop then 1 else 0) =
       (if o_at s \<in> {O_drain, O_ack_drain} then 1 else 0)"

text \<open>Somebody waits for the acknowledgement that a drained worker sends.\<close>

definition drain_awaited :: "wsys \<Rightarrow> bool" where
  "drain_awaited s \<longleftrightarrow> (w_at s = W_ack_drain \<longrightarrow> w_drained s) \<and> (w_drained s \<longrightarrow> drop 1 worker_drain \<in># drainers s)"

definition drain_calls :: "wsys \<Rightarrow> bool" where
  "drain_calls s \<longleftrightarrow> set_mset (drainers s) \<subseteq> {worker_drain, drop 1 worker_drain, drop 2 worker_drain, drop 3 worker_drain, []}"

definition winv :: "wsys \<Rightarrow> bool" where
  "winv s \<longleftrightarrow> stop_phase s \<and> one_drainer s \<and> drain_awaited s \<and> drain_calls s"

lemmas winv_defs = winv_def stop_phase_def one_drainer_def drain_awaited_def drain_calls_def o_running_def

text \<open>The lists of operations, written out.\<close>

lemma stop_lists:
  "worker_stop = [Stop_w, Done_stopping_w, Drain_o, Done_draining_o, Stop_o, Done_stopping_o]"
  "drop 1 worker_stop = [Done_stopping_w, Drain_o, Done_draining_o, Stop_o, Done_stopping_o]"
  "drop 2 worker_stop = [Drain_o, Done_draining_o, Stop_o, Done_stopping_o]"
  "drop 3 worker_stop = [Done_draining_o, Stop_o, Done_stopping_o]"
  "drop 4 worker_stop = [Stop_o, Done_stopping_o]" "drop 5 worker_stop = [Done_stopping_o]"
  by (simp_all add: calls_simps eval_nat_numeral)

lemma drain_lists:
  "worker_drain = [Drain_w, Done_draining_w, Drain_o, Done_draining_o]"
  "drop 1 worker_drain = [Done_draining_w, Drain_o, Done_draining_o]"
  "drop 2 worker_drain = [Drain_o, Done_draining_o]" "drop 3 worker_drain = [Done_draining_o]"
  by (simp_all add: calls_simps eval_nat_numeral)

lemmas call_lists = stop_lists drain_lists

lemma winv_started: "winv (started_worker n)"
  by (auto simp: winv_defs started_worker_def call_lists)

lemma winv_worker: "worker_step s s' \<Longrightarrow> winv s \<Longrightarrow> winv s'"
  by (erule worker_stepE) (auto simp: winv_defs call_lists)

lemma winv_observer: "observer_step s s' \<Longrightarrow> winv s \<Longrightarrow> winv s'"
  by (erule observer_stepE) (auto simp: winv_defs call_lists)

lemma winv_parts: "winv s \<longleftrightarrow> stop_phase s \<and> one_drainer s \<and> drain_awaited s \<and> drain_calls s"
  by (rule winv_def)

text \<open>The call of \<open>stop\<close>.\<close>

lemma stop_call_phase:
  assumes "stopper s = x # xs" and "sync x s = Some s'" and "stop_phase s"
  shows "stop_phase (s'\<lparr>stopper := xs\<rparr>)"
  using assms by (cases x; simp add: stop_phase_def o_running_def call_lists split: if_splits; force)

lemma stop_call_drainer:
  assumes "stopper s = x # xs" and "sync x s = Some s'" and "stop_phase s" and "one_drainer s"
  shows "one_drainer (s'\<lparr>stopper := xs\<rparr>)"
proof -
  have "x # xs \<in> {worker_stop, drop 1 worker_stop, drop 2 worker_stop, drop 3 worker_stop, drop 4 worker_stop, drop 5 worker_stop}"
    using assms(1,3) by (auto simp: stop_phase_def)
  then show ?thesis
    using assms(1,2,4) by (elim insertE) (auto simp: one_drainer_def call_lists split: if_splits)
qed

lemma winv_stop_call:
  assumes "stopper s = x # xs" and "sync x s = Some s'" and "winv s"
  shows "winv (s'\<lparr>stopper := xs\<rparr>)"
proof -
  have "x \<noteq> Drain_w" "x \<noteq> Done_draining_w" using assms(1,3) by (auto simp: winv_parts stop_phase_def call_lists)
  then have "drain_awaited (s'\<lparr>stopper := xs\<rparr>)" "drain_calls (s'\<lparr>stopper := xs\<rparr>)"
    using assms(2,3) by (cases x; simp add: winv_parts drain_awaited_def drain_calls_def split: if_splits; force)+
  with assms stop_call_phase stop_call_drainer show ?thesis by (simp add: winv_parts)
qed

text \<open>The calls of \<open>drain\<close>.\<close>

lemma drain_call_phase:
  assumes "drainers s = add_mset (x # xs) d" and "sync x s = Some s'" and "winv s"
    and "(x # xs) \<in> {worker_drain, drop 1 worker_drain, drop 2 worker_drain, drop 3 worker_drain}"
  shows "stop_phase (s'\<lparr>drainers := d'\<rparr>)"
proof -
  have "stopper s \<noteq> drop 3 worker_stop" if "x # xs = drop 3 worker_drain"
    using assms(1,3) that by (auto simp: winv_parts one_drainer_def drain_lists split: if_splits)
  then show ?thesis
    using assms(2-4) by (elim insertE; simp add: winv_parts stop_phase_def o_running_def call_lists split: if_splits; force)
qed

lemma winv_drain_call:
  assumes "(x # xs) \<in># drainers s" and "sync x s = Some s'" and "winv s"
  shows "winv (s'\<lparr>drainers := add_mset xs (drainers s - {#x # xs#})\<rparr>)"
proof -
  obtain d where d: "drainers s = add_mset (x # xs) d" using assms(1) by (metis insert_DiffM)
  then have x: "(x # xs) \<in> {worker_drain, drop 1 worker_drain, drop 2 worker_drain, drop 3 worker_drain}"
    using assms(3) by (auto simp: winv_def drain_calls_def)
  let ?s = "s'\<lparr>drainers := add_mset xs d\<rparr>"
  have "one_drainer ?s" using x assms(2,3) d by (elim insertE) (auto simp: winv_parts one_drainer_def call_lists split: if_splits)
  moreover have "drain_awaited ?s" using x assms(2,3) d by (elim insertE) (auto simp: winv_parts drain_awaited_def call_lists split: if_splits)
  moreover have "drain_calls ?s" using x assms(2,3) d by (elim insertE) (auto simp: winv_parts drain_calls_def call_lists split: if_splits)
  ultimately show ?thesis using drain_call_phase [OF d assms(2,3) x] d by (simp add: winv_parts)
qed

lemma winv_step: "wstep s s' \<Longrightarrow> winv s \<Longrightarrow> winv s'"
  by (erule wstepE) (blast intro: winv_worker winv_observer winv_stop_call winv_drain_call)+

lemma winv_reach: "wreach s s' \<Longrightarrow> winv s \<Longrightarrow> winv s'"
  by (induction rule: rtranclp_induct) (auto intro: winv_step)

section \<open>A call of \<open>stop\<close> can always return\<close>

lemma wreach_step: "wstep s s' \<Longrightarrow> P s' \<Longrightarrow> \<exists>s'. wreach s s' \<and> P s'"
  by blast

text \<open>The ways to get a loop back to its \<open>select\<close>.\<close>

lemma worker_to_select:
  assumes "winv s" and "w_at s \<notin> {W_ack_stop, W_gone}"
  shows "\<exists>s'. wreach s s' \<and> w_at s' = W_select \<and> stopper s' = stopper s"
proof (cases "w_at s = W_ack_drain")
  case True
  with assms(1) have "drop 1 worker_drain \<in># drainers s" by (simp add: winv_def drain_awaited_def)
  then have "wstep s (s\<lparr>w_at := W_select, w_drained := False,
      drainers := add_mset (drop 2 worker_drain) (drainers s - {#drop 1 worker_drain#})\<rparr>)"
    using drain_call [of Done_draining_w "drop 2 worker_drain" s] True by (simp add: drain_lists)
  then show ?thesis by (rule wreach_step) simp
next
  case False
  have "w_at s = W_select \<or> worker_step s (s\<lparr>w_at := W_select\<rparr>)"
    using assms(2) False by (cases "w_at s") (auto intro: worker_step.intros)
  then show ?thesis
  proof
    assume "worker_step s (s\<lparr>w_at := W_select\<rparr>)"
    then have "wstep s (s\<lparr>w_at := W_select\<rparr>)" by (rule wstep.worker)
    then show ?thesis by (rule wreach_step) simp
  qed blast
qed

lemma observer_empties:
  assumes "o_at s = O_drain"
  shows "\<exists>s'. wreach s s' \<and> o_at s' = O_ack_drain \<and> stopper s' = stopper s \<and> w_at s' = w_at s \<and> drainers s' = drainers s"
  using assms
proof (induction "o_buf s" arbitrary: s)
  case 0
  then have "wstep s (s\<lparr>o_at := O_ack_drain\<rparr>)" by (intro wstep.observer observer_step.empty) simp_all
  then show ?case by (rule wreach_step) simp
next
  case (Suc n)
  then have step: "wstep s (s\<lparr>o_buf := n\<rparr>)" by (intro wstep.observer observer_step.take) simp_all
  from Suc.hyps(1) [of "s\<lparr>o_buf := n\<rparr>"] Suc.prems obtain s' where
    "wreach (s\<lparr>o_buf := n\<rparr>) s'" "o_at s' = O_ack_drain" "stopper s' = stopper s" "w_at s' = w_at s" "drainers s' = drainers s"
    by auto
  with step show ?case by (blast intro: converse_rtranclp_into_rtranclp)
qed

text \<open>A drain that another caller asked for ends in \<open>select\<close>.\<close>

lemma observer_acks:
  assumes "winv s" and "o_at s = O_ack_drain" and "stopper s \<noteq> drop 3 worker_stop"
  shows "\<exists>s'. wreach s s' \<and> o_at s' = O_select \<and> stopper s' = stopper s"
proof -
  have "0 < count (drainers s) [Done_draining_o]" using assms by (simp add: winv_def one_drainer_def)
  then have "wstep s (s\<lparr>o_at := O_select, drainers := add_mset [] (drainers s - {#[Done_draining_o]#})\<rparr>)"
    using drain_call [of Done_draining_o "[]" s] assms(2) by (simp flip: count_greater_zero_iff)
  then show ?thesis by (rule wreach_step) simp
qed

lemma observer_to_select:
  assumes "winv s" and "o_running (o_at s)" and "stopper s \<noteq> drop 3 worker_stop"
  shows "\<exists>s'. wreach s s' \<and> o_at s' = O_select \<and> stopper s' = stopper s"
proof (cases "o_at s")
  case O_idle
  then have "wstep s (s\<lparr>o_at := O_select\<rparr>)" by (intro wstep.observer observer_step.orun)
  then show ?thesis by (rule wreach_step) simp
next
  case O_drain
  then obtain s1 where s1: "wreach s s1" "o_at s1 = O_ack_drain" "stopper s1 = stopper s" using observer_empties by blast
  then obtain s' where "wreach s1 s'" "o_at s' = O_select" "stopper s' = stopper s1"
    using observer_acks [OF winv_reach [OF s1(1) assms(1)] s1(2)] assms(3) by auto
  with s1(3) rtranclp_trans [OF s1(1)] show ?thesis by auto
next
  case O_ack_drain
  with assms show ?thesis by (intro observer_acks)
qed (use assms(2) in \<open>auto simp: o_running_def\<close>)

text \<open>Every operation of the caller can be completed.\<close>

lemma stopper_advances:
  assumes "winv s" and "stopper s = x # xs"
  shows "\<exists>s'. wreach s s' \<and> stopper s' = xs"
proof -
  have finish: ?thesis if "wreach s s1" "stopper s1 = stopper s" "sync x s1 \<noteq> None" for s1
  proof -
    from that(3) obtain s2 where "sync x s1 = Some s2" by blast
    with that(2) assms(2) have "wstep s1 (s2\<lparr>stopper := xs\<rparr>)" by (intro wstep.stop_call) simp_all
    with that(1) have "wreach s (s2\<lparr>stopper := xs\<rparr>)" by (rule rtranclp.rtrancl_into_rtrancl)
    then show ?thesis by (intro exI [of _ "s2\<lparr>stopper := xs\<rparr>"]) simp
  qed
  have phase: "stop_phase s" using assms(1) by (simp add: winv_def)
  show ?thesis
  proof (cases x)
    case Stop_w
    with assms(2) phase obtain s1 where "wreach s s1" "w_at s1 = W_select" "stopper s1 = stopper s"
      using worker_to_select [OF assms(1)] by (auto simp: stop_phase_def call_lists)
    with Stop_w show ?thesis by (intro finish [of s1]) simp_all
  next
    case Drain_o
    with assms(2) phase obtain s1 where "wreach s s1" "o_at s1 = O_select" "stopper s1 = stopper s"
      using observer_to_select [OF assms(1)] by (auto simp: stop_phase_def call_lists)
    with Drain_o show ?thesis by (intro finish [of s1]) simp_all
  next
    case Stop_o
    with assms(2) phase obtain s1 where "wreach s s1" "o_at s1 = O_select" "stopper s1 = stopper s"
      using observer_to_select [OF assms(1)] by (auto simp: stop_phase_def call_lists)
    with Stop_o show ?thesis by (intro finish [of s1]) simp_all
  next
    case Done_draining_o
    with assms(2) phase have "o_at s = O_drain \<or> o_at s = O_ack_drain" by (auto simp: stop_phase_def call_lists)
    then obtain s1 where "wreach s s1" "o_at s1 = O_ack_drain" "stopper s1 = stopper s" using observer_empties by blast
    with Done_draining_o show ?thesis by (intro finish [of s1]) simp_all
  next
    case Done_stopping_w
    with assms(2) phase have "sync x s \<noteq> None" by (auto simp: stop_phase_def call_lists)
    then show ?thesis by (intro finish [of s]) simp_all
  next
    case Done_stopping_o
    with assms(2) phase have "sync x s \<noteq> None" by (auto simp: stop_phase_def call_lists)
    then show ?thesis by (intro finish [of s]) simp_all
  qed (use assms(2) phase in \<open>auto simp: stop_phase_def call_lists\<close>)
qed

lemma stopper_returns: "winv s \<Longrightarrow> \<exists>s'. wreach s s' \<and> stopper s' = []"
proof (induction "length (stopper s)" arbitrary: s)
  case (Suc n)
  then obtain x xs where x: "stopper s = x # xs" by (cases "stopper s") auto
  from stopper_advances [OF Suc.prems x] obtain s1 where s1: "wreach s s1" "stopper s1 = xs" by blast
  have "n = length (stopper s1)" using Suc.hyps(2) x s1(2) by simp
  from Suc.hyps(1) [OF this winv_reach [OF s1(1) Suc.prems]] obtain s' where "wreach s1 s'" "stopper s' = []" by blast
  with rtranclp_trans [OF s1(1)] show ?case by blast
qed auto

text \<open>C9: however the goroutines of a worker and any number of calls of \<open>drain\<close> interleave with a call of
  \<open>stop\<close>: when \<open>stop\<close> has returned, the worker and its observer have left their loops and no observation is
  left in the buffer; and no interleaving leads to a state from which \<open>stop\<close> cannot return.\<close>

theorem stop_completes:
  assumes "wreach (started_worker n) s"
  shows "(stopper s = [] \<longrightarrow> w_at s = W_gone \<and> o_at s = O_gone \<and> o_buf s = 0) \<and>
    (\<exists>s'. wreach s s' \<and> stopper s' = [])"
proof -
  have inv: "winv s" using winv_reach [OF assms winv_started] .
  then have "stop_phase s" by (simp add: winv_def)
  then have "stopper s = [] \<longrightarrow> w_at s = W_gone \<and> o_at s = O_gone \<and> o_buf s = 0"
    by (auto simp: stop_phase_def call_lists)
  with stopper_returns [OF inv] show ?thesis by simp
qed

theorem stop_completes_witness:
  "\<exists>s. wreach (started_worker 3) s \<and> stopper s = [] \<and> w_at s = W_gone \<and> o_at s = O_gone \<and> o_buf s = 0"
proof -
  from stop_completes [of 3 "started_worker 3"] obtain s where s: "wreach (started_worker 3) s" "stopper s = []" by blast
  with stop_completes [OF s(1)] show ?thesis by blast
qed

section \<open>A call of \<open>drain\<close> may never return\<close>

text \<open>
  A caller that waits for the worker's acknowledgement in vain: the loop is gone, or nothing will set
  the flag again.
\<close>

definition stranded :: "wsys \<Rightarrow> bool" where
  "stranded s \<longleftrightarrow> drop 1 worker_drain \<in># drainers s \<and> drain_calls s \<and>
     (w_at s = W_gone \<or> \<not> w_drained s \<and> w_at s \<noteq> W_ack_drain \<and> worker_drain \<notin># drainers s)"

lemma stranded_worker: "worker_step s s' \<Longrightarrow> stranded s \<Longrightarrow> stranded s'"
  by (erule worker_stepE) (auto simp: stranded_def drain_calls_def)

lemma stranded_observer: "observer_step s s' \<Longrightarrow> stranded s \<Longrightarrow> stranded s'"
  by (erule observer_stepE) (auto simp: stranded_def drain_calls_def)

lemma stranded_stop_call:
  assumes "stopper s = x # xs" and "sync x s = Some s'" and "x \<noteq> Drain_w" and "stranded s"
  shows "stranded (s'\<lparr>stopper := xs\<rparr>)"
  using assms by (cases x) (auto simp: stranded_def drain_calls_def split: if_splits)

lemma stranded_drain_call:
  assumes "(x # xs) \<in># drainers s" and "sync x s = Some s'" and "stranded s"
  shows "stranded (s'\<lparr>drainers := add_mset xs (drainers s - {#x # xs#})\<rparr>)"
proof -
  obtain d where d: "drainers s = add_mset (x # xs) d" using assms(1) by (metis insert_DiffM)
  then have "(x # xs) \<in> {worker_drain, drop 1 worker_drain, drop 2 worker_drain, drop 3 worker_drain}"
    using assms(3) by (auto simp: stranded_def drain_calls_def)
  then show ?thesis
    using assms(2,3) d by (elim insertE) (auto simp: stranded_def drain_calls_def call_lists split: if_splits)
qed

lemma stranded_reach: "wreach s s' \<Longrightarrow> winv s \<Longrightarrow> stranded s \<Longrightarrow> stranded s'"
proof (induction rule: rtranclp_induct)
  case (step s1 s2)
  have s1: "stranded s1" "winv s1" using step.IH [OF step.prems] winv_reach [OF step.hyps(1) step.prems(1)] by simp_all
  have "x \<noteq> Drain_w" if "stopper s1 = x # xs" for x xs
    using s1(2) that by (auto simp: winv_def stop_phase_def call_lists)
  with step.hyps(2) s1(1) show ?case
    by (elim wstepE) (simp_all add: stranded_worker stranded_observer stranded_stop_call stranded_drain_call)
qed simp

definition drain_hangs :: "wsys \<Rightarrow> bool" where
  "drain_hangs s \<longleftrightarrow> (\<forall>s'. wreach s s' \<longrightarrow> drop 1 worker_drain \<in># drainers s')"

lemma stranded_hangs: "winv s \<Longrightarrow> stranded s \<Longrightarrow> drain_hangs s"
  unfolding drain_hangs_def using stranded_reach by (metis stranded_def)

text \<open>The runs that strand a caller: \<open>stop\<close> overtakes a \<open>drain\<close>, and two calls of \<open>drain\<close> share one flag.\<close>

definition stop_overtakes :: wsys where
  "stop_overtakes =
     \<lparr>w_at = W_gone, w_drained = True, o_at = O_gone, o_buf = 0, stopper = [], drainers = {#drop 1 worker_drain#}\<rparr>"

definition flag_shared :: wsys where
  "flag_shared =
     \<lparr>w_at = W_select, w_drained = False, o_at = O_idle, o_buf = 0, stopper = worker_stop,
      drainers = {#drop 2 worker_drain, drop 1 worker_drain#}\<rparr>"

lemma reach_drain_sent:
  "wreach (started_worker (Suc n)) ((started_worker (Suc n))\<lparr>w_at := W_select, w_drained := True,
     drainers := add_mset (drop 1 worker_drain) (replicate_mset n worker_drain)\<rparr>)"
proof -
  let ?a = "started_worker (Suc n)"
  have "wstep ?a (?a\<lparr>w_at := W_select\<rparr>)" by (intro wstep.worker worker_step.run) (simp add: started_worker_def)
  moreover have "wstep (?a\<lparr>w_at := W_select\<rparr>) (?a\<lparr>w_at := W_select, w_drained := True,
      drainers := add_mset (drop 1 worker_drain) (replicate_mset n worker_drain)\<rparr>)"
    using drain_call [of Drain_w "drop 1 worker_drain" "?a\<lparr>w_at := W_select\<rparr>"] by (simp add: started_worker_def drain_lists)
  ultimately show ?thesis by (meson rtranclp.rtrancl_into_rtrancl rtranclp.rtrancl_refl)
qed

lemma reach_stop_overtakes: "wreach (started_worker 1) stop_overtakes"
proof -
  let ?S = "\<lambda>w ob st. \<lparr>w_at = w, w_drained = True, o_at = ob, o_buf = 0, stopper = st, drainers = {#drop 1 worker_drain#}\<rparr>"
  have call: "wreach (started_worker 1) ((the (sync x s))\<lparr>stopper := xs\<rparr>)"
    if "wreach (started_worker 1) s" "stopper s = x # xs" "sync x s \<noteq> None" for s x xs
    using that(1) wstep.stop_call [of s x xs "the (sync x s)"] that(2,3) by (auto intro: rtranclp.rtrancl_into_rtrancl)
  have "wreach (started_worker 1) (?S W_select O_idle worker_stop)"
    using reach_drain_sent [of 0] by (simp add: started_worker_def)
  from call [OF this, of Stop_w "drop 1 worker_stop"] have "wreach (started_worker 1) (?S W_ack_stop O_idle (drop 1 worker_stop))" by (simp add: stop_lists)
  from call [OF this, of Done_stopping_w "drop 2 worker_stop"] have "wreach (started_worker 1) (?S W_gone O_idle (drop 2 worker_stop))" by (simp add: stop_lists)
  moreover have "wstep (?S W_gone O_idle (drop 2 worker_stop)) (?S W_gone O_select (drop 2 worker_stop))"
    using observer_step.orun [of "?S W_gone O_idle (drop 2 worker_stop)"] by (auto intro: wstep.observer)
  ultimately have "wreach (started_worker 1) (?S W_gone O_select (drop 2 worker_stop))" by (rule rtranclp.rtrancl_into_rtrancl)
  from call [OF this, of Drain_o "drop 3 worker_stop"] have "wreach (started_worker 1) (?S W_gone O_drain (drop 3 worker_stop))" by (simp add: stop_lists)
  moreover have "wstep (?S W_gone O_drain (drop 3 worker_stop)) (?S W_gone O_ack_drain (drop 3 worker_stop))"
    using observer_step.empty [of "?S W_gone O_drain (drop 3 worker_stop)"] by (auto intro: wstep.observer)
  ultimately have "wreach (started_worker 1) (?S W_gone O_ack_drain (drop 3 worker_stop))" by (rule rtranclp.rtrancl_into_rtrancl)
  from call [OF this, of Done_draining_o "drop 4 worker_stop"] have "wreach (started_worker 1) (?S W_gone O_select (drop 4 worker_stop))" by (simp add: stop_lists)
  from call [OF this, of Stop_o "drop 5 worker_stop"] have "wreach (started_worker 1) (?S W_gone O_ack_stop (drop 5 worker_stop))" by (simp add: stop_lists)
  from call [OF this, of Done_stopping_o "[]"] show ?thesis by (simp add: stop_lists stop_overtakes_def)
qed

lemma reach_flag_shared: "wreach (started_worker 2) flag_shared"
proof -
  let ?S = "\<lambda>w dr ds. \<lparr>w_at = w, w_drained = dr, o_at = O_idle, o_buf = 0, stopper = worker_stop, drainers = ds\<rparr>"
  let ?two = "{#drop 1 worker_drain, drop 1 worker_drain#}"
  have "wreach (started_worker 2) (?S W_select True {#drop 1 worker_drain, worker_drain#})"
    using reach_drain_sent [of 1] by (simp add: started_worker_def numeral_2_eq_2)
  moreover have "wstep (?S W_select True {#drop 1 worker_drain, worker_drain#}) (?S W_select True ?two)"
    using drain_call [of Drain_w "drop 1 worker_drain" "?S W_select True {#drop 1 worker_drain, worker_drain#}"]
    by (simp add: drain_lists add_mset_commute)
  moreover have "wstep (?S W_select True ?two) (?S W_fetch True ?two)"
    using worker_step.timer [of "?S W_select True ?two"] by (auto intro: wstep.worker)
  moreover have "wstep (?S W_fetch True ?two) (?S W_ack_drain True ?two)"
    using worker_step.nothing [of "?S W_fetch True ?two"] by (auto intro: wstep.worker)
  moreover have "wstep (?S W_ack_drain True ?two) flag_shared"
    using drain_call [of Done_draining_w "drop 2 worker_drain" "?S W_ack_drain True ?two"]
    by (simp add: drain_lists flag_shared_def)
  ultimately show ?thesis by (meson rtranclp.rtrancl_into_rtrancl)
qed

text \<open>C14: a call of \<open>drain\<close> can be stranded for good. If \<open>stop\<close> overtakes it, and also if two calls of \<open>drain\<close>
  overlap, the program gets to a state from which, whatever happens, a caller waits for the worker's
  acknowledgement.\<close>

theorem drain_may_never_return:
  "(\<exists>s. wreach (started_worker 1) s \<and> stopper s = [] \<and> drain_hangs s) \<and>
   (\<exists>s. wreach (started_worker 2) s \<and> stopper s = worker_stop \<and> drain_hangs s)"
proof -
  have "stranded stop_overtakes" "stranded flag_shared"
    by (auto simp: stranded_def drain_calls_def stop_overtakes_def flag_shared_def call_lists)
  moreover have "winv stop_overtakes" "winv flag_shared"
    using winv_reach [OF reach_stop_overtakes winv_started] winv_reach [OF reach_flag_shared winv_started] .
  ultimately have "drain_hangs stop_overtakes" "drain_hangs flag_shared" by (auto intro: stranded_hangs)
  with reach_stop_overtakes reach_flag_shared show ?thesis
    by (intro conjI exI [of _ stop_overtakes] exI [of _ flag_shared]) (simp_all add: stop_overtakes_def flag_shared_def)
qed

end
