(* ===== verification/Pool_Stop.thy ===== *)
theory Pool_Stop
  imports Lifecycle
begin

text \<open>
  Stopping a pool (\<open>WorkerPool.Stop\<close> of \<open>worker_pool.go\<close>): the goroutines of all its workers, as in \<open>Lifecycle\<close>,
  and those of the heartbeater, the two requeuers, the reaper and the periodic enqueuer, with the call that
  waits for the workers, gives their jobs back and then stops the other loops in turn. What the calls between
  the handshakes do with Redis is in \<open>Worker_Pool\<close>; here the order counts.
\<close>

section \<open>The loops beside the workers\<close>

datatype service = Beat | Retrier | Scheduler | Reaper | Periodic

text \<open>
  Where such a loop is. \<open>L_idle\<close>: its goroutine has not been scheduled yet; \<open>L_leave\<close>: the stop is received and
  something is left to do before it is acknowledged.
\<close>

datatype l_pc = L_idle | L_select | L_work | L_leave | L_ack_stop | L_gone

text \<open>
  The steps each loop can take on its own. The heartbeater and the periodic enqueuer work before their first
  \<open>select\<close>; a requeuer works until \<open>process\<close> returns false. The program sends nothing on the \<open>drainChan\<close> of a requeuer.
  That \<open>L_work\<close> can be left presumes that the work ends, which it does not for a periodic job whose
  specification no time satisfies (\<open>Periodic_Enqueuer\<close>).
\<close>

fun heartbeater_next :: "l_pc \<Rightarrow> l_pc list" where
  "heartbeater_next L_idle = [L_work]"
| "heartbeater_next L_work = [L_select]"
| "heartbeater_next L_select = [L_work]"
| "heartbeater_next L_leave = [L_ack_stop]"
| "heartbeater_next _ = []"

fun requeuer_next :: "l_pc \<Rightarrow> l_pc list" where
  "requeuer_next L_idle = [L_select]"
| "requeuer_next L_select = [L_work]"
| "requeuer_next L_work = [L_work, L_select]"
| "requeuer_next _ = []"

fun deadPoolReaper_next :: "l_pc \<Rightarrow> l_pc list" where
  "deadPoolReaper_next L_idle = [L_select]"
| "deadPoolReaper_next L_select = [L_work]"
| "deadPoolReaper_next L_work = [L_select]"
| "deadPoolReaper_next _ = []"

fun periodicEnqueuer_next :: "l_pc \<Rightarrow> l_pc list" where
  "periodicEnqueuer_next L_idle = [L_work]"
| "periodicEnqueuer_next L_work = [L_select]"
| "periodicEnqueuer_next L_select = [L_work]"
| "periodicEnqueuer_next _ = []"

fun service_next :: "service \<Rightarrow> l_pc \<Rightarrow> l_pc list" where
  "service_next Beat = heartbeater_next"
| "service_next Retrier = requeuer_next"
| "service_next Scheduler = requeuer_next"
| "service_next Reaper = deadPoolReaper_next"
| "service_next Periodic = periodicEnqueuer_next"

text \<open>Where a loop goes when it receives the stop: the heartbeater first removes its heartbeat.\<close>

fun after_stop :: "service \<Rightarrow> l_pc" where
  "after_stop Beat = L_leave"
| "after_stop _ = L_ack_stop"

section \<open>The call of \<open>Stop\<close>\<close>

datatype pool_op = Workers_stopped | Requeue_in_progress | Clean_lock_info | Send_stop service | Recv_done service

definition heartbeater_stop :: "pool_op list" where
  "heartbeater_stop = [Send_stop Beat, Recv_done Beat]"

definition requeuer_stop :: "service \<Rightarrow> pool_op list" where
  "requeuer_stop r = [Send_stop r, Recv_done r]"

definition deadPoolReaper_stop :: "pool_op list" where
  "deadPoolReaper_stop = [Send_stop Reaper, Recv_done Reaper]"

definition periodicEnqueuer_stop :: "pool_op list" where
  "periodicEnqueuer_stop = [Send_stop Periodic, Recv_done Periodic]"

text \<open>The stops of the workers run on their own; \<open>Workers_stopped\<close> is the wait for all of them.\<close>

definition pool_stop_calls :: "pool_op list" where
  "pool_stop_calls = [Workers_stopped, Requeue_in_progress, Clean_lock_info] @
     heartbeater_stop @ requeuer_stop Retrier @ requeuer_stop Scheduler @ deadPoolReaper_stop @ periodicEnqueuer_stop"

record psys =
  pool_workers :: "wsys list"
  loop_at :: "service \<Rightarrow> l_pc"
  calls_left :: "pool_op list"

text \<open>A pool after \<open>Start\<close>, with a call of \<open>Stop\<close> to come and, for each worker, a number of calls of \<open>drain\<close>.\<close>

definition started_pool :: "nat list \<Rightarrow> psys" where
  "started_pool ns =
     \<lparr>pool_workers = map started_worker ns, loop_at = (\<lambda>_. L_idle), calls_left = pool_stop_calls\<rparr>"

fun pool_sync :: "pool_op \<Rightarrow> psys \<Rightarrow> psys option" where
  "pool_sync Workers_stopped s = (if list_all (\<lambda>w. stopper w = []) (pool_workers s) then Some s else None)"
| "pool_sync Requeue_in_progress s = Some s"
| "pool_sync Clean_lock_info s = Some s"
| "pool_sync (Send_stop v) s =
     (if loop_at s v = L_select then Some (s\<lparr>loop_at := (loop_at s)(v := after_stop v)\<rparr>) else None)"
| "pool_sync (Recv_done v) s =
     (if loop_at s v = L_ack_stop then Some (s\<lparr>loop_at := (loop_at s)(v := L_gone)\<rparr>) else None)"

inductive pstep :: "psys \<Rightarrow> psys \<Rightarrow> bool" where
  pool_worker: "i < length (pool_workers s) \<Longrightarrow> wstep (pool_workers s ! i) w \<Longrightarrow>
    pstep s (s\<lparr>pool_workers := (pool_workers s)[i := w]\<rparr>)"
| service: "p \<in> set (service_next v (loop_at s v)) \<Longrightarrow> pstep s (s\<lparr>loop_at := (loop_at s)(v := p)\<rparr>)"
| pool_call: "calls_left s = x # xs \<Longrightarrow> pool_sync x s = Some s' \<Longrightarrow> pstep s (s'\<lparr>calls_left := xs\<rparr>)"

inductive_cases pstepE: "pstep s s'"

abbreviation preach :: "psys \<Rightarrow> psys \<Rightarrow> bool" where
  "preach \<equiv> pstep\<^sup>*\<^sup>*"

section \<open>The invariant\<close>

definition l_running :: "l_pc \<Rightarrow> bool" where
  "l_running p \<longleftrightarrow> p \<in> {L_idle, L_select, L_work}"

text \<open>Where a loop is, by what is left of the call.\<close>

definition service_phase :: "pool_op list \<Rightarrow> service \<Rightarrow> l_pc \<Rightarrow> bool" where
  "service_phase ops v p \<longleftrightarrow>
     (if Send_stop v \<in> set ops then l_running p
      else if Recv_done v \<in> set ops then p = after_stop v \<or> p = L_ack_stop
      else p = L_gone)"

definition pinv :: "psys \<Rightarrow> bool" where
  "pinv s \<longleftrightarrow> (\<exists>pre. pool_stop_calls = pre @ calls_left s) \<and>
     (\<forall>w\<in>set (pool_workers s). winv w \<and> (Workers_stopped \<notin> set (calls_left s) \<longrightarrow> stopper w = [])) \<and>
     (\<forall>v. service_phase (calls_left s) v (loop_at s v))"

text \<open>Each loop is stopped once, and the stop is sent before its end is awaited.\<close>

fun calls_ok :: "pool_op list \<Rightarrow> bool" where
  "calls_ok [] = True"
| "calls_ok (Send_stop v # xs) = (Send_stop v \<notin> set xs \<and> Recv_done v \<in> set xs \<and> calls_ok xs)"
| "calls_ok (Recv_done v # xs) = (Send_stop v \<notin> set xs \<and> Recv_done v \<notin> set xs \<and> calls_ok xs)"
| "calls_ok (x # xs) = (x \<notin> set xs \<and> calls_ok xs)"

lemmas pool_calls_simps =
  pool_stop_calls_def heartbeater_stop_def requeuer_stop_def deadPoolReaper_stop_def periodicEnqueuer_stop_def

lemma calls_ok_stop: "calls_ok pool_stop_calls"
  by (simp add: pool_calls_simps)

lemma calls_ok_append: "calls_ok (pre @ xs) \<Longrightarrow> calls_ok xs"
proof (induction pre)
  case (Cons x pre)
  then show ?case by (cases x) auto
qed simp

lemma calls_ok_left: "pinv s \<Longrightarrow> calls_ok (calls_left s)"
  using calls_ok_stop calls_ok_append unfolding pinv_def by metis

lemma all_stopped: "Send_stop v \<in> set pool_stop_calls"
  by (cases v) (simp_all add: pool_calls_simps)

lemma pinv_started: "pinv (started_pool ns)"
  using all_stopped by (auto simp: pinv_def started_pool_def winv_started service_phase_def l_running_def pool_calls_simps)

lemma wstep_stopped: "wstep w w' \<Longrightarrow> stopper w = [] \<Longrightarrow> stopper w' = []"
proof (erule wstepE)
  fix x xs s'
  assume "w' = s'\<lparr>drainers := add_mset xs (drainers w - {#x # xs#})\<rparr>" "sync x w = Some s'" "stopper w = []"
  then show "stopper w' = []" by (cases x) (auto split: if_splits)
qed (auto elim: worker_stepE observer_stepE)

lemma service_phase_next:
  "service_phase ops v p \<Longrightarrow> p' \<in> set (service_next v p) \<Longrightarrow> service_phase ops v p'"
  by (cases v; cases p) (auto simp: service_phase_def l_running_def split: if_splits)

lemma pool_call_phase:
  assumes "calls_ok (x # xs)" and "pool_sync x s = Some s'" and "service_phase (x # xs) v (loop_at s v)"
  shows "service_phase xs v (loop_at s' v)"
  using assms by (cases x) (auto simp: service_phase_def split: if_splits)

lemma pool_sync_workers: "pool_sync x s = Some s' \<Longrightarrow> pool_workers s' = pool_workers s"
  by (cases x) (auto split: if_splits)

lemma pinv_call:
  assumes "calls_left s = x # xs" and "pool_sync x s = Some s'" and "pinv s"
  shows "pinv (s'\<lparr>calls_left := xs\<rparr>)"
proof -
  from assms(1,3) obtain pre where "pool_stop_calls = pre @ x # xs" by (auto simp: pinv_def)
  then have "\<exists>pre. pool_stop_calls = pre @ xs" by (intro exI [of _ "pre @ [x]"]) simp
  moreover have "service_phase xs v (loop_at s' v)" for v
    using pool_call_phase [OF _ assms(2)] calls_ok_left [OF assms(3)] assms(1,3) by (simp add: pinv_def)
  moreover have "\<forall>w\<in>set (pool_workers s). winv w \<and> (Workers_stopped \<notin> set xs \<longrightarrow> stopper w = [])"
    using assms by (cases x) (auto simp: pinv_def list_all_iff split: if_splits)
  ultimately show ?thesis using pool_sync_workers [OF assms(2)] unfolding pinv_def by simp
qed

lemma pinv_worker:
  assumes "i < length (pool_workers s)" and "wstep (pool_workers s ! i) w" and "pinv s"
  shows "pinv (s\<lparr>pool_workers := (pool_workers s)[i := w]\<rparr>)"
proof -
  have "pool_workers s ! i \<in> set (pool_workers s)" using assms(1) by simp
  with assms(2,3) have "winv w \<and> (Workers_stopped \<notin> set (calls_left s) \<longrightarrow> stopper w = [])"
    using winv_step wstep_stopped unfolding pinv_def by blast
  with assms(3) show ?thesis by (auto simp: pinv_def dest!: set_update_subset_insert [THEN subsetD])
qed

lemma pinv_service:
  "p \<in> set (service_next v (loop_at s v)) \<Longrightarrow> pinv s \<Longrightarrow> pinv (s\<lparr>loop_at := (loop_at s)(v := p)\<rparr>)"
  using service_phase_next [of "calls_left s" v "loop_at s v" p] by (simp add: pinv_def)

lemma pinv_step: "pstep s s' \<Longrightarrow> pinv s \<Longrightarrow> pinv s'"
  by (erule pstepE) (blast intro: pinv_worker pinv_service pinv_call)+

lemma pinv_reach: "preach s s' \<Longrightarrow> pinv s \<Longrightarrow> pinv s'"
  by (induction rule: rtranclp_induct) (auto intro: pinv_step)

section \<open>\<open>Stop\<close> can always return\<close>

lemma preach_worker:
  assumes "wreach w w'" and "i < length (pool_workers s)" and "pool_workers s ! i = w"
  shows "preach s (s\<lparr>pool_workers := (pool_workers s)[i := w']\<rparr>)"
  using assms(1)
proof (induction rule: rtranclp_induct)
  case base
  have "s\<lparr>pool_workers := (pool_workers s)[i := w]\<rparr> = s" using assms(3) by auto
  then show ?case by simp
next
  case (step y z)
  then have "pstep (s\<lparr>pool_workers := (pool_workers s)[i := y]\<rparr>) (s\<lparr>pool_workers := (pool_workers s)[i := z]\<rparr>)"
    using pool_worker [of i "s\<lparr>pool_workers := (pool_workers s)[i := y]\<rparr>" z] assms(2) by simp
  with step.IH show ?case by (rule rtranclp.rtrancl_into_rtrancl)
qed

lemma workers_stop:
  assumes "pinv s" and "n \<le> length (pool_workers s)"
  shows "\<exists>s'. preach s s' \<and> calls_left s' = calls_left s \<and> length (pool_workers s') = length (pool_workers s) \<and>
    (\<forall>i<n. stopper (pool_workers s' ! i) = [])"
  using assms(2)
proof (induction n)
  case (Suc n)
  then obtain s1 where s1: "preach s s1" "calls_left s1 = calls_left s" "length (pool_workers s1) = length (pool_workers s)"
    "\<forall>i<n. stopper (pool_workers s1 ! i) = []" by auto
  have n: "n < length (pool_workers s1)" using Suc.prems s1(3) by simp
  then have "winv (pool_workers s1 ! n)" using pinv_reach [OF s1(1) assms(1)] by (simp add: pinv_def)
  then obtain w where "wreach (pool_workers s1 ! n) w" "stopper w = []" using stopper_returns by blast
  then show ?case using preach_worker [OF _ n refl, of w] rtranclp_trans [OF s1(1)] s1 n
    by (intro exI [of _ "s1\<lparr>pool_workers := (pool_workers s1)[n := w]\<rparr>"]) (auto simp: less_Suc_eq)
qed auto

lemma service_moves: "p \<in> set (service_next v (loop_at s v)) \<Longrightarrow> preach s (s\<lparr>loop_at := (loop_at s)(v := p)\<rparr>)"
  by (intro r_into_rtranclp service)

lemma service_to_select:
  assumes "l_running (loop_at s v)"
  shows "\<exists>s'. preach s s' \<and> loop_at s' v = L_select \<and> calls_left s' = calls_left s"
proof -
  have work: "\<exists>s'. preach t s' \<and> loop_at s' v = L_select \<and> calls_left s' = calls_left t" if "loop_at t v = L_work" for t
    using that service_moves [of L_select v t]
    by (intro exI [of _ "t\<lparr>loop_at := (loop_at t)(v := L_select)\<rparr>"]) (cases v; simp)
  consider "loop_at s v = L_select" | "loop_at s v = L_work" | "loop_at s v = L_idle" "L_select \<in> set (service_next v L_idle)"
    | "loop_at s v = L_idle" "L_work \<in> set (service_next v L_idle)"
    using assms by (cases v) (auto simp: l_running_def)
  then show ?thesis
  proof cases
    case 3
    with service_moves [of L_select v s] show ?thesis
      by (intro exI [of _ "s\<lparr>loop_at := (loop_at s)(v := L_select)\<rparr>"]) simp
  next
    case 4
    with service_moves [of L_work v s] work [of "s\<lparr>loop_at := (loop_at s)(v := L_work)\<rparr>"] show ?thesis
      by simp (blast intro: rtranclp_trans)
  qed (use work in blast)+
qed

lemma service_to_ack:
  assumes "loop_at s v = after_stop v \<or> loop_at s v = L_ack_stop"
  shows "\<exists>s'. preach s s' \<and> loop_at s' v = L_ack_stop \<and> calls_left s' = calls_left s"
proof (cases "loop_at s v = L_ack_stop")
  case False
  with assms have "L_ack_stop \<in> set (service_next v (loop_at s v))" by (cases v) auto
  with service_moves show ?thesis by (intro exI [of _ "s\<lparr>loop_at := (loop_at s)(v := L_ack_stop)\<rparr>"]) simp
qed blast

lemma calls_ready:
  assumes "pinv s" and "calls_left s = x # xs"
  shows "\<exists>s'. preach s s' \<and> calls_left s' = calls_left s \<and> pool_sync x s' \<noteq> None"
proof (cases x)
  case Workers_stopped
  with workers_stop [OF assms(1) order_refl] show ?thesis by (auto simp: list_all_length)
next
  case (Send_stop v)
  with assms have "l_running (loop_at s v)" by (auto simp: pinv_def service_phase_def dest!: spec [of _ v])
  from service_to_select [OF this] Send_stop show ?thesis by auto
next
  case (Recv_done v)
  with assms calls_ok_left [OF assms(1)] have "loop_at s v = after_stop v \<or> loop_at s v = L_ack_stop"
    by (auto simp: pinv_def service_phase_def dest!: spec [of _ v])
  from service_to_ack [OF this] Recv_done show ?thesis by auto
qed auto

lemma calls_return: "pinv s \<Longrightarrow> \<exists>s'. preach s s' \<and> calls_left s' = []"
proof (induction "length (calls_left s)" arbitrary: s)
  case (Suc n)
  then obtain x xs where x: "calls_left s = x # xs" by (cases "calls_left s") auto
  from calls_ready [OF Suc.prems x] obtain s1 s2 where s1: "preach s s1" "calls_left s1 = x # xs" "pool_sync x s1 = Some s2"
    using x by auto
  then have reach: "preach s (s2\<lparr>calls_left := xs\<rparr>)" by (blast intro: pool_call rtranclp.rtrancl_into_rtrancl)
  have "n = length (calls_left (s2\<lparr>calls_left := xs\<rparr>))" using Suc.hyps(2) x by simp
  from Suc.hyps(1) [OF this pinv_reach [OF reach Suc.prems]] rtranclp_trans [OF reach] show ?case by blast
qed auto

text \<open>Every worker and observer has left its loop, with no observation unwritten.\<close>

definition workers_gone :: "psys \<Rightarrow> bool" where
  "workers_gone s \<longleftrightarrow> list_all (\<lambda>w. w_at w = W_gone \<and> o_at w = O_gone \<and> o_buf w = 0) (pool_workers s)"

lemma stopped_workers_gone: "pinv s \<Longrightarrow> Workers_stopped \<notin> set (calls_left s) \<Longrightarrow> workers_gone s"
  by (auto simp: pinv_def workers_gone_def list_all_iff winv_def stop_phase_def call_lists)

lemma beat_stopped_late:
  assumes "pool_stop_calls = pre @ ops" and "Send_stop Beat \<notin> set ops"
  shows "{Workers_stopped, Requeue_in_progress, Clean_lock_info} \<inter> set ops = {}"
  using assms by (auto simp: pool_calls_simps Cons_eq_append_conv)

lemma requeue_after_wait:
  assumes "pool_stop_calls = pre @ ops" and "Workers_stopped \<in> set ops"
  shows "ops = pool_stop_calls"
  using assms by (auto simp: pool_calls_simps Cons_eq_append_conv)



end
