(* ===== verification/Spec2Isabelle.thy ===== *)
theory Spec2Isabelle
  imports Pool_Facts Client_Facts Heartbeat_Facts Enqueuer_Facts Web_Facts Command_Facts Pool_Stop
begin

text \<open>
  A verification library for \<open>gojek/work\<close>, a Go library for background jobs that keeps its queues in
  Redis.

  \<^bold>\<open>The program.\<close> An enqueuer (\<open>enqueue.go\<close>) serializes a job (\<open>job.go\<close>) and pushes it onto the queue of its
  name, or adds it to the sorted set of scheduled jobs. A worker pool (\<open>worker_pool.go\<close>) owns workers
  (\<open>worker.go\<close>) that fetch jobs with a Lua script (\<open>redis.go\<close>), in an order drawn by a weighted sampler
  (\<open>priority_sampler.go\<close>), run them through the middleware (\<open>run.go\<close>) and end each with one transaction that
  finishes, retries or buries it. Beside the workers a pool runs two requeuers (\<open>requeuer.go\<close>) that move due
  retries and scheduled jobs back into the queues, a periodic enqueuer (\<open>periodic_enqueuer.go\<close>), a heartbeater
  (\<open>heartbeater.go\<close>), observers (\<open>observer.go\<close>) and a reaper (\<open>dead_pool_reaper.go\<close>) that recovers the jobs of
  pools that died. A client (\<open>client.go\<close>) and the web UI on top of it (\<open>webui/\<close>, with embedded files in
  \<open>webui/internal/assets\<close>) read all of this and delete or retry jobs. Three programs (\<open>cmd/\<close>) enqueue a job,
  serve the web UI and produce fake data. The components meet only in Redis: every request is atomic there, so what several pools
  do together is a sequence of requests.

  \<^bold>\<open>What the model takes as parameters.\<close> The Redis server, the \<open>cjson\<close> library inside it and the client
  library \<open>redigo\<close> are the fields of a record \<open>'w redis\<close> (\<open>Redis_Server\<close>), and the locales \<open>redis_server\<close>,
  \<open>lua_cjson\<close> and \<open>redis_conn\<close> state what their documentation promises; \<open>redis_link\<close> and \<open>redis_site\<close>
  (\<open>Connection\<close>) combine them, \<open>redis_reader\<close> (\<open>Web_Facts\<close>) adds that read-only commands change nothing and
  \<open>redis_keys\<close> (\<open>Command_Facts\<close>) what \<open>KEYS\<close> lists. An in-memory server with network faults interprets all of
  them. The cron schedule of a periodic job, the handlers and the middleware are functions; so are the
  decompression of the embedded files, the operating system that they are restored to, and the texts of
  the errors of other libraries. Clock readings, random numbers and identifiers are arguments,
  in the order in which the code obtains them.

  \<^bold>\<open>Shape of the model.\<close> A Go function that may fail is an action \<open>'s \<Rightarrow> (error + 'a) \<times> 's\<close> (\<open>Work_Prelude\<close>);
  its state is the world, with the enqueuer, the worker or the observations where the code changes them.
  A panic that nobody recovers from is the error \<open>GoPanic\<close>. 64-bit integers are \<open>int\<close> with \<open>wrap_i64\<close> where
  the code can overflow; a \<open>float64\<close> is a sign, a mantissa and an exponent. A Go map is an association list, in the order in which \<open>range\<close> happens to visit
  it. A goroutine is a step function on the events of its \<open>select\<close>; for a worker and its
  observer the channels themselves are modelled as well (\<open>Lifecycle\<close>).

  \<^bold>\<open>Theories.\<close>
  \<^item> \<open>Work_Prelude\<close>: actions, decimal text, \<open>strings.Join\<close> and \<open>strings.Split\<close>, shared lemmas and the
    collections of rewrite rules.
  \<^item> \<open>Json_Text\<close>, \<open>Json_Indent\<close>, \<open>Go_Float\<close>, \<open>Go_Value\<close>: the text of JSON documents, plain and indented, the
    rounding and the shortest text of floats, and \<open>encoding/json\<close> on Go values; what is printed is read back.
  \<^item> \<open>Go_Text\<close>: the numbers, errors and quoting of \<open>strconv\<close> and the paths of \<open>path/filepath\<close>.
  \<^item> \<open>Job\<close>: \<open>job.go\<close>. A job survives the trip through its JSON text; an integer argument is read exactly or
    with an error.
  \<^item> \<open>Redis_Keys\<close>: the key functions of \<open>redis.go\<close>; keys of colon-free names never collide.
  \<^item> \<open>Redis_Server\<close>, \<open>Connection\<close>: the boundary described above, single commands, scripts, transactions and
    pipelines, and a calculus for runs on a connection that is up.
  \<^item> \<open>Redis_Scripts\<close>, \<open>Script_Effects\<close>, \<open>Lua_Jobs\<close>: the Lua scripts of \<open>redis.go\<close>, the effect of every branch of
    each, and that a job rewritten by a script is read back with exactly the changed fields.
  \<^item> \<open>Priority_Sampler\<close>, \<open>Clock\<close>: \<open>priority_sampler.go\<close>, \<open>time.go\<close> and \<open>identifier.go\<close>.
  \<^item> \<open>Enqueuer\<close>, \<open>Enqueuer_Facts\<close>: \<open>enqueue.go\<close>. At most one push whatever the network does, uniqueness, and
    that a bulk enqueue is the sequence of its single ones.
  \<^item> \<open>Job_Types\<close>, \<open>Go_Types\<close>: options, backoff, the middleware chain of \<open>run.go\<close>, and the reflection that accepts
    or rejects handlers.
  \<^item> \<open>Observer\<close>, \<open>Worker\<close>, \<open>Worker_Facts\<close>: \<open>observer.go\<close> and \<open>worker.go\<close>. Which job is fetched, how a job ends,
    and that the loop of a worker never panics.
  \<^item> \<open>Lifecycle\<close>: \<open>start\<close>, \<open>stop\<close> and \<open>drain\<close> of a worker and its observer as goroutines that meet on unbuffered
    channels. Stopping always can return and leaves nothing running; draining can be stranded.
  \<^item> \<open>Pool_Stop\<close>: \<open>WorkerPool.Stop\<close> over the goroutines of all workers and of the heartbeater, the requeuers, the
    reaper and the periodic enqueuer. Jobs are given back only when no worker runs, the heartbeat goes after
    that, and nothing is left running.
  \<^item> \<open>Queue_Model\<close>, \<open>Cluster\<close>: an abstract machine of queues, locks and jobs in progress, and the cluster of
    all pools that refines it: locks count the jobs in progress, no queue exceeds its maximum concurrency
    and no job is lost or doubled by fetching and giving back.
  \<^item> \<open>Requeuer\<close>, \<open>Requeuer_Facts\<close>: \<open>requeuer.go\<close>. A round ends and moves exactly what is due.
  \<^item> \<open>Dead_Pool_Reaper\<close>, \<open>Heartbeater\<close>, \<open>Reaper_Facts\<close>: which pools are dead, and that reaping returns their jobs
    and locks.
  \<^item> \<open>Periodic_Enqueuer\<close>: \<open>periodic_enqueuer.go\<close>. Every instance is scheduled once, by however many pools.
  \<^item> \<open>Worker_Pool\<close>, \<open>Pool_Facts\<close>: \<open>worker_pool.go\<close>. The invariant of a pool over its life, stopping and draining.
  \<^item> \<open>Client\<close>, \<open>Client_Facts\<close>, \<open>Heartbeat_Facts\<close>: \<open>client.go\<close>. Pages, deleting and retrying dead jobs, and that
    the listed pools are those that beat and did not stop.
  \<^item> \<open>Assets\<close>: \<open>webui/internal/assets/assets.go\<close>. Lookups of embedded files and restoring them.
  \<^item> \<open>Webui\<close>, \<open>Web_Facts\<close>: \<open>webui/webui.go\<close> and \<open>webui/handler.go\<close> from the request to the bytes of the response.
    Only \<open>POST\<close> requests change data, a page shows the stored jobs, and some errors are not JSON.
  \<^item> \<open>Commands\<close>, \<open>Command_Facts\<close>: the programs under \<open>cmd/\<close>. A job from the command line is read with its
    arguments; fake data replaces what was under the namespace.
  \<^item> This theory: the properties that span components, among them the cycle of a failing job through the
    worker, the retries and the requeuer.

  \<^bold>\<open>Two kinds of statement.\<close> Facts about what an operation achieves assume a connection that is up (\<open>up w\<close>),
  and keys of the types the program itself gives them. Facts about what can never happen (at most one
  push, no panic, the steps of the cluster, no write by a read) hold for every behaviour of the network.

  \<^bold>\<open>Loops and bounds.\<close> The rounds of a requeuer, of the reaper and of the periodic enqueuer may in principle
  run forever; they are partial functions with the value \<open>None\<close> for no result, and the facts state that a
  result exists (or, for a cron specification that nothing satisfies, that none does). \<open>RetryAllDeadJobs\<close> has
  the bound of the code, a thousand batches of a thousand jobs. The facts about rewritten jobs are for
  documents that Lua tables represent: integers of at most 14 digits and no empty array. The bound on the
  concurrency is for maxima that are set before jobs are fetched and are not lowered while jobs run, and for
  a cluster in which the locks of a pool are released with its jobs; that the reaper can also release them
  without the jobs is a fact of its own (\<open>Reaper_Facts\<close>).

  The literals of floats are rounded exactly; for the shortest text of a float the seventeen digits that
  always suffice are tried in turn, with the exact expansion behind them. Restoring the embedded files needs
  fuel 2, the depth of their tree.

  \<^bold>\<open>Not modelled.\<close> The benchmarks (\<open>benches/\<close>) are modules of their own that measure this and other libraries;
  logging (\<open>log.go\<close>) and what the programs print go to standard output. The
  \<open>drain\<close> of a requeuer, which only tests call, is a branch of its loop without the handshake; the time between
  steps is arbitrary. Sockets, the redirects of unclean paths and the bodies of the 404 and 405 answers belong to
  \<open>net/http\<close>, reconnecting to the connection pool of \<open>redigo\<close>, and the bytes of the embedded files to the build
  of the web UI. Strings are sequences of bytes; text that is not UTF-8, which \<open>encoding/json\<close> replaces, is not
  treated.
\<close>

section \<open>Jobs as text\<close>

text \<open>C15: a serialized job is read back by \<open>newJob\<close> as the same job, up to the JSON form of its
  arguments and the fields that are not stored.\<close>

theorem newJob_reads_serialize:
  assumes "job_wf j" and "serialize j = Some raw"
  shows "newJob raw from inprog = Some (reread raw from inprog j)"
  using assms by (rule newJob_serialize)

theorem newJob_reads_serialize_witness:
  "newJob sample_raw ''q'' ''p'' = Some (reread sample_raw ''q'' ''p'' sample_job)"
  by (rule newJob_reads_serialize [OF sample_job_wf serialize_sample])

section \<open>A job that fails is run again\<close>

lemma finish_other:
  assumes "k \<noteq> inprog" and "k \<noteq> lock" and "k \<noteq> info"
  shows "kv (finish_effect pool inprog lock info raw d) k = kv d k"
  using assms by (simp add: finish_effect_def Let_def obs_simps)

lemma finish_keys:
  "redisKeyRetry ns \<noteq> redisKeyJobsInProgress ns p n" "redisKeyRetry ns \<noteq> redisKeyJobsLock ns n" "redisKeyRetry ns \<noteq> redisKeyJobsLockInfo ns n"
  "redisKeyDead ns \<noteq> redisKeyJobsInProgress ns p n" "redisKeyDead ns \<noteq> redisKeyJobsLock ns n" "redisKeyDead ns \<noteq> redisKeyJobsLockInfo ns n"
  "redisKeyDead ns \<noteq> redisKeyRetry ns" "redisKeyJobs ns n \<noteq> redisKeyRetry ns"
  by (simp_all add: key_defs)

lemma finish_queue_keys:
  assumes "plain n" and "plain m"
  shows "redisKeyJobs ns m \<noteq> redisKeyJobsLock ns n" "redisKeyJobs ns m \<noteq> redisKeyJobsLockInfo ns n"
    "plain p \<Longrightarrow> redisKeyJobs ns m \<noteq> redisKeyJobsInProgress ns p n"
  using assms by (simp_all add: key_simps)

lemma moved_reads:
  assumes "lua_cjson R" and "lua_job j" and "serialize j = Some raw" and "lua_time now"
  shows "newJob (moved_text R now raw) from inprog = Some (reread (moved_text R now raw) from inprog (retimed now j))"
proof -
  obtain a where "cjson_decode R raw = Some (JObj (job_members j a))" by (rule lua_cjson.decode_job [OF assms(1-3)])
  then show ?thesis using lua_cjson.newJob_retimed [OF assms] by (simp add: moved_text_def)
qed

text \<open>The retries and the queues after a job was finished and added to the retries.\<close>

lemma requeue_ready_finished:
  assumes "requeue_ready ns (redisKeyRetry ns) names d" and "\<forall>m\<in>insert n (set names). plain m" and "plain p"
    and "d' = finish_effect p (redisKeyJobsInProgress ns p n) (redisKeyJobsLock ns n) (redisKeyJobsLockInfo ns n) old d"
  shows "zset_type (kv d' (redisKeyRetry ns))" and "zst d' (redisKeyRetry ns) = zst d (redisKeyRetry ns)"
    and "requeue_ready ns (redisKeyRetry ns) names (zadd_key (redisKeyRetry ns) s raw d')"
proof -
  have retry: "kv d' (redisKeyRetry ns) = kv d (redisKeyRetry ns)" unfolding assms(4) by (rule finish_other) (rule finish_keys)+
  have dead: "kv d' (redisKeyDead ns) = kv d (redisKeyDead ns)" unfolding assms(4) by (rule finish_other) (rule finish_keys)+
  have queue: "kv d' (redisKeyJobs ns m) = kv d (redisKeyJobs ns m)" if "m \<in> set names" for m
    unfolding assms(4) using assms(2,3) that by (intro finish_other) (simp_all add: finish_queue_keys)
  from retry dead queue assms(1) show "zset_type (kv d' (redisKeyRetry ns))" "zst d' (redisKeyRetry ns) = zst d (redisKeyRetry ns)"
    "requeue_ready ns (redisKeyRetry ns) names (zadd_key (redisKeyRetry ns) s raw d')"
    by (simp_all add: requeue_ready_def obs_simps finish_keys)
qed

text \<open>A worker whose names have no colon, and a keyspace in which it can finish and requeue a job.\<close>

definition plain_worker :: "'c worker \<Rightarrow> bool" where
  "plain_worker wk \<longleftrightarrow> plain (poolID wk) \<and> (\<forall>n\<in>set (map fst (jobTypes wk)). plain n)"

definition retry_ready :: "'c worker \<Rightarrow> string \<Rightarrow> keyspace \<Rightarrow> bool" where
  "retry_ready wk n d \<longleftrightarrow>
     (let ns = wNamespace wk in
      finish_typed (poolID wk) (redisKeyJobsInProgress ns (poolID wk) n) (redisKeyJobsLock ns n) (redisKeyJobsLockInfo ns n) d \<and>
      requeue_ready ns (redisKeyRetry ns) (map fst (jobTypes wk)) d \<and>
      zset_wf (zst d (redisKeyRetry ns)) \<and> (\<forall>x\<in>set (zst d (redisKeyRetry ns)). storable (snd x)))"

lemma requeue_one:
  assumes "redis_site R db up" and "up w" and "requeue_ready ns (redisKeyRetry ns) names (db w)" and "lua_time now"
    and "zset_wf (zst (db w) (redisKeyRetry ns))" and "\<forall>x\<in>set (zst (db w) (redisKeyRetry ns)). storable (snd x)"
    and "(due_at, raw) \<in> set (zst (db w) (redisKeyRetry ns))" and "due_at \<le> now" and "Name (stored_job raw) = n" and "n \<in> set names"
  shows "\<exists>w'. process_all R (newRequeuer ns (redisKeyRetry ns) names) (\<lambda>_. now) 0 w = Some w' \<and> up w' \<and>
    raw \<notin> snd ` set (zst (db w') (redisKeyRetry ns)) \<and> moved_text R now raw \<in> set (lst (db w') (redisKeyJobs ns n))"
proof -
  let ?k = "redisKeyRetry ns" and ?z = "zst (db w) (redisKeyRetry ns)"
  let ?ms = "map snd (due now ?z)"
  have key: "requeue_key ns ?k" by (simp add: requeue_key_def)
  have now: "score_ok now" using assms(4) by (simp add: lua_time_def score_ok_def)
  have "distinct (map snd ?z)" "\<forall>x\<in>set (due now ?z). storable (snd x)"
    using assms(5,6) by (simp_all add: zset_wf_def due_def)
  then obtain w' where w': "process_all R (newRequeuer ns ?k names) (\<lambda>_. now) 0 w = Some w'" "up w'"
    "db w' = fold (move_effect R ns ?k names now) ?ms (db w)"
    using redis_site.process_all_up [OF assms(1,2) key assms(3) now] by blast
  have raw: "raw \<in> set ?ms" using assms(7,8) by (force simp: due_def)
  then have "moved_text R now raw \<in> set (lst (db w') (redisKeyJobs ns n))"
    unfolding w'(3) fold_move_queue [OF key assms(10)] using assms(9) by auto
  moreover have "raw \<notin> snd ` set (zst (db w') ?k)" unfolding w'(3) fold_move_zset [OF key] using raw by (auto simp del: set_map)
  ultimately show ?thesis using w' by blast
qed


definition failing_type :: "unit jobType" where
  "failing_type = sample_type\<lparr>Handler := (\<lambda>s. (Returned (Some ''oops''), s))\<rparr>"

definition failing_worker :: "unit worker" where
  "failing_worker = sample_worker\<lparr>jobTypes := [(''a'', failing_type)]\<rparr>"

definition failed_job :: job where
  "failed_job = failed ''oops'' 51 (running_job\<lparr>jobObserver := Some ''x''\<rparr>)"

lemma failing_worker_fields:
  "wNamespace failing_worker = ''w''" "poolID failing_worker = ''p''" "jobTypes failing_worker = [(''a'', failing_type)]"
  "wMiddleware failing_worker = []" "workerID failing_worker = ''x''" "JobOptions failing_type = JobOptions sample_type"
  by (simp_all add: failing_worker_def sample_worker_fields failing_type_def)

lemma failed_job_ok: "Fails failed_job = 3" "lua_job failed_job"
proof -
  show "Fails failed_job = 3" by (simp add: failed_job_def failed_def wrap_i64_id in_i64_def)
  show "lua_job failed_job"
    by (simp add: lua_job_members lua_int_text_json args_json_def failed_job_def failed_def wrap_i64_id in_i64_def
        running_job_def reread_def sample_job_def zero_job_def job_wf_def go_map_wf_def)
qed

lemma retry_ready_sample: "retry_ready failing_worker ''a'' (mem_db running_world)"
  using running_world_typed
  by (simp add: retry_ready_def failing_worker_fields Let_def requeue_ready_def running_world_simps finish_keys zset_wf_def key_simps)


end
